(* ===== verification/Kernel_Prelude.thy ===== *)
theory Kernel_Prelude
  imports
    "HOL-Library.Word"
    "HOL-Library.List_Lexorder"
    "HOL-Library.Monad_Syntax"
begin

text \<open>
  Shared vocabulary of the ShadeOS kernel model: machine integer types, byte strings, fixed-size
  arrays with bounds-checked access, decimal and hexadecimal digits, and the word arithmetic that
  the component theories use.

  Conventions.
  \<^item> \<open>u8\<close> \dots \<open>u64\<close> and \<open>usize\<close> are words of the source's width (the target is
    x86-64, so \<open>usize\<close> has 64 bits); \<open>+\<close> and \<open>-\<close> wrap, as they do in the release
    profile the Makefile builds.
  \<^item> An \<open>i32\<close> or \<open>i64\<close> status code is an \<open>int\<close> literal; where the code computes with
    signed integers the wrap-around is written out (\<open>wrap_i32\<close>).
  \<^item> A Rust panic (an index or slice out of range) is \<open>None\<close>.
  \<^item> A byte-string literal is \<open>bytes ''...''\<close>.
\<close>

unbundle bit_operations_syntax

type_synonym u8 = "8 word"
type_synonym u16 = "16 word"
type_synonym u32 = "32 word"
type_synonym u64 = "64 word"
type_synonym usize = "64 word"

named_theorems word_arith \<open>word arithmetic read as arithmetic on natural numbers\<close>
named_theorems arr_simps \<open>bounds-checked array access\<close>

section \<open>Byte strings\<close>

definition bytes :: "string \<Rightarrow> u8 list" where
  "bytes s = map of_char s"

lemma length_bytes [simp]: "length (bytes s) = length s"
  by (simp add: bytes_def)

abbreviation ch_newline :: u8 where "ch_newline \<equiv> 10"
abbreviation ch_zero :: u8 where "ch_zero \<equiv> 48"
abbreviation ch_slash :: u8 where "ch_slash \<equiv> 47"

section \<open>Fixed-size arrays\<close>

text \<open>Indexing a Rust array or slice panics out of range; so do these.\<close>

definition arr_get :: "'a list \<Rightarrow> nat \<Rightarrow> 'a option" where
  "arr_get xs i = (if i < length xs then Some (xs ! i) else None)"

definition arr_set :: "'a list \<Rightarrow> nat \<Rightarrow> 'a \<Rightarrow> 'a list option" where
  "arr_set xs i v = (if i < length xs then Some (xs[i := v]) else None)"

text \<open>\<open>arr_write i ws xs\<close> stores the bytes \<open>ws\<close> one after the other from index \<open>i\<close> on, as
  the loops \<^verbatim>\<open>for &b in prefix { msg[i] = b; i += 1; }\<close> do, and returns the array and the next
  index.\<close>

fun arr_write :: "nat \<Rightarrow> 'a list \<Rightarrow> 'a list \<Rightarrow> ('a list \<times> nat) option" where
  "arr_write i [] xs = Some (xs, i)"
| "arr_write i (w # ws) xs =
     (case arr_set xs i w of None \<Rightarrow> None | Some xs' \<Rightarrow> arr_write (Suc i) ws xs')"

text \<open>\<open>arr_write_below lim i ws xs\<close> is the guarded form
  \<^verbatim>\<open>if i < msg.len() - 3 { msg[i] = b; i += 1; }\<close>: what does not fit is dropped.\<close>

fun arr_write_below :: "nat \<Rightarrow> nat \<Rightarrow> 'a list \<Rightarrow> 'a list \<Rightarrow> 'a list \<times> nat" where
  "arr_write_below lim i [] xs = (xs, i)"
| "arr_write_below lim i (w # ws) xs =
     (if i < lim then arr_write_below lim (Suc i) ws (xs[i := w])
      else arr_write_below lim i ws xs)"

lemma arr_get_Some [arr_simps]: "i < length xs \<Longrightarrow> arr_get xs i = Some (xs ! i)"
  by (simp add: arr_get_def)

lemma arr_set_Some [arr_simps]: "i < length xs \<Longrightarrow> arr_set xs i v = Some (xs[i := v])"
  by (simp add: arr_set_def)

lemma arr_set_eq_None [arr_simps]: "arr_set xs i v = None \<longleftrightarrow> length xs \<le> i"
  by (auto simp: arr_set_def)

lemma arr_set_eq_Some: "arr_set xs i v = Some ys \<longleftrightarrow> i < length xs \<and> ys = xs[i := v]"
  by (auto simp: arr_set_def)

lemma arr_set_replicate: "arr_set (replicate (Suc k) a @ ws) k d = Some (replicate k a @ d # ws)"
  by (induction k) (auto simp: arr_set_def)

lemma arr_set_mid: "arr_set (xs @ y # ys) (length xs) v = Some (xs @ v # ys)"
  by (simp add: arr_set_def)

lemma list_update_splice:
  assumes "i < length xs"
  shows "take (Suc i) (xs[i := v]) = take i xs @ [v]"
    and "drop (Suc i) (xs[i := v]) = drop (Suc i) xs"
  using assms by (simp_all add: take_Suc_conv_app_nth)

lemma arr_write_fits:
  "i + length ws \<le> length xs \<Longrightarrow>
   arr_write i ws xs = Some (take i xs @ ws @ drop (i + length ws) xs, i + length ws)"
proof (induction ws arbitrary: i xs)
  case Nil
  then show ?case by simp
next
  case (Cons w ws)
  then have "arr_write (Suc i) ws (xs[i := w]) =
      Some (take (Suc i) (xs[i := w]) @ ws @ drop (Suc i + length ws) (xs[i := w]), Suc i + length ws)"
    by simp
  with Cons.prems show ?case
    by (simp add: arr_set_Some list_update_splice)
qed

lemma arr_write_overflows: "length xs < i + length ws \<Longrightarrow> i \<le> length xs \<Longrightarrow> arr_write i ws xs = None"
  by (induction ws arbitrary: i xs) (auto simp: arr_set_def)

lemma length_arr_write: "arr_write i ws xs = Some (ys, j) \<Longrightarrow> length ys = length xs \<and> j = i + length ws"
  by (induction ws arbitrary: i xs) (fastforce simp: arr_set_def split: if_splits)+

lemma arr_write_below_fits:
  "i + length ws \<le> lim \<Longrightarrow> lim \<le> length xs \<Longrightarrow>
   arr_write_below lim i ws xs = (take i xs @ ws @ drop (i + length ws) xs, i + length ws)"
proof (induction ws arbitrary: i xs)
  case Nil
  then show ?case by simp
next
  case (Cons w ws)
  then have "arr_write_below lim (Suc i) ws (xs[i := w]) =
      (take (Suc i) (xs[i := w]) @ ws @ drop (Suc i + length ws) (xs[i := w]), Suc i + length ws)"
    by simp
  with Cons.prems show ?case
    by (simp add: list_update_splice)
qed

lemma arr_write_below_bound:
  "arr_write_below lim i ws xs = (ys, j) \<Longrightarrow> length ys = length xs \<and> i \<le> j \<and> (i \<le> lim \<longrightarrow> j \<le> lim)"
proof (induction ws arbitrary: i xs)
  case Nil
  then show ?case by simp
next
  case (Cons w ws)
  then show ?case by (fastforce split: if_splits)
qed

lemma fold_update_range:
  "k + n \<le> length xs \<Longrightarrow>
   fold (\<lambda>i b. b[k + i := f i]) [0..<n] xs = take k xs @ map f [0..<n] @ drop (k + n) xs"
proof (induction n)
  case (Suc n)
  then have "drop (k + n) xs = xs ! (k + n) # drop (Suc (k + n)) xs"
    by (simp add: Cons_nth_drop_Suc)
  with Suc show ?case by (simp add: list_update_append)
qed simp

section \<open>C strings and iteration\<close>

text \<open>A pointer to a C string is the memory from the pointer on, \<open>None\<close> the null pointer; its text is
  what precedes the first zero byte.\<close>

definition c_text :: "u8 list \<Rightarrow> u8 list" where
  "c_text p = takeWhile (\<lambda>b. b \<noteq> 0) p"

lemma c_text_all: "0 \<notin> set p \<Longrightarrow> c_text p = p"
  unfolding c_text_def by (rule takeWhile_eq_all_conv [THEN iffD2]) auto

lemma c_text_pad: "0 \<notin> set p \<Longrightarrow> c_text (p @ 0 # q) = p"
  by (induction p) (auto simp: c_text_def)

lemma c_text_zero: "c_text (p @ 0 # q) = c_text p"
  by (induction p) (auto simp: c_text_def)

lemma c_text_nonzero: "0 \<notin> set (c_text p)"
  unfolding c_text_def by (auto dest: set_takeWhileD)

text \<open>A message buffer of \<open>n\<close> zero bytes into which text is appended.\<close>

definition padded :: "nat \<Rightarrow> u8 list \<Rightarrow> u8 list" where
  "padded n acc = acc @ replicate (n - length acc) 0"

lemma padded_start: "replicate n 0 = padded n []"
  by (simp add: padded_def)

lemma length_padded [simp]: "length acc \<le> n \<Longrightarrow> length (padded n acc) = n"
  by (simp add: padded_def)

lemma arr_write_padded:
  "length acc + length ws \<le> n \<Longrightarrow>
   arr_write (length acc) ws (padded n acc) = Some (padded n (acc @ ws), length (acc @ ws))"
  by (simp add: arr_write_fits padded_def)

lemma arr_write_below_padded:
  "length acc + length ws \<le> lim \<Longrightarrow> lim \<le> n \<Longrightarrow>
   arr_write_below lim (length acc) ws (padded n acc) = (padded n (acc @ ws), length (acc @ ws))"
  by (simp add: arr_write_below_fits padded_def)

lemma arr_set_padded: "length acc < n \<Longrightarrow> arr_set (padded n acc) (length acc) v = Some (padded n (acc @ [v]))"
  using arr_set_mid [of acc 0 "replicate (n - length acc - 1) 0" v]
  by (simp add: padded_def replicate_Suc [symmetric] Suc_diff_Suc)

lemma arr_set_padded_zero: "length acc < n \<Longrightarrow> arr_set (padded n acc) (length acc) 0 = Some (padded n acc)"
  by (subst arr_set_padded) (simp_all add: padded_def replicate_Suc [symmetric] Suc_diff_Suc)

lemma c_text_padded: "0 \<notin> set acc \<Longrightarrow> c_text (padded n acc) = acc"
  by (cases "n - length acc") (simp_all add: padded_def c_text_all c_text_pad)

text \<open>A loop over a list whose body may stop the machine (a panic, or a wait that never ends).\<close>

fun fold_opt :: "('a \<Rightarrow> 's \<Rightarrow> 's option) \<Rightarrow> 'a list \<Rightarrow> 's \<Rightarrow> 's option" where
  "fold_opt f [] s = Some s"
| "fold_opt f (x # xs) s = (case f x s of None \<Rightarrow> None | Some s' \<Rightarrow> fold_opt f xs s')"

lemma fold_opt_append:
  "fold_opt f (xs @ ys) s = (case fold_opt f xs s of None \<Rightarrow> None | Some s' \<Rightarrow> fold_opt f ys s')"
  by (induction xs arbitrary: s) (auto split: option.split)

text \<open>If each step succeeds under an invariant, so does the loop.\<close>

lemma fold_opt_inv:
  assumes "\<And>x s. P s \<Longrightarrow> x \<in> set xs \<Longrightarrow> \<exists>s'. f x s = Some s' \<and> P s'" "P s"
  shows "\<exists>s'. fold_opt f xs s = Some s' \<and> P s'"
  using assms
proof (induction xs arbitrary: s)
  case (Cons x xs)
  then obtain s' where "f x s = Some s'" "P s'" by (meson list.set_intros(1))
  with Cons.IH [of s'] Cons.prems show ?case by simp
qed simp

section \<open>Decimal and hexadecimal digits\<close>

text \<open>The reference notion of a number's decimal text, most significant digit first, and its
  value back. The formatting loops of the components are compared with it.\<close>

fun dec_text :: "nat \<Rightarrow> u8 list" where
  "dec_text n = (if n < 10 then [ch_zero + of_nat n]
                 else dec_text (n div 10) @ [ch_zero + of_nat (n mod 10)])"

declare dec_text.simps [simp del]

definition dec_value :: "u8 list \<Rightarrow> nat" where
  "dec_value ds = foldl (\<lambda>acc d. acc * 10 + unat (d - ch_zero)) 0 ds"

text \<open>The loop \<^verbatim>\<open>while n > 0 { digits[d] = b'0' + (n % 10); n /= 10; d += 1; }\<close> fills an array
  least significant digit first. It is shared by the process, system-call, VGA and shell code.\<close>

function digit_loop :: "u8 list \<Rightarrow> nat \<Rightarrow> nat \<Rightarrow> (u8 list \<times> nat) option" where
  "digit_loop digits d n =
     (if n = 0 then Some (digits, d)
      else case arr_set digits d (ch_zero + of_nat (n mod 10)) of
             None \<Rightarrow> None
           | Some digits' \<Rightarrow> digit_loop digits' (Suc d) (n div 10))"
  by pat_completeness auto
termination
  by (relation "measure (\<lambda>(ds, d, n). n)") auto

declare digit_loop.simps [simp del]

lemma dec_text_not_Nil [simp]: "dec_text n \<noteq> []"
  by (subst dec_text.simps) simp

lemma length_dec_text_pos [simp]: "0 < length (dec_text n)"
  by simp

lemma unat_of_nat_u8 [word_arith]: "n < 256 \<Longrightarrow> unat (of_nat n :: u8) = n"
  by (simp add: unsigned_of_nat take_bit_nat_eq_self)

lemma dec_value_dec_text: "dec_value (dec_text n) = n"
proof (induction n rule: dec_text.induct)
  case (1 n)
  show ?case
  proof (cases "n < 10")
    case True
    then show ?thesis by (simp add: dec_text.simps [of n] dec_value_def unat_of_nat_u8)
  next
    case False
    then have "dec_value (dec_text n) =
        dec_value (dec_text (n div 10)) * 10 + unat ((ch_zero + of_nat (n mod 10)) - ch_zero :: u8)"
      by (simp add: dec_text.simps [of n] dec_value_def)
    also have "\<dots> = n"
      using 1 False by (simp add: unat_of_nat_u8)
    finally show ?thesis .
  qed
qed

lemma dec_text_digits: "d \<in> set (dec_text n) \<Longrightarrow> ch_zero \<le> d \<and> d \<le> 57"
proof (induction n rule: dec_text.induct)
  case (1 n)
  have small: "(48 :: u8) \<le> 48 + of_nat k \<and> (48 + of_nat k :: u8) \<le> 57" if "k < 10" for k
    using that by (simp add: word_le_nat_alt unat_word_ariths unat_of_nat)
  show ?case
  proof (cases "n < 10")
    case True
    with 1 small [of n] show ?thesis by (simp add: dec_text.simps [of n])
  next
    case False
    with 1 small [of "n mod 10"] show ?thesis by (auto simp: dec_text.simps [of n])
  qed
qed

lemma length_dec_text_le: "n < 10 ^ k \<Longrightarrow> 0 < k \<Longrightarrow> length (dec_text n) \<le> k"
proof (induction k arbitrary: n)
  case 0
  then show ?case by simp
next
  case (Suc k)
  show ?case
  proof (cases "n < 10")
    case True
    then show ?thesis by (simp add: dec_text.simps [of n])
  next
    case False
    with Suc.prems have "0 < k" by (cases k) auto
    moreover from Suc.prems have "n div 10 < 10 ^ k" by auto
    ultimately show ?thesis using Suc.IH [of "n div 10"] False
      by (simp add: dec_text.simps [of n])
  qed
qed

lemma length_dec_text_gt: "10 ^ k \<le> n \<Longrightarrow> k < length (dec_text n)"
proof (induction k arbitrary: n)
  case 0
  then show ?case by simp
next
  case (Suc k)
  then have "10 \<le> n" by (simp add: order_trans [of 10 "10 * 10 ^ k" n])
  moreover from Suc.prems have "10 ^ k \<le> n div 10" by auto
  ultimately show ?case using Suc.IH [of "n div 10"]
    by (simp add: dec_text.simps [of n])
qed

text \<open>On a positive number the loop writes the reversed decimal text, exactly when it fits.\<close>

lemma map_rev_digits: "map (\<lambda>j. (rev ds @ ws) ! j) (rev [0..<length ds]) = ds"
  by (intro nth_equalityI) (auto simp: rev_nth nth_append)

lemma u32_bound: "unat (x :: u32) < 2 ^ 32"
  using unsigned_less [of x] by simp

lemma u64_bound: "unat (x :: u64) < 2 ^ 64"
  using unsigned_less [of x] by simp

lemma u32_ten_digits: "unat (x :: u32) < 10 ^ 10"
  using u32_bound [of x] by simp

lemma dec_text_nonzero: "0 \<notin> set (dec_text n)"
  using dec_text_digits [of 0 n] by auto

lemma length_dec_text_u32: "length (dec_text (unat (x :: u32))) \<le> 10"
proof -
  have "unat x < 10 ^ 10" using u32_bound [of x] by simp
  then show ?thesis by (rule length_dec_text_le) simp
qed

lemma digit_loop_dec_text:
  assumes "0 < n"
  shows "digit_loop digits d n = arr_write d (rev (dec_text n)) digits"
  using assms
proof (induction digits d n rule: digit_loop.induct)
  case (1 digits d n)
  show ?case
  proof (cases "n < 10")
    case True
    then show ?thesis using 1
      by (simp add: digit_loop.simps [of digits d n] digit_loop.simps [of _ _ 0] dec_text.simps [of n]
          split: option.split)
  next
    case False
    then have "0 < n div 10" by simp
    with 1 False show ?thesis
      by (simp add: digit_loop.simps [of digits d n] dec_text.simps [of n] split: option.split)
  qed
qed

definition hex_digit_lower :: "u8 \<Rightarrow> u8" where
  "hex_digit_lower digit = (if digit < 10 then ch_zero + digit else 97 + (digit - 10))"

definition hex_digit_upper :: "u8 \<Rightarrow> u8" where
  "hex_digit_upper digit = (if digit < 10 then ch_zero + digit else 65 + (digit - 10))"

text \<open>The lower-case hexadecimal text of a number, without leading zeros, and its value back.\<close>

fun hex_digits :: "nat \<Rightarrow> u8 list" where
  "hex_digits n = (if n = 0 then [] else hex_digits (n div 16) @ [hex_digit_lower (of_nat (n mod 16))])"

declare hex_digits.simps [simp del]

definition hex_value :: "u8 list \<Rightarrow> nat" where
  "hex_value ds = foldl (\<lambda>acc d. acc * 16 + (if d < 58 then unat (d - 48) else unat (d - 87))) 0 ds"

lemma hex_digits_0 [simp]: "hex_digits 0 = []"
  by (simp add: hex_digits.simps)

lemma hex_value_hex_digits: "hex_value (hex_digits n) = n"
proof (induction n rule: hex_digits.induct)
  case (1 n)
  have d: "(if hex_digit_lower (of_nat k) < 58 then unat (hex_digit_lower (of_nat k) - 48)
      else unat (hex_digit_lower (of_nat k) - 87)) = k" if "k < 16" for k
  proof -
    have "k = 0 \<or> k = 1 \<or> k = 2 \<or> k = 3 \<or> k = 4 \<or> k = 5 \<or> k = 6 \<or> k = 7 \<or> k = 8 \<or> k = 9 \<or>
        k = 10 \<or> k = 11 \<or> k = 12 \<or> k = 13 \<or> k = 14 \<or> k = 15"
      using that by (simp add: numeral_eq_Suc less_Suc_eq)
    then show ?thesis by (auto simp: hex_digit_lower_def)
  qed
  show ?case
  proof (cases "n = 0")
    case False
    then have "hex_value (hex_digits n) = hex_value (hex_digits (n div 16)) * 16 + n mod 16"
      using d [of "n mod 16"] by (simp add: hex_digits.simps [of n] hex_value_def)
    with 1 False show ?thesis by simp
  qed (simp add: hex_value_def)
qed

lemma hex_digits_nonzero: "d \<in> set (hex_digits n) \<Longrightarrow> d \<noteq> 0"
proof (induction n rule: hex_digits.induct)
  case (1 n)
  have "hex_digit_lower (of_nat k) \<noteq> 0" if "k < 16" for k
  proof -
    have "k = 0 \<or> k = 1 \<or> k = 2 \<or> k = 3 \<or> k = 4 \<or> k = 5 \<or> k = 6 \<or> k = 7 \<or> k = 8 \<or> k = 9 \<or>
        k = 10 \<or> k = 11 \<or> k = 12 \<or> k = 13 \<or> k = 14 \<or> k = 15"
      using that by (simp add: numeral_eq_Suc less_Suc_eq)
    then show ?thesis by (auto simp: hex_digit_lower_def)
  qed
  then show ?case using 1 by (auto simp: hex_digits.simps [of n] split: if_splits)
qed

lemma length_hex_digits: "n < 16 ^ k \<Longrightarrow> length (hex_digits n) \<le> k"
proof (induction k arbitrary: n)
  case (Suc k)
  then have "n div 16 < 16 ^ k" by auto
  with Suc.IH [of "n div 16"] show ?case by (simp add: hex_digits.simps [of n])
qed simp

section \<open>Words\<close>

lemma unat_of_nat_u16 [word_arith]: "n < 65536 \<Longrightarrow> unat (of_nat n :: u16) = n"
  by (simp add: unsigned_of_nat take_bit_nat_eq_self)

lemma unat_of_nat_u32 [word_arith]: "n < 2 ^ 32 \<Longrightarrow> unat (of_nat n :: u32) = n"
  by (simp add: unsigned_of_nat take_bit_nat_eq_self)

lemma u16_bound: "unat (x :: u16) < 65536"
  using unsigned_less [of x] by simp

lemma unat_of_nat_u64 [word_arith]: "n < 2 ^ 64 \<Longrightarrow> unat (of_nat n :: usize) = n"
  by (simp add: unsigned_of_nat take_bit_nat_eq_self)

lemma unat_add_of_nat [word_arith]:
  "unat (b :: usize) + n < 2 ^ 64 \<Longrightarrow> unat (b + of_nat n) = unat b + n"
  by (simp add: unat_word_ariths unat_of_nat_u64)

lemma add_of_nat_eq_iff [word_arith]:
  "m < 2 ^ 64 \<Longrightarrow> n < 2 ^ 64 \<Longrightarrow> ((b :: usize) + of_nat m = b + of_nat n) \<longleftrightarrow> m = n"
  by (simp add: word_of_nat_eq_iff take_bit_nat_eq_self)

lemma and_1_even: "(x :: 'a::len word) AND 1 = 0 \<longleftrightarrow> even (unat x)"
proof -
  have "x AND 1 = 0 \<longleftrightarrow> even x" by (simp add: and_one_eq even_iff_mod_2_eq_zero)
  also have "\<dots> \<longleftrightarrow> \<not> bit x 0" by (simp add: bit_0)
  also have "\<dots> \<longleftrightarrow> even (unat x)" by (metis bit_0 bit_unsigned_iff possible_bit_0)
  finally show ?thesis .
qed

lemma and_not_mask_eq: "x AND NOT (mask n) = x - take_bit n (x :: 'a::len word)"
proof -
  have "x AND NOT (mask n) = push_bit n (drop_bit n x)"
    by (rule bit_word_eqI) (auto simp: bit_simps)
  moreover have "push_bit n (drop_bit n x) + take_bit n x = x" by (rule bits_ident)
  ultimately show ?thesis by (metis add_diff_cancel_right')
qed

lemma unat_and_not_mask: "unat (x AND NOT (mask n)) = unat (x :: 'a::len word) div 2 ^ n * 2 ^ n"
proof -
  have "take_bit n x \<le> x" by (simp add: word_le_nat_alt unsigned_take_bit_eq)
  then have "unat (x - take_bit n x) = unat x - unat x mod 2 ^ n"
    by (simp only: unat_sub unsigned_take_bit_eq) (simp only: take_bit_eq_mod)
  then show ?thesis by (simp add: and_not_mask_eq minus_mod_eq_div_mult)
qed

end
