(* ===== verification/Allocator_Interface.thy ===== *)
theory Allocator_Interface
  imports Kernel_Prelude
begin

text \<open>
  What the kernel's heap promises to the code that calls it (the global allocator of
  \<^verbatim>\<open>lib.rs.template\<close>, the network drivers, the ELF loader): \<open>malloc\<close> returns, a non-null
  result is a fresh live block, live blocks do not overlap, and \<open>free\<close> of a live block removes
  exactly it. The heap allocator interprets this interface.
\<close>

section \<open>Rows of buffers\<close>

text \<open>The drivers allocate a row of buffers of one size and stop at the first that is refused; the result
  says which buffers they hold and whether the row is complete. Cleaning up releases a row in order.\<close>

fun alloc_bufs :: "(usize \<Rightarrow> 'h \<Rightarrow> (usize \<times> 'h) option) \<Rightarrow> nat \<Rightarrow> usize \<Rightarrow> 'h \<Rightarrow> (usize list \<times> bool \<times> 'h) option" where
  "alloc_bufs malloc 0 n h = Some ([], True, h)"
| "alloc_bufs malloc (Suc k) n h =
     (case malloc n h of
        None \<Rightarrow> None
      | Some (p, h1) \<Rightarrow>
          if p = 0 then Some ([], False, h1)
          else case alloc_bufs malloc k n h1 of
                 None \<Rightarrow> None
               | Some (ps, full, h2) \<Rightarrow> Some (p # ps, full, h2))"

definition free_bufs :: "(usize \<Rightarrow> 'h \<Rightarrow> 'h) \<Rightarrow> usize list \<Rightarrow> 'h \<Rightarrow> 'h" where
  "free_bufs free ps h = fold free ps h"

text \<open>\<open>holding ok live h ps h'\<close>: compared with the heap \<open>h\<close>, exactly the blocks at \<open>ps\<close> have been added to those
  in use.\<close>

definition holding :: "('h \<Rightarrow> bool) \<Rightarrow> ('h \<Rightarrow> (usize \<times> nat) set) \<Rightarrow> 'h \<Rightarrow> usize list \<Rightarrow> 'h \<Rightarrow> bool" where
  "holding ok live h ps h' \<longleftrightarrow>
     ok h' \<and> distinct ps \<and> 0 \<notin> set ps \<and> set ps \<inter> fst ` live h = {} \<and>
     set ps \<subseteq> fst ` live h' \<and> {b \<in> live h'. fst b \<notin> set ps} = live h"

text \<open>\<open>roomy live h bs\<close>: every block of \<open>bs\<close> is in use and has at least the given number of bytes.\<close>

definition roomy :: "('h \<Rightarrow> (usize \<times> nat) set) \<Rightarrow> 'h \<Rightarrow> (usize \<times> nat) list \<Rightarrow> bool" where
  "roomy live h bs \<longleftrightarrow> list_all (\<lambda>(p, n). \<exists>s \<ge> n. (p, s) \<in> live h) bs"

text \<open>Two runs of bytes that neither overlap nor reach past the end of the address space.\<close>

definition apart :: "usize \<times> nat \<Rightarrow> usize \<times> nat \<Rightarrow> bool" where
  "apart x y \<longleftrightarrow> unat (fst x) + snd x \<le> 2 ^ 64 \<and> unat (fst y) + snd y \<le> 2 ^ 64 \<and>
     (unat (fst x) + snd x \<le> unat (fst y) \<or> unat (fst y) + snd y \<le> unat (fst x))"

lemma apart_sym: "apart x y \<longleftrightarrow> apart y x"
  by (auto simp: apart_def)

section \<open>Contract\<close>

locale kernel_allocator =
  fixes inv :: "'h \<Rightarrow> bool"
    and live :: "'h \<Rightarrow> (usize \<times> nat) set"
    and malloc :: "usize \<Rightarrow> 'h \<Rightarrow> (usize \<times> 'h) option"
    and free :: "usize \<Rightarrow> 'h \<Rightarrow> 'h"
  assumes malloc_returns: "inv h \<Longrightarrow> \<exists>p h'. malloc n h = Some (p, h')"
    and malloc_inv: "inv h \<Longrightarrow> malloc n h = Some (p, h') \<Longrightarrow> inv h'"
    and malloc_null: "inv h \<Longrightarrow> malloc n h = Some (0, h') \<Longrightarrow> live h' = live h"
    and malloc_live: "inv h \<Longrightarrow> malloc n h = Some (p, h') \<Longrightarrow> p \<noteq> 0 \<Longrightarrow>
      \<exists>s. live h' = insert (p, s) (live h) \<and> p \<notin> fst ` live h \<and> (unat n \<le> 2 ^ 64 - 16 \<longrightarrow> unat n \<le> s)"
    and live_disjoint: "inv h \<Longrightarrow> (p, s) \<in> live h \<Longrightarrow> (q, t) \<in> live h \<Longrightarrow> (p, s) \<noteq> (q, t) \<Longrightarrow>
      unat p + s < unat q \<or> unat q + t < unat p"
    and live_bound: "inv h \<Longrightarrow> (p, s) \<in> live h \<Longrightarrow> unat p + s \<le> 2 ^ 64"
    and free_inv: "inv h \<Longrightarrow> (p, s) \<in> live h \<Longrightarrow> inv (free p h)"
    and free_live: "inv h \<Longrightarrow> (p, s) \<in> live h \<Longrightarrow> live (free p h) = live h - {(p, s)}"
    and free_null: "free 0 h = h"
begin

text \<open>A block given back after other code has restored the blocks that were live when it was handed
  out: the live blocks are those before the allocation, whether or not it succeeded.\<close>

lemma free_restores:
  assumes "inv h" "malloc n h = Some (p, h1)" "inv h2" "live h2 = live h1"
  shows "inv (free p h2) \<and> live (free p h2) = live h"
proof (cases "p = 0")
  case True
  with assms show ?thesis using malloc_null by (simp add: free_null)
next
  case False
  then obtain s where s: "live h1 = insert (p, s) (live h)" "p \<notin> fst ` live h"
    using malloc_live [OF assms(1,2)] by blast
  then have ps: "(p, s) \<in> live h2" "(p, s) \<notin> live h" using assms(4) by force+
  from free_inv [OF assms(3) ps(1)] free_live [OF assms(3) ps(1)] s ps assms(4) show ?thesis by simp
qed

lemma malloc_free:
  assumes "inv h" "malloc n h = Some (p, h')"
  shows "inv (free p h') \<and> live (free p h') = live h"
  using free_restores [OF assms malloc_inv [OF assms]] by simp

text \<open>Two buffers, as a driver allocates for reception and transmission: they do not overlap, and
  releasing both in either order restores the live blocks.\<close>

lemma two_buffers_disjoint:
  assumes "inv h" "malloc m h = Some (p, h1)" "malloc n h1 = Some (q, h2)" "p \<noteq> 0" "q \<noteq> 0"
    and "unat m \<le> 2 ^ 64 - 16" "unat n \<le> 2 ^ 64 - 16"
  shows "unat p + unat m < unat q \<or> unat q + unat n < unat p"
proof -
  obtain s where s: "live h1 = insert (p, s) (live h)" "unat m \<le> s"
    using malloc_live [OF assms(1,2,4)] assms(6) by blast
  obtain t where t: "live h2 = insert (q, t) (live h1)" "q \<notin> fst ` live h1" "unat n \<le> t"
    using malloc_live [OF malloc_inv [OF assms(1,2)] assms(3,5)] assms(7) by blast
  have "inv h2" using malloc_inv assms(1-3) by blast
  moreover have "(p, s) \<in> live h2" "(q, t) \<in> live h2" "(p, s) \<noteq> (q, t)"
    using s t by auto
  ultimately show ?thesis using live_disjoint [of h2 p s q t] s t by linarith
qed

lemma two_buffers_cleanup:
  assumes "inv h" "malloc m h = Some (p, h1)" "malloc n h1 = Some (q, h2)"
  shows "live (free p (free q h2)) = live h" "inv (free p (free q h2))"
  using free_restores [OF assms(1,2)] malloc_free [OF malloc_inv [OF assms(1,2)] assms(3)] by simp_all

lemma live_unique: "inv h \<Longrightarrow> (p, s) \<in> live h \<Longrightarrow> (p, t) \<in> live h \<Longrightarrow> s = t"
  using live_disjoint [of h p s p t] by auto

lemma holding_Nil: "inv h \<Longrightarrow> holding inv live h [] h"
  by (simp add: holding_def)

lemma holding_inv: "holding inv live h ps h' \<Longrightarrow> inv h'"
  by (simp add: holding_def)

lemma holding_null:
  "holding inv live h ps h' \<Longrightarrow> malloc n h' = Some (0, h'') \<Longrightarrow> holding inv live h ps h''"
  using malloc_null [of h' n h''] malloc_inv [of h' n 0 h''] by (simp add: holding_def)

lemma holding_malloc:
  assumes "holding inv live h ps h'" "malloc n h' = Some (p, h'')" "p \<noteq> 0"
  shows "holding inv live h (p # ps) h''"
proof -
  have i: "inv h'" using assms(1) by (rule holding_inv)
  obtain s where s: "live h'' = insert (p, s) (live h')" "p \<notin> fst ` live h'"
    using malloc_live [OF i assms(2,3)] by blast
  have "p \<notin> fst ` live h" "p \<notin> set ps" using assms(1) s(2) by (auto simp: holding_def)
  moreover have "{b \<in> live h''. fst b \<notin> set (p # ps)} = {b \<in> live h'. fst b \<notin> set ps}"
    using s by force
  ultimately show ?thesis using assms s malloc_inv [OF i assms(2)]
    by (auto simp: holding_def)
qed

lemma holding_free:
  assumes "holding inv live h (p # ps) h'"
  shows "holding inv live h ps (free p h')"
proof -
  have i: "inv h'" and p: "p \<notin> set ps" and pl: "p \<in> fst ` live h'" and psl: "set ps \<subseteq> fst ` live h'"
    using assms unfolding holding_def by simp_all
  have l: "{b \<in> live h'. fst b \<notin> set (p # ps)} = live h"
    using assms unfolding holding_def by (elim conjE)
  from pl obtain s where s: "(p, s) \<in> live h'" by (metis imageE prod.collapse)
  have eq: "live (free p h') = {b \<in> live h'. fst b \<noteq> p}"
  proof (rule set_eqI)
    fix b
    have "b \<in> live h' \<Longrightarrow> fst b = p \<Longrightarrow> b = (p, s)" using live_unique [OF i s, of "snd b"] by (cases b) simp
    then show "b \<in> live (free p h') \<longleftrightarrow> b \<in> {b \<in> live h'. fst b \<noteq> p}"
      unfolding free_live [OF i s] by (cases "b = (p, s)") auto
  qed
  have "set ps \<subseteq> fst ` live (free p h')"
  proof
    fix q assume q: "q \<in> set ps"
    then have "q \<noteq> p" using p by blast
    from q psl obtain b where "b \<in> live h'" "fst b = q" by (metis imageE subsetD)
    with \<open>q \<noteq> p\<close> show "q \<in> fst ` live (free p h')" unfolding eq by blast
  qed
  moreover have "{b \<in> live (free p h'). fst b \<notin> set ps} = live h" unfolding eq l [symmetric] by auto
  ultimately show ?thesis using assms free_inv [OF i s] unfolding holding_def by simp
qed

lemma holding_perm: "holding inv live h ps h' \<Longrightarrow> distinct qs \<Longrightarrow> set qs = set ps \<Longrightarrow> holding inv live h qs h'"
  by (simp add: holding_def)

lemma holding_free_bufs: "holding inv live h (qs @ ps) h' \<Longrightarrow> holding inv live h ps (free_bufs free qs h')"
  by (induction qs arbitrary: h') (simp_all add: free_bufs_def holding_free)

lemma holding_none: "holding inv live h [] h' \<longleftrightarrow> inv h' \<and> live h' = live h"
  by (auto simp: holding_def)

text \<open>Releasing everything that is held, in any order, restores the blocks in use.\<close>

lemma holding_release:
  assumes "holding inv live h ps h'" "distinct qs" "set qs = set ps"
  shows "inv (free_bufs free qs h') \<and> live (free_bufs free qs h') = live h"
  using holding_free_bufs [of h qs "[]" h'] holding_perm [OF assms] by (simp add: holding_none)

lemma holding_alloc_bufs:
  assumes "holding inv live h ps h'" "alloc_bufs malloc k n h' = Some (qs, full, h'')"
  shows "holding inv live h (rev qs @ ps) h'' \<and> length qs \<le> k \<and> (full \<longleftrightarrow> length qs = k)"
  using assms
proof (induction k arbitrary: ps h' qs)
  case (Suc k)
  from Suc.prems(2) obtain p h1 where p: "malloc n h' = Some (p, h1)"
    by (auto split: option.splits)
  show ?case
  proof (cases "p = 0")
    case True
    with Suc.prems p show ?thesis by (auto intro: holding_null)
  next
    case False
    with Suc.prems(2) p obtain qs' where q: "alloc_bufs malloc k n h1 = Some (qs', full, h'')" "qs = p # qs'"
      by (auto split: option.splits)
    from Suc.IH [OF holding_malloc [OF Suc.prems(1) p False] q(1)] q(2) show ?thesis by simp
  qed
qed simp

lemma alloc_bufs_returns: "inv h \<Longrightarrow> alloc_bufs malloc k n h \<noteq> None"
proof (induction k arbitrary: h)
  case (Suc k)
  obtain p h1 where p: "malloc n h = Some (p, h1)" using malloc_returns [OF Suc.prems, of n] by (elim exE)
  have "alloc_bufs malloc k n h1 \<noteq> None" by (rule Suc.IH [OF malloc_inv [OF Suc.prems p]])
  with p show ?case by (cases "alloc_bufs malloc k n h1") (simp_all add: split_beta del: not_None_eq)
qed (simp del: not_None_eq)

lemma roomy_mono: "roomy live h bs \<Longrightarrow> live h \<subseteq> live h' \<Longrightarrow> roomy live h' bs"
  unfolding roomy_def by (induction bs) auto

lemma malloc_mono: "inv h \<Longrightarrow> malloc n h = Some (p, h') \<Longrightarrow> live h \<subseteq> live h'"
  using malloc_null [of h n h'] malloc_live [of h n p h'] by (cases "p = 0") auto

lemma roomy_malloc:
  assumes "inv h" "malloc n h = Some (p, h')" "p \<noteq> 0" "unat n \<le> 2 ^ 64 - 16" "roomy live h bs"
  shows "roomy live h' ((p, unat n) # bs)"
proof -
  obtain s where "live h' = insert (p, s) (live h)" "unat n \<le> s" using malloc_live [OF assms(1-3)] assms(4) by blast
  then have "\<exists>s \<ge> unat n. (p, s) \<in> live h'" by blast
  moreover have "roomy live h' bs" using roomy_mono [OF assms(5) malloc_mono [OF assms(1,2)]] .
  ultimately show ?thesis by (simp add: roomy_def)
qed

lemma roomy_alloc_bufs:
  assumes "inv h" "alloc_bufs malloc k n h = Some (qs, full, h')" "unat n \<le> 2 ^ 64 - 16" "roomy live h bs"
  shows "roomy live h' (rev (map (\<lambda>q. (q, unat n)) qs) @ bs)"
  using assms
proof (induction k arbitrary: h qs bs)
  case (Suc k)
  from Suc.prems(2) obtain p h1 where p: "malloc n h = Some (p, h1)"
    by (auto split: option.splits)
  show ?case
  proof (cases "p = 0")
    case True
    with Suc.prems(2) p have "qs = []" "h' = h1" by auto
    then show ?thesis using roomy_mono [OF Suc.prems(4) malloc_mono [OF Suc.prems(1) p]] by simp
  next
    case False
    with Suc.prems(2) p obtain qs' where q: "alloc_bufs malloc k n h1 = Some (qs', full, h')" "qs = p # qs'"
      by (auto split: option.splits)
    from Suc.IH [OF malloc_inv [OF Suc.prems(1) p] q(1) Suc.prems(3)
        roomy_malloc [OF Suc.prems(1) p False Suc.prems(3,4)]] q(2)
    show ?thesis by simp
  qed
qed (simp add: roomy_def)

lemma roomyD: "roomy live h bs \<Longrightarrow> (p, m) \<in> set bs \<Longrightarrow> \<exists>s \<ge> m. (p, s) \<in> live h"
  by (auto simp: roomy_def list_all_iff)

text \<open>Blocks at different addresses do not overlap.\<close>

lemma roomy_apart:
  assumes "inv h" "roomy live h bs" "(p, m) \<in> set bs" "(q, n) \<in> set bs" "p \<noteq> q"
  shows "apart (p, m) (q, n)"
proof -
  obtain s where s: "(p, s) \<in> live h" "m \<le> s" using roomyD [OF assms(2,3)] by blast
  obtain t where t: "(q, t) \<in> live h" "n \<le> t" using roomyD [OF assms(2,4)] by blast
  from live_disjoint [OF assms(1) s(1) t(1)] assms(5) live_bound [OF assms(1) s(1)] live_bound [OF assms(1) t(1)] s(2) t(2)
  show ?thesis by (auto simp: apart_def)
qed

end

end
