(* ===== verification/Heap_Allocator.thy ===== *)
theory Heap_Allocator
  imports Allocator_Interface
begin

text \<open>
  The kernel heap (\<^verbatim>\<open>kernel-rs/src/heap.rs\<close>): a first-fit allocator over a doubly linked list of
  block headers that lie contiguously in a static array of 4 MiB.

  The state is the list head and the header store, a function from addresses to the header at that
  address; payload bytes are not represented. A write of one header leaves the headers at other
  addresses alone, which is what the memory does as long as headers are at least
  \<open>size_of_Block\<close> bytes apart; the invariant \<open>heap_rel\<close> keeps every live header so.
  The address of the static array is the parameter \<open>base\<close>.
\<close>

section \<open>Definitions\<close>

definition HEAP_SIZE :: usize where
  "HEAP_SIZE = 1024 * 1024 * 4"

definition ALIGNMENT :: usize where
  "ALIGNMENT = 16"

definition BLOCK_MAGIC :: u32 where
  "BLOCK_MAGIC = 0xDEADBEEF"

record Block =
  magic :: u32
  bsize :: usize
  is_free :: bool
  bnext :: usize
  bprev :: usize

text \<open>\<^verbatim>\<open>#[repr(C, align(16))]\<close>: the fields end at byte 40, rounded up to the alignment.\<close>

definition size_of_Block :: usize where
  "size_of_Block = 48"

record heap =
  HEAP_HEAD :: usize
  hdr :: "usize \<Rightarrow> Block"
  heap_log :: "u8 list list"

definition upd_hdr :: "usize \<Rightarrow> (Block \<Rightarrow> Block) \<Rightarrow> heap \<Rightarrow> heap" where
  "upd_hdr a f h = h\<lparr>hdr := (hdr h)(a := f (hdr h a))\<rparr>"

definition heap_serial_write :: "u8 list \<Rightarrow> heap \<Rightarrow> heap" where
  "heap_serial_write s h = h\<lparr>heap_log := heap_log h @ [s]\<rparr>"

text \<open>The hexadecimal printer of this file. The index \<open>i\<close> is a \<open>usize\<close>: after sixteen digits it
  wraps below zero and \<open>i + 1\<close> brings it back.\<close>

function hex_loop :: "u8 list \<Rightarrow> usize \<Rightarrow> u64 \<Rightarrow> (u8 list \<times> usize) option" where
  "hex_loop buf i v =
     (if v = 0 then Some (buf, i)
      else case arr_set buf (unat i) (hex_digit_lower (ucast (v mod 16))) of
             None \<Rightarrow> None
           | Some buf' \<Rightarrow> hex_loop buf' (i - 1) (v div 16))"
  by pat_completeness auto
termination
  by (relation "measure (\<lambda>(buf, i, v). unat v)")
     (auto simp: unat_div unat_gt_0 intro!: div_less_dividend)

declare hex_loop.simps [simp del]

definition heap_write_hex :: "u64 \<Rightarrow> u8 list option" where
  "heap_write_hex val =
     (if val = 0 then Some (bytes ''0'')
      else case hex_loop (replicate 17 0) 15 val of
             None \<Rightarrow> None
           | Some (buf, i) \<Rightarrow> Some (takeWhile (\<lambda>b. b \<noteq> 0) (drop (unat (i + 1)) buf)))"

text \<open>The static data before \<open>init_heap\<close> runs: the array is zero and the head is null.\<close>

definition boot_heap :: heap where
  "boot_heap = \<lparr>HEAP_HEAD = 0,
     hdr = (\<lambda>_. \<lparr>magic = 0, bsize = 0, is_free = False, bnext = 0, bprev = 0\<rparr>), heap_log = []\<rparr>"

definition init_heap :: "usize \<Rightarrow> heap \<Rightarrow> heap option" where
  "init_heap base h =
     (let head = base;
          heap_base = base;
          heap_end = heap_base + HEAP_SIZE;
          h1 = upd_hdr head (\<lambda>_. \<lparr>magic = BLOCK_MAGIC, bsize = HEAP_SIZE - size_of_Block,
                                  is_free = True, bnext = 0, bprev = 0\<rparr>) h;
          h2 = heap_serial_write (bytes ''[MEM] Paging enabled, heap at 0x'') (h1\<lparr>HEAP_HEAD := head\<rparr>)
      in do {
        t1 \<leftarrow> heap_write_hex heap_base;
        t2 \<leftarrow> heap_write_hex heap_end;
        Some (heap_serial_write [ch_newline]
                (heap_serial_write t2 (heap_serial_write (bytes ''-0x'') (heap_serial_write t1 h2))))
      })"

definition align_up :: "usize \<Rightarrow> usize" where
  "align_up n = (n + (ALIGNMENT - 1)) AND NOT (ALIGNMENT - 1)"

text \<open>The body of the search loop once a fitting block is found: split it if there is room for
  another header, then mark it used.\<close>

definition kmalloc_take :: "usize \<Rightarrow> usize \<Rightarrow> heap \<Rightarrow> heap" where
  "kmalloc_take current aligned_size h =
     (let block = hdr h current;
          h' = (if aligned_size + size_of_Block < bsize block then
                  (let new_block = current + size_of_Block + aligned_size;
                       h1 = upd_hdr new_block
                              (\<lambda>_. \<lparr>magic = BLOCK_MAGIC,
                                    bsize = bsize block - aligned_size - size_of_Block,
                                    is_free = True, bnext = bnext block, bprev = current\<rparr>) h;
                       h2 = (if bnext block \<noteq> 0
                             then upd_hdr (bnext block) (\<lambda>b. b\<lparr>bprev := new_block\<rparr>) h1 else h1)
                   in upd_hdr current (\<lambda>b. b\<lparr>bsize := aligned_size, bnext := new_block\<rparr>) h2)
                else h)
      in upd_hdr current (\<lambda>b. b\<lparr>is_free := False\<rparr>) h')"

text \<open>The search loop follows \<open>next\<close> pointers; on a cyclic list it would not return (\<open>None\<close>).\<close>

partial_function (option) kmalloc_loop :: "usize \<Rightarrow> usize \<Rightarrow> heap \<Rightarrow> (usize \<times> heap) option" where
  "kmalloc_loop aligned_size current h =
     (if current = 0
      then Some (0, heap_serial_write (bytes ''[HEAP-ERROR] Out of memory!'' @ [ch_newline]) h)
      else if is_free (hdr h current) \<and> aligned_size \<le> bsize (hdr h current)
      then Some (current + size_of_Block, kmalloc_take current aligned_size h)
      else kmalloc_loop aligned_size (bnext (hdr h current)) h)"

definition rust_kmalloc :: "usize \<Rightarrow> heap \<Rightarrow> (usize \<times> heap) option" where
  "rust_kmalloc n h = (if n = 0 then Some (0, h) else kmalloc_loop (align_up n) (HEAP_HEAD h) h)"

definition coalesce_next :: "usize \<Rightarrow> heap \<Rightarrow> heap" where
  "coalesce_next block_ptr h =
     (let block = hdr h block_ptr in
      if bnext block \<noteq> 0 \<and> is_free (hdr h (bnext block)) then
        (let next_block = hdr h (bnext block);
             h1 = upd_hdr block_ptr
                    (\<lambda>b. b\<lparr>bsize := bsize b + (size_of_Block + bsize next_block),
                           bnext := bnext next_block\<rparr>) h
         in if bnext next_block \<noteq> 0
            then upd_hdr (bnext next_block) (\<lambda>b. b\<lparr>bprev := block_ptr\<rparr>) h1 else h1)
      else h)"

definition coalesce_prev :: "usize \<Rightarrow> heap \<Rightarrow> heap" where
  "coalesce_prev block_ptr h =
     (let block = hdr h block_ptr in
      if bprev block \<noteq> 0 \<and> is_free (hdr h (bprev block)) then
        (let h1 = upd_hdr (bprev block)
                    (\<lambda>b. b\<lparr>bsize := bsize b + (size_of_Block + bsize block),
                           bnext := bnext block\<rparr>) h
         in if bnext block \<noteq> 0
            then upd_hdr (bnext block) (\<lambda>b. b\<lparr>bprev := bprev block\<rparr>) h1 else h1)
      else h)"

definition rust_kfree :: "usize \<Rightarrow> heap \<Rightarrow> heap" where
  "rust_kfree ptr h =
     (if ptr = 0 then h
      else let block_ptr = ptr - size_of_Block;
               block = hdr h block_ptr
           in if magic block \<noteq> BLOCK_MAGIC \<or> is_free block
              then heap_serial_write
                     (bytes ''[HEAP-ERROR] Invalid free() or double free!'' @ [ch_newline]) h
              else coalesce_prev block_ptr (coalesce_next block_ptr
                     (upd_hdr block_ptr (\<lambda>b. b\<lparr>is_free := True\<rparr>) h)))"

definition rust_get_block_header_size :: usize where
  "rust_get_block_header_size = size_of_Block"

definition rust_heap_validate :: bool where
  "rust_heap_validate = True"

definition rust_heap_stats :: "usize \<times> usize \<times> usize" where
  "rust_heap_stats = (0, 0, 0)"

section \<open>The abstract allocator\<close>

text \<open>A heap is a sequence of blocks, each with its payload size and whether it is free. Offsets
  count bytes from the start of the array.\<close>

type_synonym ablock = "nat \<times> bool"

fun span :: "ablock list \<Rightarrow> nat" where
  "span [] = 0"
| "span ((s, f) # bs) = 48 + s + span bs"

definition split_block :: "nat \<Rightarrow> nat \<Rightarrow> ablock list" where
  "split_block n s = (if n + 48 < s then [(n, False), (s - n - 48, True)] else [(s, False)])"

fun first_fit :: "nat \<Rightarrow> ablock list \<Rightarrow> (nat \<times> ablock list) option" where
  "first_fit n [] = None"
| "first_fit n ((s, f) # bs) =
     (if f \<and> n \<le> s then Some (48, split_block n s @ bs)
      else case first_fit n bs of None \<Rightarrow> None
           | Some (p, bs') \<Rightarrow> Some (48 + s + p, (s, f) # bs'))"

fun coalesce :: "ablock list \<Rightarrow> ablock list" where
  "coalesce ((s, True) # (t, True) # bs) = (s + 48 + t, True) # bs"
| "coalesce bs = bs"

text \<open>Release the block whose payload starts at offset \<open>p\<close>: mark it free and merge it with a free
  right and then a free left neighbour.\<close>

fun release :: "nat \<Rightarrow> ablock list \<Rightarrow> ablock list" where
  "release p [] = []"
| "release p ((s, f) # bs) =
     (if p = 48 then coalesce ((s, True) # bs)
      else if f \<and> p = 48 + s + 48 then coalesce ((s, f) # release 48 bs)
      else (s, f) # release (p - (48 + s)) bs)"

text \<open>The payloads in use, as offset and size.\<close>

fun allocs :: "nat \<Rightarrow> ablock list \<Rightarrow> (nat \<times> nat) list" where
  "allocs off [] = []"
| "allocs off ((s, f) # bs) =
     (if f then [] else [(off + 48, s)]) @ allocs (off + 48 + s) bs"

fun no_adjacent_free :: "ablock list \<Rightarrow> bool" where
  "no_adjacent_free ((s, f) # (t, g) # bs) \<longleftrightarrow> \<not> (f \<and> g) \<and> no_adjacent_free ((t, g) # bs)"
| "no_adjacent_free _ \<longleftrightarrow> True"

definition ablocks_ok :: "ablock list \<Rightarrow> bool" where
  "ablocks_ok bs \<longleftrightarrow>
     bs \<noteq> [] \<and> span bs = unat HEAP_SIZE \<and> (\<forall>(s, f) \<in> set bs. 16 dvd s) \<and> no_adjacent_free bs"

section \<open>The representation relation\<close>

definition haddr :: "usize \<Rightarrow> nat \<Rightarrow> usize" where
  "haddr base off = base + of_nat off"

text \<open>\<open>seg m base pv off bs nx\<close>: the headers of \<open>bs\<close> lie in \<open>m\<close> one after the other from
  offset \<open>off\<close> on, linked both ways; the first one's \<open>prev\<close> is \<open>pv\<close>, the last one's
  \<open>next\<close> is \<open>nx\<close>.\<close>

fun seg :: "(usize \<Rightarrow> Block) \<Rightarrow> usize \<Rightarrow> usize \<Rightarrow> nat \<Rightarrow> ablock list \<Rightarrow> usize \<Rightarrow> bool" where
  "seg m base pv off [] nx \<longleftrightarrow> True"
| "seg m base pv off ((s, f) # bs) nx \<longleftrightarrow>
     m (haddr base off) =
       \<lparr>magic = BLOCK_MAGIC, bsize = of_nat s, is_free = f,
        bnext = (if bs = [] then nx else haddr base (off + 48 + s)), bprev = pv\<rparr> \<and>
     seg m base (haddr base off) (off + 48 + s) bs nx"

definition heap_placed :: "usize \<Rightarrow> bool" where
  "heap_placed base \<longleftrightarrow> 0 < unat base \<and> 16 dvd unat base \<and> unat base + unat HEAP_SIZE < 2 ^ 64"

definition heap_rel :: "usize \<Rightarrow> heap \<Rightarrow> ablock list \<Rightarrow> bool" where
  "heap_rel base h bs \<longleftrightarrow>
     heap_placed base \<and> ablocks_ok bs \<and> HEAP_HEAD h = base \<and> seg (hdr h) base 0 0 bs 0"

definition heap_inv :: "usize \<Rightarrow> heap \<Rightarrow> bool" where
  "heap_inv base h \<longleftrightarrow> (\<exists>bs. heap_rel base h bs)"

section \<open>Arithmetic of sizes and addresses\<close>

lemma unat_HEAP_SIZE [simp]: "unat HEAP_SIZE = 4194304"
  by (simp add: HEAP_SIZE_def)

lemma unat_size_of_Block [simp]: "unat size_of_Block = 48"
  by (simp add: size_of_Block_def)

lemma haddr_eq_iff: "o1 < 2 ^ 64 \<Longrightarrow> o2 < 2 ^ 64 \<Longrightarrow> haddr base o1 = haddr base o2 \<longleftrightarrow> o1 = o2"
  unfolding haddr_def by (rule add_of_nat_eq_iff)

lemma haddr_0 [simp]: "haddr base 0 = base"
  by (simp add: haddr_def)

lemma haddr_add: "haddr base off + w = haddr base (off + unat w)"
  by (simp add: haddr_def add.assoc)

lemma unat_haddr: "heap_placed base \<Longrightarrow> off \<le> 4194304 \<Longrightarrow> unat (haddr base off) = unat base + off"
  by (simp add: haddr_def heap_placed_def unat_add_of_nat)

lemma haddr_nonnull: "heap_placed base \<Longrightarrow> off \<le> 4194304 \<Longrightarrow> haddr base off \<noteq> 0"
  using unat_haddr [of base off] by (auto simp: heap_placed_def simp flip: unat_eq_0)

lemma and_not_15: "x AND NOT 15 = x - x mod 16" for x :: usize
proof -
  have m: "(15 :: usize) = mask 4" by (simp add: mask_eq_exp_minus_1)
  show ?thesis unfolding m and_not_mask_eq by (simp add: take_bit_eq_mod)
qed

lemma unat_align_up:
  "unat (align_up n) = (if unat n \<le> 2 ^ 64 - 16 then (unat n + 15) div 16 * 16 else 0)"
proof -
  have sub: "unat (x - x mod 16) = unat x div 16 * 16" for x :: usize
  proof -
    have "x mod 16 \<le> x" by (simp add: word_le_nat_alt unat_mod)
    then have "unat (x - x mod 16) = unat x - unat x mod 16"
      by (simp add: unat_sub unat_mod)
    then show ?thesis by (simp add: minus_mod_eq_div_mult)
  qed
  have al: "align_up n = (n + 15) - (n + 15) mod 16"
    using and_not_15 [of "n + 15"] by (simp add: align_up_def ALIGNMENT_def)
  have n: "unat n < 2 ^ 64" using unsigned_less [of n] by simp
  have "unat (n + 15) = (if unat n \<le> 2 ^ 64 - 16 then unat n + 15 else unat n + 15 - 2 ^ 64)"
    using n by (auto simp: unat_word_ariths mod_if)
  with n show ?thesis
    by (auto simp: al sub)
qed

lemma align_up_dvd: "16 dvd unat (align_up n)"
  by (simp add: unat_align_up)

lemma align_up_ge: "unat n \<le> 2 ^ 64 - 16 \<Longrightarrow> unat n \<le> unat (align_up n)"
  by (simp add: unat_align_up)

lemma align_up_pos: "n \<noteq> 0 \<Longrightarrow> unat n \<le> 2 ^ 64 - 16 \<Longrightarrow> 0 < unat (align_up n)"
  using align_up_ge [of n] unat_gt_0 [of n] by linarith

section \<open>Segments of the block list\<close>

lemma span_append [simp]: "span (xs @ ys) = span xs + span ys"
  by (induction xs rule: span.induct) auto

lemma span_pos: "bs \<noteq> [] \<Longrightarrow> 48 \<le> span bs"
  by (cases bs rule: span.cases) auto

fun seg_last :: "usize \<Rightarrow> usize \<Rightarrow> nat \<Rightarrow> ablock list \<Rightarrow> usize" where
  "seg_last base pv off [] = pv"
| "seg_last base pv off ((s, f) # bs) = seg_last base (haddr base off) (off + 48 + s) bs"

lemma seg_append:
  "seg m base pv off (xs @ ys) nx \<longleftrightarrow>
     seg m base pv off xs (if ys = [] then nx else haddr base (off + span xs)) \<and>
     seg m base (seg_last base pv off xs) (off + span xs) ys nx"
proof (induction xs arbitrary: pv off rule: span.induct)
  case 1
  then show ?case by simp
next
  case (2 s f bs)
  from 2 [of "haddr base off" "off + 48 + s"] show ?case
    by (auto simp: add.assoc)
qed

lemma seg_last_append [simp]:
  "seg_last base pv off (xs @ [(s, f)]) = haddr base (off + span xs)"
  by (induction xs arbitrary: pv off rule: span.induct) (auto simp: add.assoc)

lemma seg_frame:
  assumes "o' < off \<or> off + span bs \<le> o'" "o' < 2 ^ 64" "off + span bs \<le> 2 ^ 64"
  shows "seg (m(haddr base o' := b)) base pv off bs nx \<longleftrightarrow> seg m base pv off bs nx"
  using assms
proof (induction bs arbitrary: pv off rule: span.induct)
  case 1
  then show ?case by simp
next
  case (2 s f bs)
  then have "haddr base off \<noteq> haddr base o'"
    by (subst haddr_eq_iff) auto
  with 2 show ?case by auto
qed

lemma first_fit_hit:
  "(\<forall>(s', f) \<in> set xs. \<not> (f \<and> n \<le> s')) \<Longrightarrow> n \<le> s \<Longrightarrow>
   first_fit n (xs @ (s, True) # ys) = Some (span xs + 48, xs @ split_block n s @ ys)"
  by (induction xs rule: span.induct) auto

lemma first_fit_miss:
  "first_fit n bs = None \<longleftrightarrow> (\<forall>(s, f) \<in> set bs. \<not> (f \<and> n \<le> s))"
  by (induction n bs rule: first_fit.induct) (auto split: option.splits)

lemma first_fit_cases:
  obtains (miss) "\<forall>(s, f) \<in> set bs. \<not> (f \<and> n \<le> s)" "first_fit n bs = None"
  | (hit) xs s ys where "bs = xs @ (s, True) # ys" "n \<le> s"
      "\<forall>(s', f) \<in> set xs. \<not> (f \<and> n \<le> s')"
      "first_fit n bs = Some (span xs + 48, xs @ split_block n s @ ys)"
proof (cases "\<exists>b \<in> set bs. snd b \<and> n \<le> fst b")
  case True
  then obtain xs b ys where b: "bs = xs @ b # ys" "snd b \<and> n \<le> fst b"
      "\<forall>y \<in> set xs. \<not> (snd y \<and> n \<le> fst y)"
    using split_list_first_prop [of bs "\<lambda>b. snd b \<and> n \<le> fst b"] by blast
  then have "b = (fst b, True)" by (cases b) auto
  with b obtain s where "b = (s, True)" "n \<le> s" by metis
  moreover have "\<forall>(s', f) \<in> set xs. \<not> (f \<and> n \<le> s')"
    using b(3) by (simp add: case_prod_beta)
  ultimately show thesis
    using b(1) by (intro hit [of xs s ys]) (simp_all add: first_fit_hit)
next
  case False
  then show thesis by (intro miss) (auto simp: first_fit_miss)
qed

section \<open>The search loop\<close>

lemma kmalloc_loop_null:
  "kmalloc_loop n 0 h =
     Some (0, heap_serial_write (bytes ''[HEAP-ERROR] Out of memory!'' @ [ch_newline]) h)"
  by (subst kmalloc_loop.simps) simp

lemma kmalloc_loop_take:
  "a \<noteq> 0 \<Longrightarrow> is_free (hdr h a) \<Longrightarrow> n \<le> bsize (hdr h a) \<Longrightarrow>
   kmalloc_loop n a h = Some (a + size_of_Block, kmalloc_take a n h)"
  by (subst kmalloc_loop.simps) simp

lemma kmalloc_loop_skip:
  "a \<noteq> 0 \<Longrightarrow> \<not> (is_free (hdr h a) \<and> n \<le> bsize (hdr h a)) \<Longrightarrow>
   kmalloc_loop n a h = kmalloc_loop n (bnext (hdr h a)) h"
  by (subst kmalloc_loop.simps) auto

text \<open>The search loop on the part of the list from \<open>off\<close> on: it walks over the blocks that do not
  fit.\<close>

lemma kmalloc_loop_walk:
  assumes "heap_placed base" "off + span xs \<le> 4194304"
    and "seg (hdr h) base pv off xs nx" "\<forall>(s', f) \<in> set xs. \<not> (f \<and> unat n \<le> s')"
  shows "kmalloc_loop n (if xs = [] then nx else haddr base off) h = kmalloc_loop n nx h"
  using assms(2-)
proof (induction xs arbitrary: pv off rule: span.induct)
  case 1
  then show ?case by simp
next
  case (2 s f bs)
  then have "haddr base off \<noteq> 0" by (intro haddr_nonnull [OF assms(1)]) simp
  moreover have "\<not> (is_free (hdr h (haddr base off)) \<and> n \<le> bsize (hdr h (haddr base off)))"
    using 2 by (auto simp: word_le_nat_alt unat_of_nat_u64)
  ultimately have "kmalloc_loop n (haddr base off) h = kmalloc_loop n (bnext (hdr h (haddr base off))) h"
    by (rule kmalloc_loop_skip)
  also have "\<dots> = kmalloc_loop n (if bs = [] then nx else haddr base (off + 48 + s)) h"
    using 2 by simp
  also have "\<dots> = kmalloc_loop n nx h"
    using 2 by (intro "2.IH") auto
  finally show ?case by simp
qed

section \<open>Splitting, merging and marking blocks\<close>

lemma seg_relink:
  assumes "seg m base pv off ys nx" "off + span ys \<le> 2 ^ 64"
  shows "seg (if ys = [] then m else m(haddr base off := (m (haddr base off))\<lparr>bprev := pv'\<rparr>)) base pv' off ys nx"
proof (cases ys rule: span.cases)
  case (2 s f bs)
  with assms show ?thesis by (simp add: seg_frame)
qed simp

lemma seg_hd:
  "seg m base pv off (xs @ (s, f) # ys) nx \<Longrightarrow>
   m (haddr base (off + span xs)) =
     \<lparr>magic = BLOCK_MAGIC, bsize = of_nat s, is_free = f,
      bnext = (if ys = [] then nx else haddr base (off + span xs + 48 + s)),
      bprev = seg_last base pv off xs\<rparr>"
  by (simp add: seg_append)

lemma seg_tl:
  "seg m base pv off (xs @ (s, f) # ys) nx \<Longrightarrow>
   seg m base (haddr base (off + span xs)) (off + span xs + 48 + s) ys nx"
  by (simp add: seg_append)

lemma seg_join:
  assumes "seg m base pv off xs (haddr base (off + span xs))" "ms \<noteq> []"
    and "seg m base (seg_last base pv off xs) (off + span xs) ms
           (if ys = [] then nx else haddr base (off + span xs + span ms))"
    and "seg m base (seg_last base (seg_last base pv off xs) (off + span xs) ms)
           (off + span xs + span ms) ys nx"
  shows "seg m base pv off (xs @ ms @ ys) nx"
  using assms by (simp add: seg_append)

text \<open>One block splits in two, or two blocks merge into one: the shape of both updates.\<close>

lemma seg_merge:
  assumes "seg m base pv off (xs @ (s, f) # (t, g) # ys) nx"
    and "off + span (xs @ (s, f) # (t, g) # ys) \<le> 2 ^ 64"
  defines "p \<equiv> haddr base (off + span xs)" and "q \<equiv> haddr base (off + span xs + 48 + s)"
    and "r \<equiv> haddr base (off + span xs + 48 + s + 48 + t)"
  defines "m1 \<equiv> m(p := (m p)\<lparr>bsize := of_nat (s + 48 + t), bnext := bnext (m q)\<rparr>)"
  shows "seg (if ys = [] then m1 else m1(r := (m1 r)\<lparr>bprev := p\<rparr>)) base pv off (xs @ (s + 48 + t, f) # ys) nx"
proof -
  let ?m = "if ys = [] then m1 else m1(r := (m1 r)\<lparr>bprev := p\<rparr>)"
  have p: "m p = \<lparr>magic = BLOCK_MAGIC, bsize = of_nat s, is_free = f, bnext = q, bprev = seg_last base pv off xs\<rparr>"
    using seg_hd [OF assms(1)] by (simp add: p_def q_def)
  have q: "bnext (m q) = (if ys = [] then nx else r)"
    using seg_hd [of m base pv off "xs @ [(s, f)]" t g ys nx] assms(1)
    by (simp add: q_def r_def add.assoc)
  have ys: "seg m base q (off + span xs + 48 + s + 48 + t) ys nx"
    using seg_tl [of m base pv off "xs @ [(s, f)]" t g ys nx] assms(1)
    by (simp add: q_def add.assoc)
  have bound: "off + span xs + 48 + s + 48 + t + span ys \<le> 2 ^ 64"
    using assms(2) by simp
  have "seg m1 base q (off + span xs + 48 + s + 48 + t) ys nx"
    unfolding m1_def p_def using ys bound by (subst seg_frame) auto
  then have ys': "seg ?m base p (off + span xs + 48 + s + 48 + t) ys nx"
    unfolding r_def using bound by (rule seg_relink)
  have xs': "seg ?m base pv off xs p \<longleftrightarrow> seg m base pv off xs p"
    using bound span_pos [of ys] by (auto simp: m1_def p_def r_def seg_frame)
  have rp: "ys \<noteq> [] \<Longrightarrow> r \<noteq> p"
    using bound span_pos [of ys] by (simp add: r_def p_def haddr_eq_iff)
  have "seg ?m base (seg_last base pv off xs) (off + span xs) [(s + 48 + t, f)] (if ys = [] then nx else r)"
    using p q rp by (auto simp: m1_def simp flip: p_def)
  moreover have "seg m base pv off xs p" using assms(1) by (simp add: seg_append p_def)
  ultimately show ?thesis
    using xs' ys' by (simp add: seg_append p_def r_def add.assoc)
qed

lemma seg_split:
  fixes g :: bool
  assumes "seg m base pv off (xs @ (s, f) # ys) nx"
    and "off + span (xs @ (s, f) # ys) \<le> 2 ^ 64" "n + 48 \<le> s"
  defines "p \<equiv> haddr base (off + span xs)" and "q \<equiv> haddr base (off + span xs + 48 + n)"
    and "r \<equiv> haddr base (off + span xs + 48 + s)"
  defines "m1 \<equiv> m(q := \<lparr>magic = BLOCK_MAGIC, bsize = of_nat (s - n - 48), is_free = g,
                         bnext = bnext (m p), bprev = p\<rparr>)"
  defines "m2 \<equiv> (if ys = [] then m1 else m1(r := (m1 r)\<lparr>bprev := q\<rparr>))"
  shows "seg (m2(p := (m2 p)\<lparr>bsize := of_nat n, bnext := q\<rparr>)) base pv off
           (xs @ (n, f) # (s - n - 48, g) # ys) nx"
proof -
  let ?m = "m2(p := (m2 p)\<lparr>bsize := of_nat n, bnext := q\<rparr>)"
  have p: "m p = \<lparr>magic = BLOCK_MAGIC, bsize = of_nat s, is_free = f,
      bnext = (if ys = [] then nx else r), bprev = seg_last base pv off xs\<rparr>"
    using seg_hd [OF assms(1)] by (simp add: p_def r_def)
  have ys: "seg m base p (off + span xs + 48 + s) ys nx"
    using seg_tl [OF assms(1)] by (simp add: p_def)
  have bound: "off + span xs + 48 + s + span ys \<le> 2 ^ 64" using assms(2) by simp
  have "seg m1 base p (off + span xs + 48 + s) ys nx"
    unfolding m1_def q_def using ys bound assms(3) by (subst seg_frame) auto
  then have "seg m2 base q (off + span xs + 48 + s) ys nx"
    unfolding m2_def r_def using bound by (rule seg_relink)
  then have ys': "seg ?m base q (off + span xs + 48 + s) ys nx"
    unfolding p_def using bound by (subst seg_frame) auto
  have xs': "seg ?m base pv off xs p \<longleftrightarrow> seg m base pv off xs p"
    using bound assms(3) span_pos [of ys] by (auto simp: m2_def m1_def p_def r_def q_def seg_frame)
  have pq: "p \<noteq> q" "q \<noteq> p"
    using bound assms(3) by (simp_all add: q_def p_def haddr_eq_iff)
  have "ys \<noteq> [] \<Longrightarrow> r \<noteq> p \<and> r \<noteq> q"
    using bound span_pos [of ys] assms(3) by (simp add: r_def p_def q_def haddr_eq_iff)
  then have pq': "m2 p = m p" "m2 q = m1 q" using pq by (auto simp: m2_def m1_def)
  have ms: "seg ?m base (seg_last base pv off xs) (off + span xs) [(n, f), (s - n - 48, g)]
      (if ys = [] then nx else r)"
    using p pq pq' by (auto simp: m1_def simp flip: p_def q_def)
  have sp: "off + span xs + span [(n, f), (s - n - 48, g)] = off + span xs + 48 + s"
    using assms(3) by simp
  have "seg ?m base pv off (xs @ [(n, f), (s - n - 48, g)] @ ys) nx"
  proof (rule seg_join)
    show "seg ?m base pv off xs (haddr base (off + span xs))"
      using xs' assms(1) unfolding p_def seg_append by simp
  qed (use ms ys' in \<open>simp_all only: sp r_def seg_last.simps q_def, simp_all\<close>)
  then show ?thesis by simp
qed

lemma seg_mark:
  assumes "seg m base pv off (xs @ (s, f) # ys) nx"
    and "off + span (xs @ (s, f) # ys) \<le> 2 ^ 64"
  defines "p \<equiv> haddr base (off + span xs)"
  shows "seg (m(p := (m p)\<lparr>is_free := g\<rparr>)) base pv off (xs @ (s, g) # ys) nx"
  using assms(1,2) unfolding p_def by (auto simp: seg_append seg_frame)

section \<open>The header updates of the code\<close>

lemma hdr_upd_hdr [simp]: "hdr (upd_hdr a f h) = (hdr h)(a := f (hdr h a))"
  by (simp add: upd_hdr_def)

lemma upd_hdr_HEAD [simp]: "HEAP_HEAD (upd_hdr a f h) = HEAP_HEAD h"
  by (simp add: upd_hdr_def)

lemma heap_serial_write_sel [simp]:
  "hdr (heap_serial_write s h) = hdr h" "HEAP_HEAD (heap_serial_write s h) = HEAP_HEAD h"
  by (simp_all add: heap_serial_write_def)

lemma kmalloc_take_HEAD [simp]: "HEAP_HEAD (kmalloc_take a n h) = HEAP_HEAD h"
  by (simp add: kmalloc_take_def Let_def)

lemma coalesce_HEAD [simp]:
  "HEAP_HEAD (coalesce_next a h) = HEAP_HEAD h" "HEAP_HEAD (coalesce_prev a h) = HEAP_HEAD h"
  by (simp_all add: coalesce_next_def coalesce_prev_def Let_def)

lemma rust_kfree_HEAD [simp]: "HEAP_HEAD (rust_kfree p h) = HEAP_HEAD h"
  by (simp add: rust_kfree_def Let_def)

lemma kmalloc_take_seg:
  assumes "heap_placed base" "span (xs @ (s, True) # ys) \<le> 4194304"
    and sg: "seg (hdr h) base 0 0 (xs @ (s, True) # ys) 0" and "unat n \<le> s"
  shows "seg (hdr (kmalloc_take (haddr base (span xs)) n h)) base 0 0
           (xs @ split_block (unat n) s @ ys) 0"
proof -
  let ?p = "haddr base (span xs)"
  let ?q = "haddr base (span xs + 48 + unat n)"
  let ?r = "haddr base (span xs + 48 + s)"
  have p: "hdr h ?p = \<lparr>magic = BLOCK_MAGIC, bsize = of_nat s, is_free = True,
      bnext = (if ys = [] then 0 else ?r), bprev = seg_last base 0 0 xs\<rparr>"
    using seg_hd [OF sg] by simp
  have bound: "0 + span (xs @ (s, True) # ys) \<le> 2 ^ 64" using assms(2) by simp
  have r: "?r \<noteq> 0" using assms(1,2) by (intro haddr_nonnull) auto
  show ?thesis
  proof (cases "unat n + 48 < s")
    case True
    have c: "n + size_of_Block < of_nat s"
      using True assms(2) by (simp add: word_less_nat_alt unat_word_ariths unat_of_nat_u64)
    have sz: "of_nat s - n - size_of_Block = of_nat (s - unat n - 48)"
      using True by (simp add: size_of_Block_def)
    have q: "?p + size_of_Block + n = ?q" by (simp add: haddr_add)
    have ne: "?p \<noteq> ?q" "?q \<noteq> ?p" "?r \<noteq> ?p" "?r \<noteq> ?q"
      using True assms(2) by (simp_all add: haddr_eq_iff)
    have "seg (hdr (kmalloc_take ?p n h)) base 0 0
            (xs @ (unat n, False) # (s - unat n - 48, True) # ys) 0"
      using seg_mark [OF seg_split [OF sg bound, of "unat n" True], of False] True bound p c q r ne
      by (cases "ys = []") (simp_all add: kmalloc_take_def Let_def sz del: of_nat_diff)
    then show ?thesis using True by (simp add: split_block_def)
  next
    case False
    have "\<not> n + size_of_Block < of_nat s"
      using False assms(2,4) by (simp add: word_less_nat_alt unat_word_ariths unat_of_nat_u64)
    then show ?thesis
      using seg_mark [OF sg bound, of False] False p
      by (simp add: kmalloc_take_def split_block_def)
  qed
qed

lemma coalesce_next_seg:
  assumes "heap_placed base" "span (xs @ (s, True) # ys) \<le> 4194304"
    and sg: "seg (hdr h) base 0 0 (xs @ (s, True) # ys) 0"
  shows "seg (hdr (coalesce_next (haddr base (span xs)) h)) base 0 0
           (xs @ coalesce ((s, True) # ys)) 0"
proof -
  let ?p = "haddr base (span xs)"
  have p: "hdr h ?p = \<lparr>magic = BLOCK_MAGIC, bsize = of_nat s, is_free = True,
      bnext = (if ys = [] then 0 else haddr base (span xs + 48 + s)), bprev = seg_last base 0 0 xs\<rparr>"
    using seg_hd [OF sg] by simp
  show ?thesis
  proof (cases ys rule: span.cases)
    case 1
    with p sg show ?thesis by (simp add: coalesce_next_def)
  next
    case (2 t g zs)
    let ?q = "haddr base (span xs + 48 + s)"
    let ?r = "haddr base (span xs + 48 + s + 48 + t)"
    have q: "hdr h ?q = \<lparr>magic = BLOCK_MAGIC, bsize = of_nat t, is_free = g,
        bnext = (if zs = [] then 0 else ?r), bprev = ?p\<rparr>"
      using seg_hd [of "hdr h" base 0 0 "xs @ [(s, True)]" t g zs 0] sg 2 by (simp add: add.assoc)
    have nz: "?q \<noteq> 0" "?r \<noteq> 0" "?r \<noteq> ?p"
      using assms(1,2) 2 by (simp_all add: haddr_nonnull haddr_eq_iff)
    show ?thesis
    proof (cases g)
      case True
      show ?thesis
        using seg_merge [of "hdr h" base 0 0 xs s True t g zs 0] sg assms(2) 2 True p q nz
        by (cases "zs = []") (simp_all add: coalesce_next_def size_of_Block_def add.assoc)
    next
      case False
      with 2 p q nz sg show ?thesis by (simp add: coalesce_next_def)
    qed
  qed
qed

lemma coalesce_prev_seg:
  assumes "heap_placed base" "span (xs @ (s, f) # ys) \<le> 4194304"
    and sg: "seg (hdr h) base 0 0 (xs @ (s, f) # ys) 0"
  shows "xs = [] \<Longrightarrow> seg (hdr (coalesce_prev (haddr base (span xs)) h)) base 0 0 (xs @ (s, f) # ys) 0"
    and "xs = zs @ [(r, False)] \<Longrightarrow>
      seg (hdr (coalesce_prev (haddr base (span xs)) h)) base 0 0 (xs @ (s, f) # ys) 0"
    and "xs = zs @ [(r, True)] \<Longrightarrow>
      seg (hdr (coalesce_prev (haddr base (span xs)) h)) base 0 0 (zs @ (r + 48 + s, True) # ys) 0"
proof -
  let ?p = "haddr base (span xs)"
  have p: "hdr h ?p = \<lparr>magic = BLOCK_MAGIC, bsize = of_nat s, is_free = f,
      bnext = (if ys = [] then 0 else haddr base (span xs + 48 + s)), bprev = seg_last base 0 0 xs\<rparr>"
    using seg_hd [OF sg] by simp
  show "xs = [] \<Longrightarrow> seg (hdr (coalesce_prev ?p h)) base 0 0 (xs @ (s, f) # ys) 0"
    using p sg by (simp add: coalesce_prev_def)
  have z: "hdr h (haddr base (span zs)) = \<lparr>magic = BLOCK_MAGIC, bsize = of_nat r, is_free = g,
      bnext = ?p, bprev = seg_last base 0 0 zs\<rparr>" if "xs = zs @ [(r, g)]" for g
    using seg_hd [of "hdr h" base 0 0 zs r g "(s, f) # ys" 0] sg that by (simp add: add.assoc)
  show "xs = zs @ [(r, False)] \<Longrightarrow> seg (hdr (coalesce_prev ?p h)) base 0 0 (xs @ (s, f) # ys) 0"
    using p sg z [of False] by (simp add: coalesce_prev_def)
  assume xs: "xs = zs @ [(r, True)]"
  have nz: "haddr base (span zs) \<noteq> 0" "haddr base (span xs + 48 + s) \<noteq> 0"
    "haddr base (span xs + 48 + s) \<noteq> haddr base (span zs)"
    using assms(1,2) xs by (simp_all add: haddr_nonnull haddr_eq_iff)
  have "seg (hdr h) base 0 0 (zs @ (r, True) # (s, f) # ys) 0"
    "0 + span (zs @ (r, True) # (s, f) # ys) \<le> 2 ^ 64"
    using sg assms(2) xs by simp_all
  from seg_merge [OF this]
  show "seg (hdr (coalesce_prev ?p h)) base 0 0 (zs @ (r + 48 + s, True) # ys) 0"
    using p z [OF xs] nz xs
    by (cases "ys = []") (simp_all add: coalesce_prev_def size_of_Block_def add.assoc)
qed

section \<open>The abstract operations\<close>

lemma span_split_block [simp]: "n \<le> s \<Longrightarrow> span (split_block n s) = 48 + s"
  by (simp add: split_block_def)

lemma span_coalesce [simp]: "span (coalesce bs) = span bs"
  by (induction bs rule: coalesce.induct) auto

lemma no_adjacent_free_Cons:
  "no_adjacent_free (b # bs) \<longleftrightarrow> no_adjacent_free bs \<and> (bs \<noteq> [] \<longrightarrow> \<not> (snd b \<and> snd (hd bs)))"
  by (cases b; cases bs) auto

lemma no_adjacent_free_append:
  "no_adjacent_free (xs @ ys) \<longleftrightarrow>
     no_adjacent_free xs \<and> no_adjacent_free ys \<and>
     (xs \<noteq> [] \<and> ys \<noteq> [] \<longrightarrow> \<not> (snd (last xs) \<and> snd (hd ys)))"
  by (induction xs) (auto simp: no_adjacent_free_Cons)

lemma coalesce_free_hd:
  assumes "no_adjacent_free ys"
  obtains t zs where "coalesce ((s, True) # ys) = (t, True) # zs" "no_adjacent_free ((t, True) # zs)"
    "set zs \<subseteq> set ys" "t = s \<or> (\<exists>u. (u, True) \<in> set ys \<and> t = s + 48 + u)"
proof (cases ys rule: span.cases)
  case 1
  then show thesis by (intro that [of s "[]"]) simp_all
next
  case (2 u f zs)
  show thesis
  proof (cases f)
    case True
    with 2 assms show thesis
      by (intro that [of "s + 48 + u" zs]) (auto simp: no_adjacent_free_Cons)
  next
    case False
    with 2 assms show thesis
      by (intro that [of s ys]) (auto simp: no_adjacent_free_Cons)
  qed
qed

lemma span_eq_0 [simp]: "span xs = 0 \<longleftrightarrow> xs = []"
  by (cases xs rule: span.cases) auto

lemma release_at:
  "release (span xs + 48) (xs @ (s, f) # ys) =
     (if xs \<noteq> [] \<and> snd (last xs)
      then butlast xs @ coalesce (last xs # coalesce ((s, True) # ys))
      else xs @ coalesce ((s, True) # ys))"
proof (induction xs rule: span.induct)
  case (2 r g xs)
  have "48 + r + span xs + 48 - (48 + r) = span xs + 48" by simp
  then show ?case using "2.IH" by (cases "xs = []") (auto simp: add.commute [of 48])
qed simp

text \<open>The payloads in use lie inside the blocks, headers apart.\<close>

lemma allocs_append: "allocs off (xs @ ys) = allocs off xs @ allocs (off + span xs) ys"
  by (induction xs arbitrary: off rule: span.induct) (auto simp: add.assoc)

lemma allocs_coalesce [simp]: "allocs off (coalesce bs) = allocs off bs"
  by (induction bs rule: coalesce.induct) (auto simp: add.assoc)

lemma allocs_bound: "(p, s) \<in> set (allocs off bs) \<Longrightarrow> off + 48 \<le> p \<and> p + s \<le> off + span bs"
  by (induction off bs rule: allocs.induct) (auto split: if_splits)

lemma allocs_disjoint:
  "(p, s) \<in> set (allocs off bs) \<Longrightarrow> (q, t) \<in> set (allocs off bs) \<Longrightarrow> (p, s) \<noteq> (q, t) \<Longrightarrow>
   p + s + 48 \<le> q \<or> q + t + 48 \<le> p"
proof (induction off bs rule: allocs.induct)
  case (2 off u f bs)
  with allocs_bound [of p s "off + 48 + u" bs] allocs_bound [of q t "off + 48 + u" bs]
  show ?case by (auto split: if_splits)
qed simp

lemma allocs_split:
  assumes "(p, s) \<in> set (allocs off bs)"
  obtains xs ys where "bs = xs @ (s, False) # ys" "p = off + span xs + 48"
  using assms
proof (induction off bs arbitrary: thesis rule: allocs.induct)
  case (2 off u f bs)
  show ?case
  proof (cases "(p, s) \<in> set (allocs (off + 48 + u) bs)")
    case True
    then obtain xs ys where "bs = xs @ (s, False) # ys" "p = off + 48 + u + span xs + 48"
      using "2.IH" by blast
    then show ?thesis by (intro "2.prems"(1) [of "(u, f) # xs" ys]) simp_all
  next
    case False
    with "2.prems"(2) have "\<not> f" "p = off + 48" "s = u" by (auto split: if_splits)
    then show ?thesis by (intro "2.prems"(1) [of "[]" bs]) simp_all
  qed
qed simp

lemma allocs_take:
  "n \<le> s \<Longrightarrow> set (allocs off (xs @ split_block n s @ ys)) =
     insert (off + span xs + 48, if n + 48 < s then n else s) (set (allocs off (xs @ (s, True) # ys)))"
  by (auto simp: allocs_append split_block_def add.assoc)

lemma allocs_release:
  assumes "bs = xs @ (s, False) # ys" "p = off + span xs + 48"
  shows "allocs off (release (span xs + 48) bs) = allocs off xs @ allocs (off + span xs + 48 + s) ys"
proof (cases xs rule: rev_cases)
  case (snoc zs b)
  obtain r g where "b = (r, g)" by (cases b)
  with snoc show ?thesis
    unfolding assms(1) release_at by (cases g) (auto simp: allocs_append add.assoc)
qed (use assms in \<open>simp add: allocs_append\<close>)

lemma set_allocs_release:
  assumes "(p, s) \<in> set (allocs 0 bs)"
  shows "set (allocs 0 (release p bs)) = set (allocs 0 bs) - {(p, s)}"
proof -
  obtain xs ys where bs: "bs = xs @ (s, False) # ys" and p: "p = 0 + span xs + 48"
    using assms by (rule allocs_split)
  have "(p, s) \<notin> set (allocs 0 xs)" "(p, s) \<notin> set (allocs (span xs + 48 + s) ys)"
    using p by (auto dest!: allocs_bound)
  with allocs_release [OF bs p] bs p show ?thesis
    by (auto simp: allocs_append)
qed

text \<open>The block list of a heap is determined by the headers.\<close>

lemma seg_unique:
  assumes "heap_placed base"
  shows "seg m base pv off bs 0 \<Longrightarrow> seg m base pv off bs' 0 \<Longrightarrow> off + span bs \<le> 4194304 \<Longrightarrow>
    off + span bs' \<le> 4194304 \<Longrightarrow> (bs = [] \<longleftrightarrow> bs' = []) \<Longrightarrow> bs = bs'"
proof (induction bs arbitrary: pv off bs' rule: span.induct)
  case (2 s f bs)
  then obtain t g cs where bs': "bs' = (t, g) # cs" by (cases bs' rule: span.cases) auto
  have eq: "(of_nat s :: usize) = of_nat t" "f = g"
    "(if bs = [] then 0 else haddr base (off + 48 + s)) = (if cs = [] then 0 else haddr base (off + 48 + t))"
    using "2.prems" bs' by simp_all
  have "s = t" using eq(1) "2.prems"(3,4) bs' by (simp add: word_of_nat_eq_iff take_bit_nat_eq_self)
  moreover have "bs = [] \<longleftrightarrow> cs = []"
    using eq(3) haddr_nonnull [OF assms, of "off + 48 + s"] haddr_nonnull [OF assms, of "off + 48 + t"]
      "2.prems"(3,4) bs' by (simp split: if_splits)
  moreover have "seg m base (haddr base off) (off + 48 + s) bs 0"
    "seg m base (haddr base off) (off + 48 + t) cs 0" "off + 48 + s + span bs \<le> 4194304"
    "off + 48 + t + span cs \<le> 4194304"
    using "2.prems" bs' by simp_all
  ultimately have "bs = cs" by (metis "2.IH")
  with \<open>s = t\<close> eq(2) bs' show ?case by simp
qed simp

lemma heap_rel_unique: "heap_rel base h bs \<Longrightarrow> heap_rel base h bs' \<Longrightarrow> bs = bs'"
  by (auto simp: heap_rel_def ablocks_ok_def intro: seg_unique)

lemma ablocks_ok_take:
  assumes "ablocks_ok (xs @ (s, True) # ys)" "16 dvd n" "n \<le> s"
  shows "ablocks_ok (xs @ split_block n s @ ys)"
  using assms by (auto simp: ablocks_ok_def no_adjacent_free_append no_adjacent_free_Cons split_block_def)

lemma ablocks_ok_release:
  assumes "ablocks_ok (xs @ (s, False) # ys)"
  shows "ablocks_ok (release (span xs + 48) (xs @ (s, False) # ys))"
proof -
  have "no_adjacent_free ys" using assms
    by (simp add: ablocks_ok_def no_adjacent_free_append no_adjacent_free_Cons)
  then obtain t zs where c: "coalesce ((s, True) # ys) = (t, True) # zs"
    "no_adjacent_free ((t, True) # zs)" "set zs \<subseteq> set ys"
    "t = s \<or> (\<exists>u. (u, True) \<in> set ys \<and> t = s + 48 + u)"
    by (rule coalesce_free_hd)
  have sp: "48 + t + span zs = 48 + s + span ys"
    using arg_cong [OF c(1), of span] by simp
  have "\<And>u f. (u, f) \<in> set ys \<Longrightarrow> 16 dvd u" "16 dvd s" using assms by (auto simp: ablocks_ok_def)
  then have t: "16 dvd t" using c(4) by (auto intro!: dvd_add)
  show ?thesis
  proof (cases xs rule: rev_cases)
    case Nil
    with assms c sp t show ?thesis
      unfolding release_at by (auto simp: ablocks_ok_def)
  next
    case (snoc ws b)
    obtain r g where b: "b = (r, g)" by (cases b)
    show ?thesis
      using assms c sp t snoc b unfolding release_at
      by (cases g) (auto simp: ablocks_ok_def no_adjacent_free_append no_adjacent_free_Cons intro!: dvd_add)
  qed
qed

section \<open>The boot message\<close>

lemma hex_loop_hex_digits:
  assumes "unat v < 16 ^ k" "k \<le> 16"
  shows "hex_loop (replicate k 0 @ ws) (of_nat k - 1) v =
    Some (replicate (k - length (hex_digits (unat v))) 0 @ hex_digits (unat v) @ ws,
          of_nat (k - length (hex_digits (unat v))) - 1)"
  using assms
proof (induction k arbitrary: v ws)
  case 0
  then show ?case by (simp add: hex_loop.simps [of _ _ 0] unat_eq_0)
next
  case (Suc k)
  show ?case
  proof (cases "v = 0")
    case True
    then show ?thesis by (simp add: hex_loop.simps [of _ _ 0])
  next
    case False
    have d: "ucast (v mod 16) = (of_nat (unat v mod 16) :: u8)"
      using of_nat_unat [of "v mod 16", where ?'a = u8] by (simp add: unat_mod)
    have k: "unat (of_nat (Suc k) - 1 :: usize) = k"
      using Suc.prems by (simp add: unat_of_nat_u64)
    have "unat (v div 16) < 16 ^ k"
      using Suc.prems by (simp add: unat_div less_mult_imp_div_less mult.commute)
    from Suc.IH [OF this] Suc.prems
    have "hex_loop (replicate k 0 @ hex_digit_lower (ucast (v mod 16)) # ws) (of_nat k - 1) (v div 16) =
      Some (replicate (k - length (hex_digits (unat v div 16))) 0 @ hex_digits (unat v div 16) @
          hex_digit_lower (ucast (v mod 16)) # ws,
        of_nat (k - length (hex_digits (unat v div 16))) - 1)"
      by (simp add: unat_div)
    then show ?thesis
      using False k by (simp add: hex_loop.simps [of _ _ v] arr_set_replicate hex_digits.simps [of "unat v"] d unat_eq_0
          del: replicate_Suc)
  qed
qed

lemma heap_write_hex_text:
  "heap_write_hex val = Some (if val = 0 then bytes ''0'' else hex_digits (unat val))"
proof (cases "val = 0")
  case True
  then show ?thesis by (simp add: heap_write_hex_def)
next
  case False
  have "unat val < 16 ^ 16" using unsigned_less [of val] by simp
  then have len: "length (hex_digits (unat val)) \<le> 16" by (rule length_hex_digits)
  have "replicate 17 (0::u8) = replicate 16 0 @ [0]"
    by (simp add: numeral_eq_Suc)
  then have "hex_loop (replicate 17 0) 15 val =
    Some (replicate (16 - length (hex_digits (unat val))) 0 @ hex_digits (unat val) @ [0],
          of_nat (16 - length (hex_digits (unat val))) - 1)"
    using hex_loop_hex_digits [of val 16 "[0]"] \<open>unat val < 16 ^ 16\<close> by simp
  moreover have "unat (of_nat (16 - length (hex_digits (unat val))) - 1 + 1 :: usize) =
      16 - length (hex_digits (unat val))"
    by (simp add: unat_of_nat_u64 del: of_nat_diff)
  ultimately show ?thesis
    using False len by (simp add: heap_write_hex_def takeWhile_append hex_digits_nonzero del: of_nat_diff)
qed

section \<open>Refinement\<close>

lemma heap_rel_bound: "heap_rel base h bs \<Longrightarrow> span bs = 4194304"
  by (simp add: heap_rel_def ablocks_ok_def)

lemma init_heap_rel:
  assumes "heap_placed base"
  obtains h' where "init_heap base h = Some h'" "heap_rel base h' [(4194256, True)]"
  using assms that
  by (fastforce simp: init_heap_def heap_write_hex_text Let_def heap_rel_def ablocks_ok_def
      size_of_Block_def HEAP_SIZE_def)

lemma rust_kmalloc_miss:
  assumes "heap_rel base h bs" "n \<noteq> 0" "\<forall>(s, f) \<in> set bs. \<not> (f \<and> unat (align_up n) \<le> s)"
  shows "rust_kmalloc n h = Some (0, heap_serial_write (bytes ''[HEAP-ERROR] Out of memory!'' @ [ch_newline]) h)"
  using kmalloc_loop_walk [of base 0 bs h 0 0 "align_up n"] assms
  by (simp add: rust_kmalloc_def heap_rel_def ablocks_ok_def kmalloc_loop_null)

lemma rust_kmalloc_hit:
  assumes "heap_rel base h (xs @ (s, True) # ys)" "n \<noteq> 0" "unat (align_up n) \<le> s"
    and "\<forall>(s', f) \<in> set xs. \<not> (f \<and> unat (align_up n) \<le> s')"
  obtains h' where "rust_kmalloc n h = Some (haddr base (span xs + 48), h')"
    "heap_rel base h' (xs @ split_block (unat (align_up n)) s @ ys)"
proof -
  let ?p = "haddr base (span xs)"
  have r: "heap_placed base" "HEAP_HEAD h = base" "ablocks_ok (xs @ (s, True) # ys)"
    "span (xs @ (s, True) # ys) \<le> 4194304" and sg: "seg (hdr h) base 0 0 (xs @ (s, True) # ys) 0"
    using assms(1) by (auto simp: heap_rel_def ablocks_ok_def)
  have hd: "hdr h ?p = \<lparr>magic = BLOCK_MAGIC, bsize = of_nat s, is_free = True,
      bnext = (if ys = [] then 0 else haddr base (span xs + 48 + s)), bprev = seg_last base 0 0 xs\<rparr>"
    using seg_hd [OF sg] by simp
  have "seg (hdr h) base 0 0 xs ?p" using sg by (simp add: seg_append)
  then have "rust_kmalloc n h = kmalloc_loop (align_up n) ?p h"
    using kmalloc_loop_walk [of base 0 xs h 0 ?p "align_up n"] r assms(2,4)
    by (cases "xs = []") (simp_all add: rust_kmalloc_def)
  also have "\<dots> = Some (haddr base (span xs + 48), kmalloc_take ?p (align_up n) h)"
    using r hd assms(3) by (simp add: kmalloc_loop_take haddr_nonnull word_le_nat_alt unat_of_nat_u64 haddr_add)
  finally have "rust_kmalloc n h = Some (haddr base (span xs + 48), kmalloc_take ?p (align_up n) h)" .
  moreover have "heap_rel base (kmalloc_take ?p (align_up n) h) (xs @ split_block (unat (align_up n)) s @ ys)"
    using kmalloc_take_seg [OF r(1,4) sg assms(3)] ablocks_ok_take [OF r(3) align_up_dvd assms(3)] r
    by (simp add: heap_rel_def)
  ultimately show thesis by (rule that)
qed

lemma rust_kfree_release:
  assumes "heap_rel base h bs" "(p, s) \<in> set (allocs 0 bs)"
  shows "heap_rel base (rust_kfree (haddr base p) h) (release p bs)"
proof -
  obtain xs ys where bs: "bs = xs @ (s, False) # ys" and p: "p = 0 + span xs + 48"
    using assms(2) by (rule allocs_split)
  let ?p = "haddr base (span xs)"
  have r: "heap_placed base" "HEAP_HEAD h = base" "ablocks_ok (xs @ (s, False) # ys)"
    "span (xs @ (s, False) # ys) \<le> 4194304" and sg: "seg (hdr h) base 0 0 (xs @ (s, False) # ys) 0"
    using assms(1) bs by (auto simp: heap_rel_def ablocks_ok_def)
  have hd: "hdr h ?p = \<lparr>magic = BLOCK_MAGIC, bsize = of_nat s, is_free = False,
      bnext = (if ys = [] then 0 else haddr base (span xs + 48 + s)), bprev = seg_last base 0 0 xs\<rparr>"
    using seg_hd [OF sg] by simp
  let ?h1 = "upd_hdr ?p (\<lambda>b. b\<lparr>is_free := True\<rparr>) h"
  let ?h2 = "coalesce_next ?p ?h1"
  have "haddr base p \<noteq> 0" using r p by (simp add: haddr_nonnull)
  moreover have "haddr base p - size_of_Block = ?p"
    using haddr_add [of base "span xs" size_of_Block] p by (simp add: algebra_simps)
  ultimately have free: "rust_kfree (haddr base p) h = coalesce_prev ?p ?h2"
    using hd by (simp add: rust_kfree_def Let_def)
  have "seg (hdr ?h1) base 0 0 (xs @ (s, True) # ys) 0"
    using seg_mark [OF sg, of True] r(4) by simp
  then have h2: "seg (hdr ?h2) base 0 0 (xs @ coalesce ((s, True) # ys)) 0"
    using r by (intro coalesce_next_seg) auto
  have "no_adjacent_free ys" using r(3)
    by (simp add: ablocks_ok_def no_adjacent_free_append no_adjacent_free_Cons)
  then obtain t zs where c: "coalesce ((s, True) # ys) = (t, True) # zs" by (rule coalesce_free_hd)
  have bound: "span (xs @ (t, True) # zs) \<le> 4194304"
    using r(4) arg_cong [OF c, of span] by simp
  note cp = coalesce_prev_seg [OF r(1) bound h2 [unfolded c]]
  have "seg (hdr (coalesce_prev ?p ?h2)) base 0 0 (release p bs) 0"
    unfolding bs p add_0 release_at
  proof (cases xs rule: rev_cases)
    case Nil
    with cp(1) c show "seg (hdr (coalesce_prev ?p ?h2)) base 0 0 (if xs \<noteq> [] \<and> snd (last xs)
        then butlast xs @ coalesce (last xs # coalesce ((s, True) # ys))
        else xs @ coalesce ((s, True) # ys)) 0" by simp
  next
    case (snoc ws b)
    obtain r g where "b = (r, g)" by (cases b)
    with snoc cp(2,3) [of ws r] c show "seg (hdr (coalesce_prev ?p ?h2)) base 0 0 (if xs \<noteq> [] \<and> snd (last xs)
        then butlast xs @ coalesce (last xs # coalesce ((s, True) # ys))
        else xs @ coalesce ((s, True) # ys)) 0" by (cases g) simp_all
  qed
  moreover have "ablocks_ok (release p bs)"
    using ablocks_ok_release [OF r(3)] bs p by simp
  ultimately show ?thesis using r free by (simp add: heap_rel_def)
qed

section \<open>Blocks in use and the allocator interface\<close>

text \<open>The blocks in use, as address and size.\<close>

definition heap_live :: "usize \<Rightarrow> heap \<Rightarrow> (usize \<times> nat) set" where
  "heap_live base h = {(haddr base p, s) | p s bs. heap_rel base h bs \<and> (p, s) \<in> set (allocs 0 bs)}"

lemma heap_live_eq:
  assumes "heap_rel base h bs"
  shows "heap_live base h = (\<lambda>(p, s). (haddr base p, s)) ` set (allocs 0 bs)"
proof -
  have "heap_rel base h bs' \<longleftrightarrow> bs' = bs" for bs'
    using heap_rel_unique [OF assms] assms by blast
  then show ?thesis by (auto simp: heap_live_def)
qed

lemma heap_liveE:
  assumes "(a, s) \<in> heap_live base h"
  obtains p bs where "heap_rel base h bs" "(p, s) \<in> set (allocs 0 bs)" "a = haddr base p"
  using assms by (auto simp: heap_live_def)

text \<open>Payload offsets below the end of the heap have distinct addresses.\<close>

lemma alloc_offset:
  assumes "heap_rel base h bs" "(p, s) \<in> set (allocs 0 bs)"
  shows "unat (haddr base p) = unat base + p" "48 \<le> p" "p + s \<le> 4194304" "haddr base p \<noteq> 0"
proof -
  have placed: "heap_placed base" using assms(1) by (simp add: heap_rel_def)
  show b: "48 \<le> p" "p + s \<le> 4194304"
    using allocs_bound [OF assms(2)] heap_rel_bound [OF assms(1)] by simp_all
  then have "p \<le> 4194304" by linarith
  with placed show "unat (haddr base p) = unat base + p" "haddr base p \<noteq> 0"
    by (simp_all add: unat_haddr haddr_nonnull)
qed

lemma alloc_inj:
  assumes "heap_rel base h bs"
  shows "inj_on (\<lambda>(p, s). (haddr base p, s)) (set (allocs 0 bs))"
proof (rule inj_onI)
  fix x y
  assume xy: "x \<in> set (allocs 0 bs)" "y \<in> set (allocs 0 bs)"
    "(case x of (p, s) \<Rightarrow> (haddr base p, s)) = (case y of (p, s) \<Rightarrow> (haddr base p, s))"
  obtain p s q t where pq: "x = (p, s)" "y = (q, t)" by fastforce
  with xy have "haddr base p = haddr base q" "s = t" by simp_all
  moreover have "unat (haddr base p) = unat base + p" "unat (haddr base q) = unat base + q"
    using alloc_offset(1) [OF assms] xy(1,2) pq by blast+
  ultimately have "p = q" by (metis add_left_cancel)
  with pq \<open>s = t\<close> show "x = y" by blast
qed

lemma heap_live_disjoint:
  assumes "(a, s) \<in> heap_live base h" "(b, t) \<in> heap_live base h" "(a, s) \<noteq> (b, t)"
  shows "unat a + s + 48 \<le> unat b \<or> unat b + t + 48 \<le> unat a"
proof -
  obtain p bs where p: "heap_rel base h bs" "(p, s) \<in> set (allocs 0 bs)" "a = haddr base p"
    using assms(1) by (rule heap_liveE)
  obtain q bs' where q: "heap_rel base h bs'" "(q, t) \<in> set (allocs 0 bs')" "b = haddr base q"
    using assms(2) by (rule heap_liveE)
  have "bs' = bs" using p q heap_rel_unique by blast
  with p q assms(3) show ?thesis
    using allocs_disjoint [of p s 0 bs q t] alloc_offset(1) [OF p(1,2)] alloc_offset(1) [OF q(1,2)]
    by auto
qed

lemma kmalloc_cases:
  assumes "heap_rel base h bs" "rust_kmalloc n h = Some (a, h')"
  obtains (null) "a = 0" "heap_rel base h' bs"
  | (block) xs s ys where "bs = xs @ (s, True) # ys" "unat (align_up n) \<le> s" "n \<noteq> 0"
      "a = haddr base (span xs + 48)" "heap_rel base h' (xs @ split_block (unat (align_up n)) s @ ys)"
proof (cases "n = 0")
  case True
  with assms null show thesis by (simp add: rust_kmalloc_def)
next
  case False
  show thesis
  proof (cases rule: first_fit_cases [of bs "unat (align_up n)"])
    case miss
    with rust_kmalloc_miss [OF assms(1) False] assms null show thesis
      by (auto simp: heap_rel_def)
  next
    case (hit xs s ys)
    with rust_kmalloc_hit [of base h xs s ys n] False assms block [of xs s ys] show thesis
      by auto
  qed
qed

lemma heap_live_malloc:
  assumes "heap_inv base h" "rust_kmalloc n h = Some (a, h')" "a \<noteq> 0"
  obtains s where "heap_live base h' = insert (a, s) (heap_live base h)" "(a, s) \<notin> heap_live base h"
    "unat (align_up n) \<le> s" "16 dvd unat a" "unat base + 48 \<le> unat a" "unat a + s \<le> unat base + 4194304"
proof -
  obtain bs where bs: "heap_rel base h bs" using assms(1) by (auto simp: heap_inv_def)
  from kmalloc_cases [OF bs assms(2)] assms(3) obtain xs s ys where
    x: "bs = xs @ (s, True) # ys" "unat (align_up n) \<le> s" "a = haddr base (span xs + 48)"
    "heap_rel base h' (xs @ split_block (unat (align_up n)) s @ ys)" (is "heap_rel _ _ ?bs'")
    by metis
  let ?s = "if unat (align_up n) + 48 < s then unat (align_up n) else s"
  have set: "set (allocs 0 ?bs') = insert (span xs + 48, ?s) (set (allocs 0 bs))"
    using allocs_take [OF x(2), of 0 xs ys] x(1) by simp
  have live: "heap_live base h' = insert (a, ?s) (heap_live base h)"
    using heap_live_eq [OF x(4)] heap_live_eq [OF bs] set x(3) by simp
  have mem: "(span xs + 48, ?s) \<in> set (allocs 0 ?bs')" using set by simp
  note off = alloc_offset [OF x(4) mem]
  have "(span xs + 48, ?s) \<notin> set (allocs 0 bs)"
    using x(1) by (auto simp: allocs_append dest!: allocs_bound)
  moreover have "inj_on (\<lambda>(p, s). (haddr base p, s)) (set (allocs 0 ?bs'))"
    by (rule alloc_inj [OF x(4)])
  ultimately have "(a, ?s) \<notin> heap_live base h"
    using inj_on_image_mem_iff [of "\<lambda>(p, s). (haddr base p, s)" "set (allocs 0 ?bs')" "(span xs + 48, ?s)"
        "set (allocs 0 bs)"] mem set heap_live_eq [OF bs] x(3) by (simp add: subset_insertI)
  moreover have "16 dvd unat a"
  proof -
    have "\<forall>(t, f) \<in> set xs. 16 dvd t" "16 dvd unat base"
      using bs x(1) by (auto simp: heap_rel_def ablocks_ok_def heap_placed_def)
    moreover from this(1) have "16 dvd span xs" by (induction xs rule: span.induct) (auto intro!: dvd_add)
    ultimately show ?thesis using off(1) x(3) by (auto intro!: dvd_add)
  qed
  ultimately show thesis
    using that [of ?s] live x(2,3) off by auto
qed

lemma heap_inv_malloc:
  assumes "heap_inv base h" "rust_kmalloc n h = Some (a, h')"
  shows "heap_inv base h'"
proof -
  obtain bs where "heap_rel base h bs" using assms(1) by (auto simp: heap_inv_def)
  then show ?thesis using assms(2) by (cases rule: kmalloc_cases) (auto simp: heap_inv_def)
qed

lemma kmalloc_returns: "heap_inv base h \<Longrightarrow> \<exists>a h'. rust_kmalloc n h = Some (a, h')"
proof (cases "n = 0")
  case False
  assume "heap_inv base h"
  then obtain bs where bs: "heap_rel base h bs" by (auto simp: heap_inv_def)
  show ?thesis
  proof (cases rule: first_fit_cases [of bs "unat (align_up n)"])
    case miss
    with rust_kmalloc_miss [OF bs False] show ?thesis by blast
  next
    case (hit xs s ys)
    with rust_kmalloc_hit [of base h xs s ys n] False bs show ?thesis by metis
  qed
qed (simp add: rust_kmalloc_def)

lemma heap_free:
  assumes "heap_inv base h" "(a, s) \<in> heap_live base h"
  shows "heap_inv base (rust_kfree a h)" "heap_live base (rust_kfree a h) = heap_live base h - {(a, s)}"
proof -
  obtain p bs where p: "heap_rel base h bs" "(p, s) \<in> set (allocs 0 bs)" "a = haddr base p"
    using assms(2) by (rule heap_liveE)
  have r: "heap_rel base (rust_kfree a h) (release p bs)"
    using rust_kfree_release [OF p(1,2)] p(3) by simp
  then show "heap_inv base (rust_kfree a h)" by (auto simp: heap_inv_def)
  have "inj_on (\<lambda>(p, s). (haddr base p, s)) (set (allocs 0 bs))"
    by (rule alloc_inj [OF p(1)])
  then have "(\<lambda>(p, s). (haddr base p, s)) ` (set (allocs 0 bs) - {(p, s)}) =
      (\<lambda>(p, s). (haddr base p, s)) ` set (allocs 0 bs) - (\<lambda>(p, s). (haddr base p, s)) ` {(p, s)}"
    using p(2) by (intro inj_on_image_set_diff) auto
  with heap_live_eq [OF r] heap_live_eq [OF p(1)] set_allocs_release [OF p(2)] p(3)
  show "heap_live base (rust_kfree a h) = heap_live base h - {(a, s)}" by simp
qed

lemma heap_live_null:
  assumes "heap_inv base h" "rust_kmalloc n h = Some (0, h')"
  shows "heap_live base h' = heap_live base h"
proof -
  obtain bs where bs: "heap_rel base h bs" using assms(1) by (auto simp: heap_inv_def)
  from bs assms(2) show ?thesis
  proof (cases rule: kmalloc_cases)
    case null
    then show ?thesis using bs heap_live_eq by metis
  next
    case (block xs s ys)
    then show ?thesis using bs haddr_nonnull [of base "span xs + 48"]
      by (auto simp: heap_rel_def ablocks_ok_def)
  qed
qed

lemma heap_live_fresh:
  assumes "heap_inv base h" "rust_kmalloc n h = Some (p, h')" "p \<noteq> 0"
  shows "\<exists>s. heap_live base h' = insert (p, s) (heap_live base h) \<and> p \<notin> fst ` heap_live base h \<and>
      (unat n \<le> 2 ^ 64 - 16 \<longrightarrow> unat n \<le> s)"
proof -
  from heap_live_malloc [OF assms] obtain s where s: "heap_live base h' = insert (p, s) (heap_live base h)"
    "(p, s) \<notin> heap_live base h" "unat (align_up n) \<le> s" by metis
  have "p \<notin> fst ` heap_live base h"
  proof
    assume "p \<in> fst ` heap_live base h"
    then obtain t where "(p, t) \<in> heap_live base h" by auto
    with s heap_live_disjoint [of p t base h' p s] show False by auto
  qed
  with s align_up_ge [of n] show ?thesis by (intro exI [of _ s]) linarith
qed

lemma heap_live_fits:
  assumes "(a, s) \<in> heap_live base h"
  shows "unat a + s \<le> 2 ^ 64"
proof -
  obtain p bs where p: "heap_rel base h bs" "(p, s) \<in> set (allocs 0 bs)" "a = haddr base p"
    using assms by (rule heap_liveE)
  have "unat base + 4194304 < 2 ^ 64" using p(1) by (simp add: heap_rel_def heap_placed_def HEAP_SIZE_def)
  with alloc_offset [OF p(1,2)] p(3) show ?thesis by simp
qed

lemma rust_kfree_null: "rust_kfree 0 h = h"
  by (simp add: rust_kfree_def)

interpretation kernel_heap: kernel_allocator "heap_inv base" "heap_live base" rust_kmalloc rust_kfree
  for base
proof
  show "unat p + s < unat q \<or> unat q + t < unat p"
    if "(p, s) \<in> heap_live base h" "(q, t) \<in> heap_live base h" "(p, s) \<noteq> (q, t)" for h p s q t
    using heap_live_disjoint [OF that] by linarith
  show "unat p + s \<le> 2 ^ 64" if "(p, s) \<in> heap_live base h" for h p s
    using that by (rule heap_live_fits)
qed (rule kmalloc_returns heap_inv_malloc heap_live_null heap_live_fresh heap_free rust_kfree_null;
    assumption)+

section \<open>Reachable heaps\<close>

text \<open>What can happen to the heap after boot: an allocation, the release of a block in use, and a
  release that the checks at the top of \<open>rust_kfree\<close> turn away.\<close>

inductive heap_reach :: "usize \<Rightarrow> heap \<Rightarrow> bool" for base where
  boot: "init_heap base boot_heap = Some h \<Longrightarrow> heap_reach base h"
| malloc: "heap_reach base h \<Longrightarrow> rust_kmalloc n h = Some (p, h') \<Longrightarrow> heap_reach base h'"
| free: "heap_reach base h \<Longrightarrow> (p, s) \<in> heap_live base h \<Longrightarrow> heap_reach base (rust_kfree p h)"
| rejected: "heap_reach base h \<Longrightarrow>
    magic (hdr h (p - size_of_Block)) \<noteq> BLOCK_MAGIC \<or> is_free (hdr h (p - size_of_Block)) \<Longrightarrow>
    heap_reach base (rust_kfree p h)"

inductive_cases heap_reachE: "heap_reach base h"

lemma heap_inv_log [simp]: "heap_inv base (heap_serial_write s h) = heap_inv base h"
  by (simp add: heap_inv_def heap_rel_def)

lemma rust_kfree_rejected:
  "magic (hdr h (p - size_of_Block)) \<noteq> BLOCK_MAGIC \<or> is_free (hdr h (p - size_of_Block)) \<Longrightarrow> p \<noteq> 0 \<Longrightarrow>
   rust_kfree p h = heap_serial_write (bytes ''[HEAP-ERROR] Invalid free() or double free!'' @ [ch_newline]) h"
  by (auto simp: rust_kfree_def Let_def)

lemma heap_reach_inv:
  assumes "heap_reach base h" "heap_placed base"
  shows "heap_inv base h"
  using assms
proof (induction rule: heap_reach.induct)
  case (boot h)
  then show ?case using init_heap_rel [of base boot_heap] by (auto simp: heap_inv_def)
next
  case (malloc h n p h')
  then show ?case using heap_inv_malloc by blast
next
  case (free h p s)
  then show ?case using heap_free(1) by blast
next
  case (rejected h p)
  then show ?case by (cases "p = 0") (simp_all add: rust_kfree_null rust_kfree_rejected)
qed

text \<open>The two merges change sizes and links, never a magic number or a free flag.\<close>

lemma coalesce_flags:
  "magic (hdr (coalesce_next b h) a) = magic (hdr h a)" "is_free (hdr (coalesce_next b h) a) = is_free (hdr h a)"
  "magic (hdr (coalesce_prev b h) a) = magic (hdr h a)" "is_free (hdr (coalesce_prev b h) a) = is_free (hdr h a)"
  by (simp_all add: coalesce_next_def coalesce_prev_def Let_def)

lemma all_free_single:
  "no_adjacent_free bs \<Longrightarrow> allocs off bs = [] \<Longrightarrow> bs \<noteq> [] \<Longrightarrow> \<exists>s. bs = [(s, True)]"
proof (induction bs rule: no_adjacent_free.induct)
  case (1 s f t g bs)
  then show ?case by (auto split: if_splits)
qed (auto split: if_splits)

text \<open>A heap of the boot image at address \<open>0x100000\<close> before and after its first allocation.\<close>

lemma heap_demo:
  obtains h h' where "heap_placed 0x100000" "init_heap 0x100000 boot_heap = Some h"
    "heap_rel 0x100000 h [(4194256, True)]" "rust_kmalloc 100 h = Some (0x100030, h')"
    "heap_rel 0x100000 h' [(112, False), (4194096, True)]"
proof -
  have placed: "heap_placed 0x100000" by (simp add: heap_placed_def)
  then obtain h where h: "init_heap 0x100000 boot_heap = Some h" "heap_rel 0x100000 h [(4194256, True)]"
    by (rule init_heap_rel)
  have "unat (align_up 100) = 112" by (simp add: unat_align_up)
  then obtain h' where "rust_kmalloc 100 h = Some (haddr 0x100000 48, h')"
    "heap_rel 0x100000 h' [(112, False), (4194096, True)]"
    using rust_kmalloc_hit [of "0x100000" h "[]" 4194256 "[]" 100] h(2)
    by (auto simp: split_block_def)
  moreover have "haddr 0x100000 48 = 0x100030" by (simp add: haddr_def)
  ultimately show thesis using that [OF placed h] by simp
qed

section \<open>Properties\<close>

text \<open>C1: Every heap reached from boot by any sequence of allocations of any size, releases of blocks
  in use and rejected releases is a well-formed block list (contiguous headers that tile the array,
  linked both ways, with no two free blocks next to each other), and on it every allocation request
  returns: the search never runs into a cycle.\<close>

theorem heap_reach_invariant:
  assumes "heap_placed base" "heap_reach base h"
  shows "heap_inv base h \<and> (\<forall>n. \<exists>p h'. rust_kmalloc n h = Some (p, h'))"
  using heap_reach_inv [OF assms(2,1)] kmalloc_returns by blast

theorem heap_reach_invariant_witness:
  "\<exists>h h'. init_heap 0x100000 boot_heap = Some h \<and> rust_kmalloc 100 h = Some (0x100030, h') \<and>
     heap_inv 0x100000 h' \<and> (\<exists>p h''. rust_kmalloc 5000000 h' = Some (p, h''))"
proof (rule heap_demo)
  fix h h'
  assume placed: "heap_placed 0x100000" and h: "init_heap 0x100000 boot_heap = Some h"
    and h': "rust_kmalloc 100 h = Some (0x100030, h')"
  have "heap_reach 0x100000 h'" using heap_reach.boot [OF h] h' by (rule heap_reach.malloc)
  from heap_reach_invariant [OF placed this] h h' show ?thesis by blast
qed

text \<open>C2: Allocation refines first fit. On a heap that represents the block list \<open>bs\<close>, a request for
  \<open>n\<close> bytes returns the payload of the first free block of at least the rounded size, and the new heap
  represents the list in which that block is split or taken whole; when no free block fits, the
  result is null and only the error line is logged.\<close>

theorem kmalloc_refines_first_fit:
  assumes "heap_rel base h bs" "n \<noteq> 0"
  shows "case first_fit (unat (align_up n)) bs of
      None \<Rightarrow> rust_kmalloc n h =
        Some (0, heap_serial_write (bytes ''[HEAP-ERROR] Out of memory!'' @ [ch_newline]) h)
    | Some (p, bs') \<Rightarrow> \<exists>h'. rust_kmalloc n h = Some (haddr base p, h') \<and> heap_rel base h' bs'"
proof (cases rule: first_fit_cases [of bs "unat (align_up n)"])
  case miss
  with rust_kmalloc_miss [OF assms] show ?thesis by simp
next
  case (hit xs s ys)
  with rust_kmalloc_hit [of base h xs s ys n] assms show ?thesis by auto
qed

theorem kmalloc_refines_first_fit_witness:
  "\<exists>h h'. init_heap 0x100000 boot_heap = Some h \<and> heap_rel 0x100000 h [(4194256, True)] \<and>
     rust_kmalloc 100 h = Some (haddr 0x100000 48, h') \<and>
     heap_rel 0x100000 h' [(112, False), (4194096, True)]"
proof (rule heap_demo)
  fix h
  assume h: "init_heap 0x100000 boot_heap = Some h" "heap_rel 0x100000 h [(4194256, True)]"
  have "unat (align_up 100) = 112" by (simp add: unat_align_up)
  with kmalloc_refines_first_fit [OF h(2), of 100] h show ?thesis
    by (auto simp: split_block_def)
qed

text \<open>C9: A non-null result of an allocation is a fresh block: it is 16-byte aligned, lies inside the
  heap array behind its header, becomes the only new block in use, is at least as large as the
  request (for requests up to \<open>2 ^ 64 - 16\<close> bytes, where the rounding does not wrap), and overlaps
  no other block in use or its header.\<close>

theorem kmalloc_fresh_block:
  assumes "heap_inv base h" "rust_kmalloc n h = Some (p, h')" "p \<noteq> 0" "unat n \<le> 2 ^ 64 - 16"
  shows "\<exists>s. unat n \<le> s \<and> heap_live base h' = insert (p, s) (heap_live base h) \<and> 16 dvd unat p \<and>
    unat base + 48 \<le> unat p \<and> unat p + s \<le> unat base + unat HEAP_SIZE \<and>
    (\<forall>(q, t) \<in> heap_live base h. unat p + s + 48 \<le> unat q \<or> unat q + t + 48 \<le> unat p)"
proof -
  obtain s where s: "heap_live base h' = insert (p, s) (heap_live base h)" "(p, s) \<notin> heap_live base h"
    "unat (align_up n) \<le> s" "16 dvd unat p" "unat base + 48 \<le> unat p" "unat p + s \<le> unat base + 4194304"
    using heap_live_malloc [OF assms(1-3)] by metis
  moreover have "\<forall>(q, t) \<in> heap_live base h. unat p + s + 48 \<le> unat q \<or> unat q + t + 48 \<le> unat p"
    using s(1,2) heap_live_disjoint [of p s base h'] by fastforce
  moreover have "unat n \<le> s" using s(3) align_up_ge [OF assms(4)] by linarith
  ultimately show ?thesis by (intro exI [of _ s]) simp
qed

theorem kmalloc_fresh_block_witness:
  "\<exists>h h' s. init_heap 0x100000 boot_heap = Some h \<and> rust_kmalloc 100 h = Some (0x100030, h') \<and>
     100 \<le> s \<and> heap_live 0x100000 h' = insert (0x100030, s) (heap_live 0x100000 h)"
proof (rule heap_demo)
  fix h h'
  assume h: "init_heap 0x100000 boot_heap = Some h" "heap_rel 0x100000 h [(4194256, True)]"
    "rust_kmalloc 100 h = Some (0x100030, h')"
  then have "heap_inv 0x100000 h" by (auto simp: heap_inv_def)
  from kmalloc_fresh_block [OF this h(3)] h show ?thesis by auto
qed

text \<open>C8: Release refines the abstract release. Freeing the block in use at offset \<open>p\<close> gives a heap that
  represents the list in which that block is free and merged with a free right and a free left
  neighbour; exactly that block leaves the set of blocks in use.\<close>

theorem kfree_refines_release:
  assumes "heap_rel base h bs" "(p, s) \<in> set (allocs 0 bs)"
  shows "heap_rel base (rust_kfree (haddr base p) h) (release p bs) \<and>
    heap_live base (rust_kfree (haddr base p) h) = heap_live base h - {(haddr base p, s)}"
proof
  show "heap_rel base (rust_kfree (haddr base p) h) (release p bs)"
    using assms by (rule rust_kfree_release)
  have "heap_inv base h" "(haddr base p, s) \<in> heap_live base h"
    using assms by (auto simp: heap_inv_def heap_live_def)
  then show "heap_live base (rust_kfree (haddr base p) h) = heap_live base h - {(haddr base p, s)}"
    by (rule heap_free(2))
qed

theorem kfree_refines_release_witness:
  "\<exists>h h'. init_heap 0x100000 boot_heap = Some h \<and> rust_kmalloc 100 h = Some (0x100030, h') \<and>
     heap_rel 0x100000 (rust_kfree (haddr 0x100000 48) h') [(4194256, True)]"
proof (rule heap_demo)
  fix h h'
  assume h: "init_heap 0x100000 boot_heap = Some h" "rust_kmalloc 100 h = Some (0x100030, h')"
    and h': "heap_rel 0x100000 h' [(112, False), (4194096, True)]"
  from kfree_refines_release [OF h', of 48 112] h show ?thesis by auto
qed



text \<open>C17: A second release of a block that was just released is recognised, also when the block has been
  merged into its left neighbour: the headers stay as they are and the error line is logged.\<close>

theorem double_free_rejected:
  assumes "heap_inv base h" "(p, s) \<in> heap_live base h"
  shows "rust_kfree p (rust_kfree p h) =
    heap_serial_write (bytes ''[HEAP-ERROR] Invalid free() or double free!'' @ [ch_newline]) (rust_kfree p h)"
proof -
  obtain q bs where q: "heap_rel base h bs" "(q, s) \<in> set (allocs 0 bs)" "p = haddr base q"
    using assms(2) by (rule heap_liveE)
  have "p \<noteq> 0" using alloc_offset(4) [OF q(1,2)] q(3) by simp
  moreover have "is_free (hdr (rust_kfree p h) (p - size_of_Block)) \<or>
      magic (hdr (rust_kfree p h) (p - size_of_Block)) \<noteq> BLOCK_MAGIC"
    using \<open>p \<noteq> 0\<close> by (auto simp: rust_kfree_def Let_def coalesce_flags)
  ultimately show ?thesis by (intro rust_kfree_rejected) auto
qed

theorem double_free_rejected_witness:
  "\<exists>h h'. init_heap 0x100000 boot_heap = Some h \<and> rust_kmalloc 100 h = Some (0x100030, h') \<and>
     rust_kfree 0x100030 (rust_kfree 0x100030 h') =
       heap_serial_write (bytes ''[HEAP-ERROR] Invalid free() or double free!'' @ [ch_newline])
         (rust_kfree 0x100030 h')"
proof (rule heap_demo)
  fix h h'
  assume h: "init_heap 0x100000 boot_heap = Some h" "rust_kmalloc 100 h = Some (0x100030, h')"
    and h': "heap_rel 0x100000 h' [(112, False), (4194096, True)]"
  have a: "haddr 0x100000 48 = 0x100030" by (simp add: haddr_def)
  have "heap_inv 0x100000 h'" "(haddr 0x100000 48, 112) \<in> heap_live 0x100000 h'"
    using h' heap_live_eq [OF h'] by (auto simp: heap_inv_def)
  from double_free_rejected [OF this] h show ?thesis unfolding a by blast
qed

text \<open>The rounding of the request wraps for the fifteen largest sizes: \<open>align_up\<close> gives 0, so on
  a heap whose first block is free with room for a second header, the request for \<open>n > 2 ^ 64 - 16\<close>
  bytes succeeds with a block of 0 bytes.\<close>

theorem kmalloc_size_wraps:
  assumes "heap_rel base h ((s, True) # bs)" "48 < s" "2 ^ 64 - 16 < unat n"
  shows "\<exists>h'. rust_kmalloc n h = Some (haddr base 48, h') \<and> (haddr base 48, 0) \<in> heap_live base h'"
proof -
  have "n \<noteq> 0" using assms(3) by auto
  have "unat (align_up n) = 0" using assms(3) by (simp add: unat_align_up)
  with rust_kmalloc_hit [of base h "[]" s bs n] assms \<open>n \<noteq> 0\<close> obtain h' where
    h': "rust_kmalloc n h = Some (haddr base 48, h')" "heap_rel base h' ([(0, False), (s - 48, True)] @ bs)"
    by (auto simp: split_block_def)
  from heap_live_eq [OF h'(2)] h'(1) show ?thesis by auto
qed

theorem kmalloc_size_wraps_witness:
  "\<exists>h h'. init_heap 0x100000 boot_heap = Some h \<and>
     rust_kmalloc 0xFFFFFFFFFFFFFFFF h = Some (haddr 0x100000 48, h') \<and>
     (haddr 0x100000 48, 0) \<in> heap_live 0x100000 h'"
proof (rule heap_demo)
  fix h
  assume h: "init_heap 0x100000 boot_heap = Some h" "heap_rel 0x100000 h [(4194256, True)]"
  have "2 ^ 64 - 16 < unat (0xFFFFFFFFFFFFFFFF :: usize)" by simp
  with kmalloc_size_wraps [OF h(2), of "0xFFFFFFFFFFFFFFFF"] h(1) show ?thesis by auto
qed

text \<open>The heap's hexadecimal printer never indexes out of its buffer, although its index wraps
  below zero on sixteen-digit values, and prints a text whose value is the number.\<close>

theorem heap_write_hex_exact:
  "\<exists>t. heap_write_hex val = Some t \<and> hex_value t = unat val \<and> t \<noteq> [] \<and> length t \<le> 16"
proof (cases "val = 0")
  case True
  then show ?thesis by (simp add: heap_write_hex_text bytes_def hex_value_def of_char_def)
next
  case False
  have "unat val < 16 ^ 16" using unsigned_less [of val] by simp
  then have "length (hex_digits (unat val)) \<le> 16" by (rule length_hex_digits)
  moreover have "hex_digits (unat val) \<noteq> []"
    using False hex_value_hex_digits [of "unat val"] by (auto simp: hex_value_def unat_eq_0)
  ultimately show ?thesis using False by (simp add: heap_write_hex_text hex_value_hex_digits)
qed

end
