(* ===== verification/Ordered_Map.thy ===== *)
theory Ordered_Map
  imports Kernel_Prelude
begin

text \<open>
  The operations of Rust's \<^verbatim>\<open>BTreeMap\<close> that the kernel uses, on association lists in ascending key
  order (the order in which the map iterates), and their contract as a locale.
\<close>

section \<open>Operations\<close>

definition bt_get :: "'k \<Rightarrow> ('k \<times> 'v) list \<Rightarrow> 'v option" where
  "bt_get k m = map_of m k"

definition bt_contains_key :: "'k \<Rightarrow> ('k \<times> 'v) list \<Rightarrow> bool" where
  "bt_contains_key k m \<longleftrightarrow> k \<in> fst ` set m"

fun bt_insert :: "'k::linorder \<Rightarrow> 'v \<Rightarrow> ('k \<times> 'v) list \<Rightarrow> ('k \<times> 'v) list" where
  "bt_insert k v [] = [(k, v)]"
| "bt_insert k v ((k', v') # m) =
     (if k < k' then (k, v) # (k', v') # m
      else if k = k' then (k, v) # m
      else (k', v') # bt_insert k v m)"

definition bt_remove :: "'k \<Rightarrow> ('k \<times> 'v) list \<Rightarrow> ('k \<times> 'v) list" where
  "bt_remove k m = filter (\<lambda>(k', _). k' \<noteq> k) m"

definition bt_ok :: "('k::linorder \<times> 'v) list \<Rightarrow> bool" where
  "bt_ok m \<longleftrightarrow> sorted_wrt (<) (map fst m)"

section \<open>Contract\<close>

text \<open>What a client relies on: lookup after an insertion or removal, and that the operations keep the
  invariant. Two insertions under different keys commute up to lookup.\<close>

locale key_table =
  fixes ok :: "'m \<Rightarrow> bool"
    and empty :: 'm
    and get :: "'k \<Rightarrow> 'm \<Rightarrow> 'v option"
    and put :: "'k \<Rightarrow> 'v \<Rightarrow> 'm \<Rightarrow> 'm"
    and del :: "'k \<Rightarrow> 'm \<Rightarrow> 'm"
  assumes ok_empty: "ok empty"
    and ok_put: "ok m \<Longrightarrow> ok (put k v m)"
    and ok_del: "ok m \<Longrightarrow> ok (del k m)"
    and get_empty: "get k empty = None"
    and get_put: "get k' (put k v m) = (if k' = k then Some v else get k' m)"
    and get_del: "get k' (del k m) = (if k' = k then None else get k' m)"
begin

lemma put_commute: "k \<noteq> k' \<Longrightarrow> get j (put k v (put k' v' m)) = get j (put k' v' (put k v m))"
  by (simp add: get_put)

lemma del_put: "get k m = None \<Longrightarrow> get j (del k (put k v m)) = get j m"
  by (simp add: get_put get_del)

lemma put_put: "get j (put k v (put k v' m)) = get j (put k v m)"
  by (simp add: get_put)

end

lemma bt_get_insert: "bt_get k' (bt_insert k v m) = (if k' = k then Some v else bt_get k' m)"
  by (induction k v m rule: bt_insert.induct) (auto simp: bt_get_def)

lemma bt_get_remove: "bt_get k' (bt_remove k m) = (if k' = k then None else bt_get k' m)"
  by (induction m) (auto simp: bt_get_def bt_remove_def)

lemma set_bt_insert: "fst ` set (bt_insert k v m) = insert k (fst ` set m)"
  by (induction k v m rule: bt_insert.induct) auto

lemma bt_insert_mem: "x \<in> set (bt_insert k v m) \<Longrightarrow> x = (k, v) \<or> x \<in> set m"
  by (induction k v m rule: bt_insert.induct) (auto split: if_splits)

lemma bt_remove_mem: "x \<in> set (bt_remove k m) \<Longrightarrow> x \<in> set m"
  by (simp add: bt_remove_def)

lemma bt_ok_Cons: "bt_ok ((k, v) # m) \<longleftrightarrow> (\<forall>k' \<in> fst ` set m. k < k') \<and> bt_ok m"
  by (auto simp: bt_ok_def)

lemma bt_ok_insert: "bt_ok m \<Longrightarrow> bt_ok (bt_insert k v m)"
  by (induction k v m rule: bt_insert.induct) (auto simp: bt_ok_Cons set_bt_insert bt_ok_def)

lemma bt_ok_remove: "bt_ok m \<Longrightarrow> bt_ok (bt_remove k m)"
  by (simp add: bt_ok_def bt_remove_def sorted_wrt_map sorted_wrt_filter)

interpretation bt: key_table bt_ok "[]" bt_get bt_insert bt_remove
  by unfold_locales (simp_all add: bt_get_insert bt_get_remove bt_ok_insert bt_ok_remove,
      simp_all add: bt_ok_def bt_get_def)

lemma bt_contains_key_get: "bt_contains_key k m \<longleftrightarrow> bt_get k m \<noteq> None"
  by (auto simp: bt_contains_key_def bt_get_def map_of_eq_None_iff)

lemma bt_get_mem: "bt_get k m = Some v \<Longrightarrow> (k, v) \<in> set m"
  by (simp add: bt_get_def map_of_SomeD)

lemma bt_get_iff: "bt_ok m \<Longrightarrow> bt_get k m = Some v \<longleftrightarrow> (k, v) \<in> set m"
  by (auto simp: bt_ok_def bt_get_def strict_sorted_iff)

end
