(* ===== verification/Vfs_Tree.thy ===== *)
theory Vfs_Tree
  imports Ordered_Map "HOL-Library.Sublist"
begin

text \<open>
  The in-memory file system (\<^verbatim>\<open>kernel-rs/src/vfs.rs\<close>): a tree of entries below the static
  \<open>ROOT_FS\<close>, addressed by C strings.

  A path pointer is the memory from the pointer on (\<open>None\<close> is the null pointer); the functions read
  it up to the first zero byte. A byte of a path becomes a character of the same code, so a name is
  the list of its codes; \<open>name_bytes\<close> is its UTF-8 text. A data buffer is the memory behind the
  pointer, a function from offsets to bytes. A mutable borrow of an entry is the list of components
  that leads to it: the code changes the entry through the borrow, the model through \<open>modify_at\<close>.
  Output to the screen and the serial line, and the interrupt switches around the listing, are
  recorded in order.
\<close>

section \<open>Definitions\<close>

datatype FileType = Regular | Directory

datatype FileEntry =
  FileEntry (fname: "u8 list") (file_type: FileType) (fdata: "u8 list")
    (children: "(u8 list \<times> FileEntry) list")

text \<open>The constructors also format their stack address into a local buffer that nothing reads.\<close>

definition new_file :: "u8 list \<Rightarrow> FileEntry" where
  "new_file name = FileEntry name Regular [] []"

definition new_directory :: "u8 list \<Rightarrow> FileEntry" where
  "new_directory name = FileEntry name Directory [] []"

datatype vfs_event = Serial_write "u8 list" | Vga_print "u8 list" | Sys_cli | Sys_sti

record vfs =
  ROOT_FS :: "FileEntry option"
  vfs_out :: "vfs_event list"

definition vfs_emit :: "vfs_event \<Rightarrow> vfs \<Rightarrow> vfs" where
  "vfs_emit ev fs = fs\<lparr>vfs_out := vfs_out fs @ [ev]\<rparr>"

type_synonym cpath = "u8 list option"
type_synonym buffer = "nat \<Rightarrow> u8"

definition vfs_init :: "vfs \<Rightarrow> vfs" where
  "vfs_init fs = fs\<lparr>ROOT_FS := Some (new_directory (bytes ''/''))\<rparr>"

text \<open>\<^verbatim>\<open>str::split\<close> on one character.\<close>

fun split_on :: "'a \<Rightarrow> 'a list \<Rightarrow> 'a list list" where
  "split_on c [] = [[]]"
| "split_on c (x # xs) =
     (if x = c then [] # split_on c xs
      else case split_on c xs of [] \<Rightarrow> [[x]] | w # ws \<Rightarrow> (x # w) # ws)"

definition get_path_components :: "cpath \<Rightarrow> u8 list list" where
  "get_path_components path =
     (case path of None \<Rightarrow> []
      | Some p \<Rightarrow>
          let path_str = takeWhile (\<lambda>b. b \<noteq> 0) p
          in filter (\<lambda>s. s \<noteq> []) (split_on ch_slash path_str))"

text \<open>The descent along \<open>children.get_mut\<close>.\<close>

fun walk :: "FileEntry \<Rightarrow> u8 list list \<Rightarrow> FileEntry option" where
  "walk current [] = Some current"
| "walk current (component # cs) =
     (case bt_get component (children current) of None \<Rightarrow> None | Some child \<Rightarrow> walk child cs)"

definition set_children :: "(u8 list \<times> FileEntry) list \<Rightarrow> FileEntry \<Rightarrow> FileEntry" where
  "set_children m e = FileEntry (fname e) (file_type e) (fdata e) m"

definition set_data :: "u8 list \<Rightarrow> FileEntry \<Rightarrow> FileEntry" where
  "set_data d e = FileEntry (fname e) (file_type e) d (children e)"

text \<open>The write-back through a mutable borrow reached by \<open>walk\<close>.\<close>

fun modify_at :: "u8 list list \<Rightarrow> (FileEntry \<Rightarrow> FileEntry) \<Rightarrow> FileEntry \<Rightarrow> FileEntry" where
  "modify_at [] f e = f e"
| "modify_at (c # cs) f e =
     (case bt_get c (children e) of None \<Rightarrow> e
      | Some child \<Rightarrow> set_children (bt_insert c (modify_at cs f child) (children e)) e)"

definition modify_root :: "u8 list list \<Rightarrow> (FileEntry \<Rightarrow> FileEntry) \<Rightarrow> vfs \<Rightarrow> vfs" where
  "modify_root cs f fs = fs\<lparr>ROOT_FS := map_option (modify_at cs f) (ROOT_FS fs)\<rparr>"

definition find_entry :: "vfs \<Rightarrow> cpath \<Rightarrow> (u8 list list \<times> FileEntry) option" where
  "find_entry fs path =
     (case ROOT_FS fs of
        Some root \<Rightarrow>
          let components = get_path_components path
          in map_option (\<lambda>e. (components, e)) (walk root components)
      | None \<Rightarrow> None)"

definition find_parent_and_name :: "vfs \<Rightarrow> cpath \<Rightarrow> (u8 list list \<times> FileEntry \<times> u8 list) option" where
  "find_parent_and_name fs path =
     (let components = get_path_components path
      in if components = [] then None
         else let filename = last components; parent_components = butlast components
              in do {
                root \<leftarrow> ROOT_FS fs;
                parent \<leftarrow> walk root parent_components;
                Some (parent_components, parent, filename)
              })"

definition create_file :: "cpath \<Rightarrow> vfs \<Rightarrow> int \<times> vfs" where
  "create_file path fs =
     (case find_parent_and_name fs path of
        Some (pc, parent, filename) \<Rightarrow>
          if bt_contains_key filename (children parent) then (- 17, fs)
          else (0, modify_root pc
                     (\<lambda>e. set_children (bt_insert filename (new_file filename) (children e)) e) fs)
      | None \<Rightarrow> (- 2, fs))"

definition create_directory :: "cpath \<Rightarrow> vfs \<Rightarrow> int \<times> vfs" where
  "create_directory path fs =
     (case find_parent_and_name fs path of
        Some (pc, parent, dirname) \<Rightarrow>
          if bt_contains_key dirname (children parent) then (- 17, fs)
          else (0, modify_root pc
                     (\<lambda>e. set_children (bt_insert dirname (new_directory dirname) (children e)) e) fs)
      | None \<Rightarrow> (- 2, fs))"

definition delete_file :: "cpath \<Rightarrow> vfs \<Rightarrow> int \<times> vfs" where
  "delete_file path fs =
     (case find_parent_and_name fs path of
        Some (pc, parent, filename) \<Rightarrow>
          if bt_get filename (children parent) \<noteq> None
          then (0, modify_root pc (\<lambda>e. set_children (bt_remove filename (children e)) e) fs)
          else (- 2, fs)
      | None \<Rightarrow> (- 2, fs))"

text \<open>The result and the buffer after the call.\<close>

definition read_file :: "cpath \<Rightarrow> buffer option \<Rightarrow> int \<Rightarrow> vfs \<Rightarrow> int \<times> buffer option" where
  "read_file path buf max_len fs =
     (case buf of None \<Rightarrow> (- 22, None)
      | Some b \<Rightarrow>
          if max_len \<le> 0 then (- 22, Some b)
          else (case find_entry fs path of
                  Some (_, entry) \<Rightarrow>
                    (case file_type entry of
                       Regular \<Rightarrow>
                         let copy_len = min (length (fdata entry)) (nat max_len)
                         in (int copy_len, Some (\<lambda>i. if i < copy_len then fdata entry ! i else b i))
                     | Directory \<Rightarrow> (- 21, Some b))
                | None \<Rightarrow> (- 2, Some b)))"

text \<open>\<open>Vec::reserve\<close> panics on a request above \<open>isize::MAX\<close> bytes.\<close>

definition write_file :: "cpath \<Rightarrow> buffer option \<Rightarrow> u64 \<Rightarrow> vfs \<Rightarrow> (u64 \<times> vfs) option" where
  "write_file path buf len fs =
     (case buf of
        None \<Rightarrow> Some (0, vfs_emit (Serial_write (bytes ''[VFS-DEBUG] write_file: buf is null'' @ [13, 10])) fs)
      | Some b \<Rightarrow>
          (case find_entry fs path of
             Some (cs, entry) \<Rightarrow>
               (case file_type entry of
                  Regular \<Rightarrow>
                    if 2 ^ 63 - 1 < unat len then None
                    else Some (len, modify_root cs (set_data (map b [0..<unat len])) fs)
                | Directory \<Rightarrow> Some (0, fs))
           | None \<Rightarrow>
               Some (0, vfs_emit (Serial_write (bytes ''[VFS-DEBUG] write_file: file not found'' @ [13, 10])) fs)))"

text \<open>The line buffer of a listing: 256 bytes and the write offset. A field that does not fit with a
  byte to spare is left out.\<close>

definition line_write :: "u8 list \<Rightarrow> u8 list \<times> nat \<Rightarrow> u8 list \<times> nat" where
  "line_write s lb =
     (case lb of (line_buf, offset) \<Rightarrow>
        if offset + length s < length line_buf
        then (take offset line_buf @ s @ drop (offset + length s) line_buf, offset + length s)
        else (line_buf, offset))"

function size_digits :: "nat \<Rightarrow> u8 list \<Rightarrow> nat \<Rightarrow> u8 list \<times> nat" where
  "size_digits i size_buf temp_size =
     (if 0 < temp_size \<and> 0 < i
      then size_digits (i - 1) (size_buf[i - 1 := ch_zero + of_nat (temp_size mod 10)]) (temp_size div 10)
      else (size_buf, i))"
  by pat_completeness auto
termination
  by (relation "measure (\<lambda>(i, b, t). t)") auto

declare size_digits.simps [simp del]

definition size_str :: "nat \<Rightarrow> u8 list" where
  "size_str sz =
     (let (size_buf, i) = (if sz = 0 then ((replicate 10 0)[9 := ch_zero], 9)
                           else size_digits 10 (replicate 10 0) sz)
      in drop i size_buf)"

definition utf8_char :: "u8 \<Rightarrow> u8 list" where
  "utf8_char c = (if c < 128 then [c] else [0xC0 OR drop_bit 6 c, 0x80 OR (c AND 0x3F)])"

definition name_bytes :: "u8 list \<Rightarrow> u8 list" where
  "name_bytes s = concat (map utf8_char s)"

definition list_line :: "u8 list \<Rightarrow> FileEntry \<Rightarrow> u8 list" where
  "list_line name child =
     (let type_char = (case file_type child of Directory \<Rightarrow> of_char CHR ''d'' | Regular \<Rightarrow> of_char CHR ''-'');
          sz = size_str (length (fdata child));
          fields = [[type_char], bytes ''  '', bytes ''rwxr-xr-x'', bytes ''  '', bytes ''1'', bytes ''  '',
                    bytes ''root'', bytes ''  '', bytes ''root'', bytes ''  '']
                   @ replicate (10 - length sz) (bytes '' '')
                   @ [sz, bytes ''  '', bytes ''Jan  1 00:00'', bytes ''  '', name_bytes name, [ch_newline]];
          (line_buf, offset) = fold line_write fields (replicate 256 0, 0)
      in line_buf[offset := 0])"

definition ls_header :: "u8 list" where
  "ls_header = bytes ''Type  Permissions  Links  Owner  Group  Size      Date   Time   Name'' @ [ch_newline]"

definition ls_separator :: "u8 list" where
  "ls_separator = bytes ''----  -----------  -----  -----  -----  ----      ----   ----   ----'' @ [ch_newline]"

definition list_directory :: "cpath \<Rightarrow> vfs \<Rightarrow> int \<times> vfs" where
  "list_directory path fs =
     (case find_entry fs path of
        Some (_, entry) \<Rightarrow>
          (case file_type entry of
             Directory \<Rightarrow>
               let out = [Sys_cli, Vga_print ls_header, Serial_write ls_header,
                          Vga_print ls_separator, Serial_write ls_separator]
                         @ map (\<lambda>(name, child).
                                  Vga_print (takeWhile (\<lambda>b. b \<noteq> 0) (list_line name child)))
                               (children entry)
                         @ [Sys_sti]
               in (0, fold vfs_emit out fs)
           | Regular \<Rightarrow> (- 20, fs))
      | None \<Rightarrow> (- 2, fs))"

text \<open>The exported functions. \<open>path_addr\<close> is the address that the path pointer holds; a null pointer
  has the address 0. The buffer of \<open>stat\<close> is an array of 64-bit words.\<close>

definition rust_vfs_init :: "vfs \<Rightarrow> vfs" where "rust_vfs_init = vfs_init"

definition rust_vfs_create_file :: "cpath \<Rightarrow> vfs \<Rightarrow> int \<times> vfs" where "rust_vfs_create_file = create_file"

definition rust_vfs_mkdir :: "cpath \<Rightarrow> vfs \<Rightarrow> int \<times> vfs" where "rust_vfs_mkdir = create_directory"

definition rust_vfs_unlink :: "cpath \<Rightarrow> vfs \<Rightarrow> int \<times> vfs" where "rust_vfs_unlink = delete_file"

definition rust_vfs_read :: "cpath \<Rightarrow> buffer option \<Rightarrow> int \<Rightarrow> vfs \<Rightarrow> int \<times> buffer option" where
  "rust_vfs_read = read_file"

definition rust_vfs_write :: "cpath \<Rightarrow> buffer option \<Rightarrow> u64 \<Rightarrow> vfs \<Rightarrow> (u64 \<times> vfs) option" where
  "rust_vfs_write = write_file"

definition rust_vfs_ls :: "cpath \<Rightarrow> vfs \<Rightarrow> int \<times> vfs" where "rust_vfs_ls = list_directory"

definition rust_vfs_stat ::
  "cpath \<Rightarrow> u64 \<Rightarrow> (nat \<Rightarrow> u64) option \<Rightarrow> vfs \<Rightarrow> int \<times> (nat \<Rightarrow> u64) option" where
  "rust_vfs_stat path path_addr statbuf fs =
     (case (path, statbuf) of
        (Some p, Some s) \<Rightarrow>
          (case find_entry fs path of
             Some (_, entry) \<Rightarrow>
               let mode = (case file_type entry of Directory \<Rightarrow> 0x41ED | Regular \<Rightarrow> 0x81A4);
                   current_time = 1640995200
               in (0, Some (s(0 := 1, 1 := path_addr, 2 := mode, 3 := 1, 4 := 0, 5 := 0,
                              6 := of_nat (length (fdata entry)),
                              7 := current_time, 8 := current_time, 9 := current_time)))
           | None \<Rightarrow> (- 2, statbuf))
      | _ \<Rightarrow> (- 22, statbuf))"

definition rust_vfs_get_root :: "u64 \<Rightarrow> vfs \<Rightarrow> u64" where
  "rust_vfs_get_root root_addr fs = (case ROOT_FS fs of Some _ \<Rightarrow> root_addr | None \<Rightarrow> 0)"

section \<open>Paths\<close>

lemma split_on_not_Nil [simp]: "split_on c xs \<noteq> []"
  by (cases xs) (auto split: list.split)

lemma split_on_append:
  "split_on c (xs @ c # ys) = split_on c xs @ split_on c ys"
  by (induction xs) (auto split: list.split)

lemma split_on_free: "c \<notin> set xs \<Longrightarrow> split_on c xs = [xs]"
  by (induction xs) auto

lemma split_on_parts: "w \<in> set (split_on c xs) \<Longrightarrow> c \<notin> set w \<and> set w \<subseteq> set xs"
proof (induction xs arbitrary: w)
  case (Cons x xs)
  obtain v vs where v: "split_on c xs = v # vs" by (cases "split_on c xs") auto
  with Cons.IH [of v] Cons.IH [of w] Cons.prems show ?case by (auto split: if_splits)
qed simp

text \<open>A component that can occur in a path: not empty, without a slash or a zero byte.\<close>

definition name_ok :: "u8 list \<Rightarrow> bool" where
  "name_ok s \<longleftrightarrow> s \<noteq> [] \<and> ch_slash \<notin> set s \<and> 0 \<notin> set s"

lemma get_path_components_ok: "w \<in> set (get_path_components path) \<Longrightarrow> name_ok w"
  by (auto simp: get_path_components_def name_ok_def dest!: split_on_parts set_takeWhileD
      split: option.splits)

text \<open>The absolute path text of a list of components.\<close>

definition path_text :: "u8 list list \<Rightarrow> u8 list" where
  "path_text cs = concat (map (\<lambda>c. ch_slash # c) cs)"

lemma takeWhile_all: "0 \<notin> set p \<Longrightarrow> takeWhile (\<lambda>b. b \<noteq> 0) p = p" for p :: "u8 list"
  by (rule takeWhile_eq_all_conv [THEN iffD2]) auto

lemma get_path_components_slash:
  "0 \<notin> set p \<Longrightarrow> 0 \<notin> set q \<Longrightarrow>
   get_path_components (Some (p @ ch_slash # q)) =
     get_path_components (Some p) @ get_path_components (Some q)"
  by (simp add: get_path_components_def takeWhile_all split_on_append)

lemma path_text_no_zero: "\<forall>c \<in> set cs. name_ok c \<Longrightarrow> 0 \<notin> set (path_text cs)"
  by (auto simp: path_text_def name_ok_def)

lemma get_path_components_path_text:
  "\<forall>c \<in> set cs. name_ok c \<Longrightarrow> get_path_components (Some (path_text cs)) = cs"
proof (induction cs rule: rev_induct)
  case Nil
  then show ?case by (simp add: get_path_components_def path_text_def)
next
  case (snoc c cs)
  then have "get_path_components (Some (path_text cs @ ch_slash # c)) = cs @ get_path_components (Some c)"
    by (subst get_path_components_slash) (auto simp: path_text_no_zero name_ok_def)
  moreover have "get_path_components (Some c) = [c]"
    using snoc.prems by (simp add: get_path_components_def takeWhile_all split_on_free name_ok_def)
  ultimately show ?case by (simp add: path_text_def)
qed

section \<open>The tree as a map from paths\<close>

text \<open>What a path shows of the tree: the type and the contents of the entry there.\<close>

definition info :: "FileEntry \<Rightarrow> FileType \<times> u8 list" where
  "info e = (file_type e, fdata e)"

definition tree_map :: "FileEntry \<Rightarrow> u8 list list \<Rightarrow> (FileType \<times> u8 list) option" where
  "tree_map e p = map_option info (walk e p)"

lemma set_children_sel [simp]:
  "children (set_children m e) = m" "fname (set_children m e) = fname e"
  "file_type (set_children m e) = file_type e" "fdata (set_children m e) = fdata e"
  "info (set_children m e) = info e"
  by (simp_all add: set_children_def info_def)

lemma set_data_sel [simp]:
  "children (set_data d e) = children e" "fname (set_data d e) = fname e"
  "file_type (set_data d e) = file_type e" "fdata (set_data d e) = d"
  by (simp_all add: set_data_def)

lemma tree_map_Nil [simp]: "tree_map e [] = Some (info e)"
  by (simp add: tree_map_def)

lemma tree_map_Cons:
  "tree_map e (c # cs) = (case bt_get c (children e) of None \<Rightarrow> None | Some ch \<Rightarrow> tree_map ch cs)"
  by (simp add: tree_map_def split: option.split)

lemma walk_append: "walk e (p @ q) = (case walk e p of None \<Rightarrow> None | Some x \<Rightarrow> walk x q)"
  by (induction p arbitrary: e) (auto split: option.split)

lemma tree_map_modify:
  assumes "walk e p = Some x"
  shows "tree_map (modify_at p f e) q =
    (if prefix p q then tree_map (f x) (drop (length p) q) else tree_map e q)"
  using assms
proof (induction p arbitrary: e q)
  case Nil
  then show ?case by simp
next
  case (Cons c cs)
  then obtain ch where ch: "bt_get c (children e) = Some ch" "walk ch cs = Some x"
    by (auto split: option.splits)
  show ?case
  proof (cases q)
    case Nil
    with ch show ?thesis by (simp add: tree_map_def)
  next
    case (Cons d ds)
    with ch Cons.IH [OF ch(2)] show ?thesis
      by (auto simp: tree_map_Cons bt_get_insert)
  qed
qed

lemma walk_modify: "walk e p = Some x \<Longrightarrow> walk (modify_at p f e) p = Some (f x)"
  by (induction p arbitrary: e) (auto simp: bt_get_insert split: option.splits)

text \<open>Adding or removing a child of the entry at \<open>p\<close>, and setting its data, on the map.\<close>

lemma drop_prefix: "prefix p q \<Longrightarrow> q = p @ drop (length p) q"
  by (auto simp: prefix_def)

lemma tree_map_add:
  assumes "walk e p = Some x" "bt_get c (children x) = None" "children n = []"
  shows "tree_map (modify_at p (\<lambda>e. set_children (bt_insert c n (children e)) e) e) =
    (tree_map e)(p @ [c] \<mapsto> info n)"
proof
  fix q
  have below: "tree_map e (p @ r) = tree_map x r" for r
    using assms(1) by (simp add: tree_map_def walk_append)
  show "tree_map (modify_at p (\<lambda>e. set_children (bt_insert c n (children e)) e) e) q =
      ((tree_map e)(p @ [c] \<mapsto> info n)) q"
  proof (cases "prefix p q")
    case True
    then obtain r where q: "q = p @ r" by (auto simp: prefix_def)
    show ?thesis
    proof (cases r)
      case Nil
      with q assms(1) show ?thesis using below [of "[]"] by (simp add: tree_map_modify)
    next
      case (Cons d ds)
      have "tree_map n ds = (if ds = [] then Some (info n) else None)"
        using assms(3) by (cases ds) (auto simp: tree_map_Cons bt_get_def)
      with Cons q assms(1,2) below [of "d # ds"] show ?thesis
        by (auto simp: tree_map_modify tree_map_Cons bt_get_insert)
    qed
  next
    case False
    then have "q \<noteq> p @ [c]" by (auto simp: prefix_def)
    with False assms(1) show ?thesis by (simp add: tree_map_modify)
  qed
qed

lemma tree_map_remove:
  assumes "walk e p = Some x"
  shows "tree_map (modify_at p (\<lambda>e. set_children (bt_remove c (children e)) e) e) q =
    (if prefix (p @ [c]) q then None else tree_map e q)"
proof (cases "prefix p q")
  case True
  then obtain r where q: "q = p @ r" by (auto simp: prefix_def)
  have below: "tree_map e (p @ r) = tree_map x r"
    using assms(1) by (simp add: tree_map_def walk_append)
  with q assms show ?thesis
    by (cases r) (auto simp: tree_map_modify tree_map_Cons bt_get_remove)
next
  case False
  then have "\<not> prefix (p @ [c]) q" by (auto simp: prefix_def)
  with False assms show ?thesis by (simp add: tree_map_modify)
qed

lemma tree_map_write:
  assumes "walk e p = Some x"
  shows "tree_map (modify_at p (set_data d) e) = (tree_map e)(p \<mapsto> (file_type x, d))"
proof
  fix q
  have below: "tree_map e (p @ r) = tree_map x r" for r
    using assms(1) by (simp add: tree_map_def walk_append)
  show "tree_map (modify_at p (set_data d) e) q = ((tree_map e)(p \<mapsto> (file_type x, d))) q"
  proof (cases "prefix p q")
    case True
    then obtain r where "q = p @ r" by (auto simp: prefix_def)
    with assms below [of r] show ?thesis
      by (cases r) (auto simp: tree_map_modify tree_map_Cons info_def)
  next
    case False
    then have "q \<noteq> p" by auto
    with False assms show ?thesis by (simp add: tree_map_modify)
  qed
qed

section \<open>The abstract file system\<close>

type_synonym fs_map = "u8 list list \<Rightarrow> (FileType \<times> u8 list) option"

definition spec_create :: "FileType \<Rightarrow> u8 list list \<Rightarrow> fs_map \<Rightarrow> int \<times> fs_map" where
  "spec_create t cs m =
     (if cs = [] \<or> m (butlast cs) = None then (- 2, m)
      else if m cs \<noteq> None then (- 17, m)
      else (0, m(cs \<mapsto> (t, []))))"

definition spec_delete :: "u8 list list \<Rightarrow> fs_map \<Rightarrow> int \<times> fs_map" where
  "spec_delete cs m =
     (if cs = [] \<or> m cs = None then (- 2, m) else (0, \<lambda>q. if prefix cs q then None else m q))"

definition spec_write :: "u8 list list \<Rightarrow> buffer option \<Rightarrow> u64 \<Rightarrow> fs_map \<Rightarrow> (u64 \<times> fs_map) option" where
  "spec_write cs buf len m =
     (case buf of None \<Rightarrow> Some (0, m)
      | Some b \<Rightarrow>
          (case m cs of
             Some (Regular, _) \<Rightarrow>
               if 2 ^ 63 - 1 < unat len then None
               else Some (len, m(cs \<mapsto> (Regular, map b [0..<unat len])))
           | _ \<Rightarrow> Some (0, m)))"

definition spec_read :: "u8 list list \<Rightarrow> buffer option \<Rightarrow> int \<Rightarrow> fs_map \<Rightarrow> int \<times> buffer option" where
  "spec_read cs buf max_len m =
     (case buf of None \<Rightarrow> (- 22, None)
      | Some b \<Rightarrow>
          if max_len \<le> 0 then (- 22, buf)
          else (case m cs of
                  None \<Rightarrow> (- 2, buf)
                | Some (Directory, _) \<Rightarrow> (- 21, buf)
                | Some (Regular, d) \<Rightarrow>
                    let d' = take (nat max_len) d
                    in (int (length d'), Some (\<lambda>i. if i < length d' then d' ! i else b i))))"

text \<open>The contract on which the system calls and the shell rely: every operation acts on the map from
  paths as its specification says.\<close>

locale file_system =
  fixes view :: "'s \<Rightarrow> fs_map"
    and create :: "cpath \<Rightarrow> 's \<Rightarrow> int \<times> 's"
    and mkdir :: "cpath \<Rightarrow> 's \<Rightarrow> int \<times> 's"
    and unlink :: "cpath \<Rightarrow> 's \<Rightarrow> int \<times> 's"
    and put_data :: "cpath \<Rightarrow> buffer option \<Rightarrow> u64 \<Rightarrow> 's \<Rightarrow> (u64 \<times> 's) option"
    and get_data :: "cpath \<Rightarrow> buffer option \<Rightarrow> int \<Rightarrow> 's \<Rightarrow> int \<times> buffer option"
  assumes view_create: "map_prod id view (create p s) = spec_create Regular (get_path_components p) (view s)"
    and view_mkdir: "map_prod id view (mkdir p s) = spec_create Directory (get_path_components p) (view s)"
    and view_unlink: "map_prod id view (unlink p s) = spec_delete (get_path_components p) (view s)"
    and view_write: "map_option (map_prod id view) (put_data p buf len s) =
      spec_write (get_path_components p) buf len (view s)"
    and view_read: "get_data p buf n s = spec_read (get_path_components p) buf n (view s)"
begin

lemma create_cases:
  assumes "create p s = (r, s')"
  shows "(r, view s') = spec_create Regular (get_path_components p) (view s)"
  using view_create [of p s] assms by simp

lemma write_cases:
  assumes "put_data p buf len s = Some (r, s')"
  shows "spec_write (get_path_components p) buf len (view s) = Some (r, view s')"
  using view_write [of p buf len s] assms by simp

text \<open>A file that was created can be written, and what was written can be get_data back.\<close>

lemma create_write_read:
  assumes "create p s = (0, s1)" "unat len < 2 ^ 63"
  obtains s2 where "put_data p (Some b) len s1 = Some (len, s2)"
    "\<And>n c. unat len \<le> nat n \<Longrightarrow> 0 < n \<Longrightarrow>
       get_data p (Some c) n s2 = (int (unat len), Some (\<lambda>i. if i < unat len then b i else c i))"
proof -
  let ?cs = "get_path_components p"
  have m: "view s1 ?cs = Some (Regular, [])"
    using create_cases [OF assms(1)] by (auto simp: spec_create_def split: if_splits)
  then have "map_option (map_prod id view) (put_data p (Some b) len s1) =
      Some (len, (view s1)(?cs \<mapsto> (Regular, map b [0..<unat len])))"
    using assms(2) view_write [of p "Some b" len s1] by (simp add: spec_write_def)
  then obtain s2 where w: "put_data p (Some b) len s1 = Some (len, s2)"
    and v: "view s2 = (view s1)(?cs \<mapsto> (Regular, map b [0..<unat len]))"
    by auto
  show thesis
  proof (rule that [OF w])
    fix n c
    assume n: "unat len \<le> nat n" "0 < n"
    then have "take (nat n) (map b [0..<unat len]) = map b [0..<unat len]" by simp
    with n v show "get_data p (Some c) n s2 = (int (unat len), Some (\<lambda>i. if i < unat len then b i else c i))"
      by (auto simp: view_read spec_read_def Let_def)
  qed
qed

text \<open>No operation on one path changes what another path shows, unless the other lies below a deleted
  one.\<close>

lemma frame_create: "create p s = (r, s') \<Longrightarrow> q \<noteq> get_path_components p \<Longrightarrow> view s' q = view s q"
  using create_cases [of p s r s'] by (auto simp: spec_create_def split: if_splits)

lemma frame_write:
  "put_data p buf len s = Some (r, s') \<Longrightarrow> q \<noteq> get_path_components p \<Longrightarrow> view s' q = view s q"
  using write_cases [of p buf len s r s']
  by (auto simp: spec_write_def split: option.splits prod.splits FileType.splits if_splits
      dest!: sym [of _ "view s'"])

lemma frame_unlink:
  assumes "unlink p s = (r, s')" "\<not> prefix (get_path_components p) q"
  shows "view s' q = view s q"
  using view_unlink [of p s] assms by (auto simp: spec_delete_def split: if_splits)

end

section \<open>The tree implements it\<close>

definition vfs_map :: "vfs \<Rightarrow> fs_map" where
  "vfs_map fs p = (case ROOT_FS fs of None \<Rightarrow> None | Some root \<Rightarrow> tree_map root p)"

lemma vfs_emit_sel [simp]:
  "ROOT_FS (vfs_emit ev fs) = ROOT_FS fs" "vfs_map (vfs_emit ev fs) = vfs_map fs"
  by (simp_all add: vfs_emit_def vfs_map_def fun_eq_iff)

lemma vfs_map_root: "ROOT_FS fs = Some root \<Longrightarrow> vfs_map fs = tree_map root"
  by (simp add: vfs_map_def fun_eq_iff)

lemma find_entry_Some:
  assumes "find_entry fs path = Some (cs, e)"
  obtains root where "ROOT_FS fs = Some root" "cs = get_path_components path" "walk root cs = Some e"
    "vfs_map fs cs = Some (info e)"
  using assms by (auto simp: find_entry_def vfs_map_def tree_map_def Let_def split: option.splits)

lemma find_entry_None: "find_entry fs path = None \<longleftrightarrow> vfs_map fs (get_path_components path) = None"
  by (simp add: find_entry_def vfs_map_def tree_map_def Let_def split: option.splits)

lemma find_parent_Some:
  assumes "find_parent_and_name fs path = Some (pc, e, c)"
  obtains root where "ROOT_FS fs = Some root" "get_path_components path = pc @ [c]" "walk root pc = Some e"
    "vfs_map fs pc = Some (info e)" "vfs_map fs (pc @ [c]) = map_option info (bt_get c (children e))"
  using assms
  by (auto simp: find_parent_and_name_def vfs_map_def tree_map_def Let_def walk_append bind_eq_Some_conv
      split: option.splits if_splits)

lemma find_parent_None:
  "find_parent_and_name fs path = None \<longleftrightarrow>
     get_path_components path = [] \<or> vfs_map fs (butlast (get_path_components path)) = None"
  by (auto simp: find_parent_and_name_def vfs_map_def tree_map_def Let_def bind_eq_None_conv
      split: option.splits)

lemma modify_root_map:
  "ROOT_FS fs = Some root \<Longrightarrow> vfs_map (modify_root cs f fs) = tree_map (modify_at cs f root)"
  by (simp add: vfs_map_def modify_root_def fun_eq_iff)

lemma vfs_map_insert:
  assumes "find_parent_and_name fs path = Some (pc, e, c)" "bt_get c (children e) = None" "children n = []"
  shows "vfs_map (modify_root pc (\<lambda>e. set_children (bt_insert c n (children e)) e) fs) =
    (vfs_map fs)(get_path_components path \<mapsto> info n)"
  using assms(1)
proof (rule find_parent_Some)
  fix root
  assume "ROOT_FS fs = Some root" "get_path_components path = pc @ [c]" "walk root pc = Some e"
  then show ?thesis
    using tree_map_add [of root pc e c n] assms(2,3) by (simp add: modify_root_map vfs_map_root)
qed

lemma vfs_map_create_file:
  "map_prod id vfs_map (create_file path fs) = spec_create Regular (get_path_components path) (vfs_map fs)"
proof (cases "find_parent_and_name fs path")
  case None
  then show ?thesis using find_parent_None [of fs path] by (auto simp: create_file_def spec_create_def)
next
  case (Some a)
  obtain pc e c where a: "a = (pc, e, c)" by (cases a)
  with Some have s: "find_parent_and_name fs path = Some (pc, e, c)" by simp
  then show ?thesis
  proof (rule find_parent_Some)
    assume "get_path_components path = pc @ [c]" "vfs_map fs pc = Some (info e)"
      "vfs_map fs (pc @ [c]) = map_option info (bt_get c (children e))"
    with vfs_map_insert [OF s, of "new_file c"] s show ?thesis
      by (auto simp: create_file_def spec_create_def bt_contains_key_get new_file_def info_def)
  qed
qed

lemma vfs_map_create_directory:
  "map_prod id vfs_map (create_directory path fs) =
     spec_create Directory (get_path_components path) (vfs_map fs)"
proof (cases "find_parent_and_name fs path")
  case None
  then show ?thesis using find_parent_None [of fs path] by (auto simp: create_directory_def spec_create_def)
next
  case (Some a)
  obtain pc e c where a: "a = (pc, e, c)" by (cases a)
  with Some have s: "find_parent_and_name fs path = Some (pc, e, c)" by simp
  then show ?thesis
  proof (rule find_parent_Some)
    assume "get_path_components path = pc @ [c]" "vfs_map fs pc = Some (info e)"
      "vfs_map fs (pc @ [c]) = map_option info (bt_get c (children e))"
    with vfs_map_insert [OF s, of "new_directory c"] s show ?thesis
      by (auto simp: create_directory_def spec_create_def bt_contains_key_get new_directory_def info_def)
  qed
qed

lemma tree_map_prefix: "tree_map e (p @ q) \<noteq> None \<Longrightarrow> tree_map e p \<noteq> None"
  by (auto simp: tree_map_def walk_append split: option.splits)

lemma vfs_map_prefix: "vfs_map fs (p @ q) \<noteq> None \<Longrightarrow> vfs_map fs p \<noteq> None"
  using tree_map_prefix by (fastforce simp: vfs_map_def split: option.splits)

lemma vfs_map_delete_file:
  "map_prod id vfs_map (delete_file path fs) = spec_delete (get_path_components path) (vfs_map fs)"
proof (cases "find_parent_and_name fs path")
  case None
  then have "get_path_components path = [] \<or> vfs_map fs (get_path_components path) = None"
    unfolding find_parent_None by (metis vfs_map_prefix append_butlast_last_id)
  with None show ?thesis by (auto simp: delete_file_def spec_delete_def)
next
  case (Some a)
  obtain pc e c where a: "a = (pc, e, c)" by (cases a)
  with Some have s: "find_parent_and_name fs path = Some (pc, e, c)" by simp
  then show ?thesis
  proof (rule find_parent_Some)
    fix root
    assume r: "ROOT_FS fs = Some root" "walk root pc = Some e"
      and "get_path_components path = pc @ [c]" "vfs_map fs pc = Some (info e)"
      "vfs_map fs (pc @ [c]) = map_option info (bt_get c (children e))"
    with tree_map_remove [of root pc e c] s show ?thesis
      by (auto simp: delete_file_def spec_delete_def modify_root_map vfs_map_root fun_eq_iff)
  qed
qed

lemma vfs_map_write_file:
  "map_option (map_prod id vfs_map) (write_file path buf len fs) =
     spec_write (get_path_components path) buf len (vfs_map fs)"
proof (cases buf)
  case None
  then show ?thesis by (simp add: write_file_def spec_write_def)
next
  case (Some b)
  show ?thesis
  proof (cases "find_entry fs path")
    case None
    with Some find_entry_None [of fs path] show ?thesis by (simp add: write_file_def spec_write_def)
  next
    case (Some a)
    obtain cs e where a: "a = (cs, e)" by (cases a)
    with Some have s: "find_entry fs path = Some (cs, e)" by simp
    then show ?thesis
    proof (rule find_entry_Some)
      fix root
      assume r: "ROOT_FS fs = Some root" "cs = get_path_components path" "walk root cs = Some e"
        "vfs_map fs cs = Some (info e)"
      with s \<open>buf = Some b\<close> tree_map_write [OF r(3), of "map b [0..<unat len]"] show ?thesis
        by (auto simp: write_file_def spec_write_def info_def modify_root_map vfs_map_root
            split: FileType.split)
    qed
  qed
qed

lemma vfs_map_read_file:
  "read_file path buf n fs = spec_read (get_path_components path) buf n (vfs_map fs)"
proof (cases "find_entry fs path")
  case None
  with find_entry_None [of fs path] show ?thesis
    by (auto simp: read_file_def spec_read_def split: option.split)
next
  case (Some a)
  obtain cs e where a: "a = (cs, e)" by (cases a)
  with Some have s: "find_entry fs path = Some (cs, e)" by simp
  then show ?thesis
  proof (rule find_entry_Some)
    assume "cs = get_path_components path" "vfs_map fs cs = Some (info e)"
    with s show ?thesis
      by (auto simp: read_file_def spec_read_def info_def Let_def split: option.split FileType.split)
  qed
qed

interpretation vfs_fs: file_system vfs_map rust_vfs_create_file rust_vfs_mkdir rust_vfs_unlink
  rust_vfs_write rust_vfs_read
  by unfold_locales
    (simp_all add: rust_vfs_create_file_def rust_vfs_mkdir_def rust_vfs_unlink_def rust_vfs_write_def
      rust_vfs_read_def vfs_map_create_file vfs_map_create_directory vfs_map_delete_file
      vfs_map_write_file vfs_map_read_file)

section \<open>Well-formed trees\<close>

text \<open>Names are distinct and in order, each child is stored under its own name, names are path
  components, and directories hold no data.\<close>

function wf_entry :: "FileEntry \<Rightarrow> bool" where
  "wf_entry (FileEntry n t d m) \<longleftrightarrow>
     bt_ok m \<and> (t = Directory \<longrightarrow> d = []) \<and> (\<forall>(k, e) \<in> set m. name_ok k \<and> fname e = k \<and> wf_entry e)"
  by pat_completeness auto
termination
proof (relation "measure size")
  fix m :: "(u8 list \<times> FileEntry) list" and n t d x k e
  assume "x \<in> set m" "(k, e) = x"
  then have "size (snd x) < Suc (size_list (size_prod (\<lambda>_. 0) size) m)"
    by (induction m) auto
  with \<open>(k, e) = x\<close> show "(e, FileEntry n t d m) \<in> measure size" by auto
qed simp

declare wf_entry.simps [simp del]

lemma wf_entry_iff:
  "wf_entry e \<longleftrightarrow> bt_ok (children e) \<and> (file_type e = Directory \<longrightarrow> fdata e = []) \<and>
     (\<forall>(k, c) \<in> set (children e). name_ok k \<and> fname c = k \<and> wf_entry c)"
  by (cases e) (simp add: wf_entry.simps)

lemma wf_entry_child:
  "wf_entry e \<Longrightarrow> bt_get c (children e) = Some ch \<Longrightarrow> wf_entry ch \<and> fname ch = c \<and> name_ok c"
  by (subst (asm) wf_entry_iff) (auto dest!: bt_get_mem)

lemma wf_entry_put:
  "wf_entry e \<Longrightarrow> wf_entry ch \<Longrightarrow> fname ch = c \<Longrightarrow> name_ok c \<Longrightarrow>
   wf_entry (set_children (bt_insert c ch (children e)) e)"
  by (subst wf_entry_iff, subst (asm) (1) wf_entry_iff)
     (auto simp: bt_ok_insert dest!: bt_insert_mem)

lemma wf_entry_remove: "wf_entry e \<Longrightarrow> wf_entry (set_children (bt_remove c (children e)) e)"
  by (subst wf_entry_iff, subst (asm) wf_entry_iff) (auto simp: bt_ok_remove dest!: bt_remove_mem)

lemma wf_modify_at:
  assumes "wf_entry e" "walk e p = Some x" "wf_entry x \<Longrightarrow> wf_entry (f x)" "fname (f x) = fname x"
  shows "wf_entry (modify_at p f e) \<and> fname (modify_at p f e) = fname e"
  using assms(1,2)
proof (induction p arbitrary: e)
  case Nil
  with assms show ?case by simp
next
  case (Cons c cs)
  then obtain ch where ch: "bt_get c (children e) = Some ch" "walk ch cs = Some x"
    by (auto split: option.splits)
  from wf_entry_child [OF Cons.prems(1) ch(1)] Cons.IH [of ch] ch Cons.prems show ?case
    by (simp add: wf_entry_put)
qed

definition wf_vfs :: "vfs \<Rightarrow> bool" where
  "wf_vfs fs \<longleftrightarrow> (case ROOT_FS fs of None \<Rightarrow> True | Some root \<Rightarrow> wf_entry root \<and> file_type root = Directory)"

lemma wf_vfs_emit [simp]: "wf_vfs (vfs_emit ev fs) = wf_vfs fs"
  by (simp add: wf_vfs_def)

lemma file_type_modify_at:
  "(\<And>e. file_type (f e) = file_type e) \<Longrightarrow> file_type (modify_at p f e) = file_type e"
  by (cases p) (auto split: option.split)

lemma wf_modify_root:
  assumes "wf_vfs fs" "ROOT_FS fs = Some root" "walk root cs = Some x" "wf_entry x \<Longrightarrow> wf_entry (f x)"
    "\<And>e. fname (f e) = fname e" "\<And>e. file_type (f e) = file_type e"
  shows "wf_vfs (modify_root cs f fs)"
  using assms wf_modify_at [of root cs x f] file_type_modify_at [of f cs root]
  by (simp add: wf_vfs_def modify_root_def)

lemma wf_new: "wf_entry (new_file c)" "wf_entry (new_directory c)"
  by (simp_all add: new_file_def new_directory_def wf_entry.simps bt_ok_def)

lemma wf_insert_child:
  assumes "wf_vfs fs" "find_parent_and_name fs path = Some (pc, e, c)" "wf_entry n" "fname n = c"
  shows "wf_vfs (modify_root pc (\<lambda>e. set_children (bt_insert c n (children e)) e) fs)"
  using assms(2)
proof (rule find_parent_Some)
  fix root
  assume r: "ROOT_FS fs = Some root" "get_path_components path = pc @ [c]" "walk root pc = Some e"
  then have "name_ok c" using get_path_components_ok [of c path] by simp
  with assms r show ?thesis by (intro wf_modify_root [of fs root pc e]) (auto simp: wf_entry_put)
qed

lemma wf_create_file: "wf_vfs fs \<Longrightarrow> wf_vfs (snd (create_file path fs))"
  using wf_insert_child [of fs path _ _ _ "new_file _"] wf_new
  by (auto simp: create_file_def new_file_def split: option.split)

lemma wf_create_directory: "wf_vfs fs \<Longrightarrow> wf_vfs (snd (create_directory path fs))"
  using wf_insert_child [of fs path _ _ _ "new_directory _"] wf_new
  by (auto simp: create_directory_def new_directory_def split: option.split)

lemma wf_delete_file:
  assumes "wf_vfs fs"
  shows "wf_vfs (snd (delete_file path fs))"
proof (cases "find_parent_and_name fs path")
  case (Some a)
  obtain pc e c where a: "a = (pc, e, c)" by (cases a)
  from Some [unfolded a] obtain root where "ROOT_FS fs = Some root" "walk root pc = Some e"
    by (rule find_parent_Some)
  with assms have "wf_vfs (modify_root pc (\<lambda>e. set_children (bt_remove c (children e)) e) fs)"
    by (intro wf_modify_root [of fs root pc e]) (auto simp: wf_entry_remove)
  with Some a assms show ?thesis by (simp add: delete_file_def)
qed (use assms in \<open>simp add: delete_file_def\<close>)

lemma wf_write_file:
  assumes "wf_vfs fs" "write_file path buf len fs = Some (r, fs')"
  shows "wf_vfs fs'"
proof (cases "\<exists>cs e. buf \<noteq> None \<and> find_entry fs path = Some (cs, e) \<and> file_type e = Regular")
  case True
  then obtain cs e b where s: "find_entry fs path = Some (cs, e)" "file_type e = Regular" "buf = Some b"
    by auto
  from s(1) obtain root where r: "ROOT_FS fs = Some root" "walk root cs = Some e" by (rule find_entry_Some)
  have "wf_entry (set_data d e)" if "wf_entry e" for d
    using that s(2) by (subst wf_entry_iff, subst (asm) wf_entry_iff) simp
  with r assms(1) have "wf_vfs (modify_root cs (set_data d) fs)" for d
    by (intro wf_modify_root [of fs root cs e]) auto
  with assms s show ?thesis by (auto simp: write_file_def split: if_splits)
next
  case False
  with assms show ?thesis
    by (auto simp: write_file_def split: option.splits FileType.splits)
qed

lemma vfs_emit_fold: "fold vfs_emit evs fs = fs\<lparr>vfs_out := vfs_out fs @ evs\<rparr>"
  by (induction evs arbitrary: fs) (auto simp: vfs_emit_def)

lemma wf_list_directory: "wf_vfs fs \<Longrightarrow> wf_vfs (snd (list_directory path fs))"
  by (auto simp: list_directory_def Let_def vfs_emit_fold wf_vfs_def
      split: option.splits FileType.splits)

text \<open>Everything the exported functions can do to the file system.\<close>

inductive vfs_reach :: "vfs \<Rightarrow> bool" where
  boot: "vfs_reach \<lparr>ROOT_FS = None, vfs_out = []\<rparr>"
| init: "vfs_reach fs \<Longrightarrow> vfs_reach (rust_vfs_init fs)"
| create: "vfs_reach fs \<Longrightarrow> rust_vfs_create_file p fs = (r, fs') \<Longrightarrow> vfs_reach fs'"
| mkdir: "vfs_reach fs \<Longrightarrow> rust_vfs_mkdir p fs = (r, fs') \<Longrightarrow> vfs_reach fs'"
| unlink: "vfs_reach fs \<Longrightarrow> rust_vfs_unlink p fs = (r, fs') \<Longrightarrow> vfs_reach fs'"
| store: "vfs_reach fs \<Longrightarrow> rust_vfs_write p buf len fs = Some (n, fs') \<Longrightarrow> vfs_reach fs'"
| ls: "vfs_reach fs \<Longrightarrow> rust_vfs_ls p fs = (r, fs') \<Longrightarrow> vfs_reach fs'"

lemma vfs_reach_wf: "vfs_reach fs \<Longrightarrow> wf_vfs fs"
proof (induction rule: vfs_reach.induct)
  case boot
  then show ?case by (simp add: wf_vfs_def)
next
  case (init fs)
  then show ?case by (simp add: rust_vfs_init_def vfs_init_def wf_vfs_def wf_new) (simp add: new_directory_def)
next
  case (create fs p r fs')
  then show ?case using wf_create_file [of fs p] by (simp add: rust_vfs_create_file_def)
next
  case (mkdir fs p r fs')
  then show ?case using wf_create_directory [of fs p] by (simp add: rust_vfs_mkdir_def)
next
  case (unlink fs p r fs')
  then show ?case using wf_delete_file [of fs p] by (simp add: rust_vfs_unlink_def)
next
  case (store fs p buf len n fs')
  then show ?case using wf_write_file by (simp add: rust_vfs_write_def)
next
  case (ls fs p r fs')
  then show ?case using wf_list_directory [of fs p] by (simp add: rust_vfs_ls_def)
qed

section \<open>The listing\<close>

lemma line_write_pad:
  assumes "length acc \<le> 256" "length acc + length s < 256"
  shows "line_write s (acc @ replicate (256 - length acc) 0, length acc) =
    ((acc @ s) @ replicate (256 - length (acc @ s)) 0, length (acc @ s))"
  using assms by (simp add: line_write_def)

lemma fold_line_write:
  "length acc + length (concat fs) < 256 \<Longrightarrow>
   fold line_write fs (acc @ replicate (256 - length acc) 0, length acc) =
     ((acc @ concat fs) @ replicate (256 - length (acc @ concat fs)) 0, length (acc @ concat fs))"
proof (induction fs arbitrary: acc)
  case (Cons f fs)
  then show ?case using line_write_pad [of acc f] Cons.IH [of "acc @ f"] by simp
qed simp

lemma fold_line_write_empty:
  "length (concat fs) < 256 \<Longrightarrow>
   fold line_write fs (replicate 256 0, 0) =
     (concat fs @ replicate (256 - length (concat fs)) 0, length (concat fs))"
  using fold_line_write [of "[]" fs] by simp

lemma size_digits_dec_text:
  "0 < t \<Longrightarrow> t < 10 ^ i \<Longrightarrow>
   size_digits i (replicate i 0 @ ws) t =
     (replicate (i - length (dec_text t)) 0 @ dec_text t @ ws, i - length (dec_text t))"
proof (induction i arbitrary: t ws)
  case (Suc i)
  have upd: "(replicate (Suc i) 0 @ ws)[i := d] = replicate i 0 @ d # ws" for d :: u8
    using arr_set_replicate [of i 0 ws d] by (auto simp: arr_set_def split: if_splits)
  have step: "size_digits (Suc i) (replicate (Suc i) 0 @ ws) t =
      size_digits i (replicate i 0 @ (ch_zero + of_nat (t mod 10)) # ws) (t div 10)"
    using Suc.prems upd by (subst size_digits.simps) simp
  show ?case
  proof (cases "t < 10")
    case True
    then have "size_digits i (replicate i 0 @ (ch_zero + of_nat (t mod 10)) # ws) (t div 10) =
        (replicate i 0 @ (ch_zero + of_nat t) # ws, i)"
      by (subst size_digits.simps) simp
    with True step show ?thesis by (simp add: dec_text.simps [of t])
  next
    case False
    then have "0 < t div 10" "t div 10 < 10 ^ i" using Suc.prems by auto
    from Suc.IH [OF this] step False show ?thesis by (simp add: dec_text.simps [of t])
  qed
qed simp

lemma size_str_dec_text: "sz < 10 ^ 10 \<Longrightarrow> size_str sz = dec_text sz"
proof (cases "sz = 0")
  case True
  then show ?thesis by (simp add: size_str_def dec_text.simps [of 0] numeral_eq_Suc)
next
  case False
  assume "sz < 10 ^ 10"
  with False size_digits_dec_text [of sz 10 "[]"] show ?thesis
    by (simp add: size_str_def)
qed

text \<open>The text of a listed entry: type, fixed fields, the size right-aligned in ten columns, name.\<close>

definition ls_text :: "u8 list \<Rightarrow> FileEntry \<Rightarrow> u8 list" where
  "ls_text name child =
     (case file_type child of Directory \<Rightarrow> bytes ''d'' | Regular \<Rightarrow> bytes ''-'') @
     bytes ''  rwxr-xr-x  1  root  root  '' @
     replicate (10 - length (dec_text (length (fdata child)))) 32 @ dec_text (length (fdata child)) @
     bytes ''  Jan  1 00:00  '' @ name_bytes name @ [ch_newline]"

lemma bytes_append: "bytes (s @ t) = bytes s @ bytes t"
  by (simp add: bytes_def)

lemma list_line_text:
  assumes "length (fdata child) < 10 ^ 10" "length (name_bytes name) \<le> 199"
  shows "\<exists>k. list_line name child = ls_text name child @ replicate k 0"
proof -
  let ?sz = "dec_text (length (fdata child))"
  let ?tc = "case file_type child of Directory \<Rightarrow> of_char CHR ''d'' | Regular \<Rightarrow> of_char CHR ''-''"
  let ?fields = "[[?tc], bytes ''  '', bytes ''rwxr-xr-x'', bytes ''  '', bytes ''1'', bytes ''  '',
      bytes ''root'', bytes ''  '', bytes ''root'', bytes ''  '']
     @ replicate (10 - length ?sz) (bytes '' '')
     @ [?sz, bytes ''  '', bytes ''Jan  1 00:00'', bytes ''  '', name_bytes name, [ch_newline]]"
  have sz: "length ?sz \<le> 10" using length_dec_text_le [OF assms(1)] by simp
  have pad: "concat (replicate n (bytes '' '')) = replicate n 32" for n
    by (induction n) (auto simp: bytes_def)
  have cat: "concat ?fields = ls_text name child"
    by (simp add: ls_text_def pad) (simp add: bytes_def split: FileType.split)
  have "length (ls_text name child) < 256"
    using sz assms(2) by (simp add: ls_text_def split: FileType.split)
  then have "length (concat ?fields) < 256" unfolding cat .
  from fold_line_write_empty [OF this]
  have "fold line_write ?fields (replicate 256 0, 0) =
      (ls_text name child @ replicate (256 - length (ls_text name child)) 0, length (ls_text name child))"
    unfolding cat .
  then have "list_line name child = (ls_text name child @ replicate (256 - length (ls_text name child)) 0)
      [length (ls_text name child) := 0]"
    unfolding list_line_def Let_def size_str_dec_text [OF assms(1)] by (simp only: prod.case)
  then have "list_line name child = ls_text name child @ replicate (256 - length (ls_text name child)) 0"
    by (cases "256 - length (ls_text name child)") (simp_all add: list_update_append list_update_beyond)
  then show ?thesis by blast
qed

lemma utf8_char_nonzero: "c \<noteq> 0 \<Longrightarrow> 0 \<notin> set (utf8_char c)"
proof -
  have "(0xC0 OR x :: u8) \<noteq> 0" "(0x80 OR x :: u8) \<noteq> 0" for x
    by (simp_all add: or_eq_0_iff)
  then show "c \<noteq> 0 \<Longrightarrow> 0 \<notin> set (utf8_char c)" by (auto simp: utf8_char_def)
qed

lemma ls_text_nonzero: "0 \<notin> set name \<Longrightarrow> 0 \<notin> set (ls_text name child)"
proof -
  assume "0 \<notin> set name"
  then have "0 \<notin> set (name_bytes name)"
    using utf8_char_nonzero by (auto simp: name_bytes_def) metis
  moreover have "0 \<notin> set (dec_text n)" for n
    using dec_text_digits [of 0 n] by auto
  ultimately show ?thesis by (auto simp: ls_text_def bytes_def split: FileType.splits)
qed

lemma takeWhile_pad: "0 \<notin> set xs \<Longrightarrow> takeWhile (\<lambda>b. b \<noteq> 0) (xs @ replicate k 0) = xs" for xs :: "u8 list"
  by (cases k) (auto simp: takeWhile_append)

lemma wf_walk: "wf_entry e \<Longrightarrow> walk e p = Some x \<Longrightarrow> wf_entry x"
  by (induction p arbitrary: e) (auto split: option.splits dest: wf_entry_child)

lemma wf_entryD:
  assumes "wf_entry e"
  shows "bt_ok (children e)" "(k, c) \<in> set (children e) \<Longrightarrow> name_ok k"
  using assms wf_entry_iff [of e] by auto

lemma wf_find_entry: "wf_vfs fs \<Longrightarrow> find_entry fs path = Some (cs, e) \<Longrightarrow> wf_entry e"
  by (erule find_entry_Some) (auto simp: wf_vfs_def intro: wf_walk)

lemma list_directory_text:
  assumes "find_entry fs path = Some (cs, e)" "file_type e = Directory"
    and "\<forall>(name, child) \<in> set (children e). 0 \<notin> set name \<and> length (name_bytes name) \<le> 199 \<and>
      length (fdata child) < 10 ^ 10"
  shows "list_directory path fs = (0, fs\<lparr>vfs_out := vfs_out fs @
      [Sys_cli, Vga_print ls_header, Serial_write ls_header, Vga_print ls_separator, Serial_write ls_separator]
      @ map (\<lambda>(name, child). Vga_print (ls_text name child)) (children e) @ [Sys_sti]\<rparr>)"
proof -
  have "takeWhile (\<lambda>b. b \<noteq> 0) (list_line name child) = ls_text name child"
    if nc: "(name, child) \<in> set (children e)" for name child
  proof -
    have ok: "0 \<notin> set name" "length (name_bytes name) \<le> 199" "length (fdata child) < 10 ^ 10"
      using assms(3) nc by auto
    from list_line_text [OF ok(3,2)] obtain k where "list_line name child = ls_text name child @ replicate k 0"
      by blast
    with ls_text_nonzero [OF ok(1)] show ?thesis by (simp add: takeWhile_pad)
  qed
  then have "map (\<lambda>(name, child). Vga_print (takeWhile (\<lambda>b. b \<noteq> 0) (list_line name child))) (children e) =
      map (\<lambda>(name, child). Vga_print (ls_text name child)) (children e)"
    by auto
  with assms(1,2) show ?thesis
    by (simp add: list_directory_def Let_def vfs_emit_fold)
qed

text \<open>A file system with the file \<open>/a\<close> and the directory \<open>/d\<close> for the examples.\<close>

definition demo_fs :: vfs where
  "demo_fs = snd (rust_vfs_mkdir (Some (bytes ''/d'')) (snd (rust_vfs_create_file (Some (bytes ''/a''))
     (rust_vfs_init \<lparr>ROOT_FS = None, vfs_out = []\<rparr>))))"

lemma demo_fs_tree:
  "demo_fs = \<lparr>ROOT_FS = Some (FileEntry (bytes ''/'') Directory []
     [(bytes ''a'', new_file (bytes ''a'')), (bytes ''d'', new_directory (bytes ''d''))]), vfs_out = []\<rparr>"
  by (simp add: demo_fs_def rust_vfs_mkdir_def rust_vfs_create_file_def rust_vfs_init_def vfs_init_def
      create_directory_def create_file_def find_parent_and_name_def get_path_components_def bytes_def
      new_directory_def new_file_def bt_contains_key_def modify_root_def set_children_def)

lemma demo_fs_reach: "vfs_reach demo_fs"
  unfolding demo_fs_def
  by (rule vfs_reach.mkdir [OF _ prod.collapse [symmetric]],
      rule vfs_reach.create [OF _ prod.collapse [symmetric]], rule vfs_reach.init, rule vfs_reach.boot)

section \<open>Properties\<close>

text \<open>C18: Every file system reached from boot by the exported functions is well formed: each directory
  stores its children under their own names, without duplicates and in ascending order; names are
  path components; directories hold no data; the root is a directory.\<close>

theorem vfs_reach_well_formed:
  assumes "vfs_reach fs"
  shows "wf_vfs fs \<and> (\<forall>p cs e. find_entry fs p = Some (cs, e) \<longrightarrow> sorted_wrt (<) (map fst (children e)))"
  using vfs_reach_wf [OF assms] wf_entryD(1) [OF wf_find_entry, unfolded bt_ok_def] by blast

theorem vfs_reach_well_formed_witness:
  "wf_vfs demo_fs \<and> map fst (children (the (ROOT_FS demo_fs))) = [bytes ''a'', bytes ''d'']"
  using vfs_reach_well_formed [OF demo_fs_reach] by (simp add: demo_fs_tree)

text \<open>C3: The tree operations refine a map from component lists to type and contents. Creating a file or a
  directory adds one binding, or fails with -2 when the parent is missing and -17 when the name is
  taken; deleting removes the entry and everything below it, or fails with -2; writing replaces the
  contents of a regular file and returns the length, returns 0 without a change otherwise, and
  panics only on a length above \<open>isize::MAX\<close>; reading copies a prefix of the contents or fails with
  -22, -2 or -21.\<close>

theorem vfs_refines_map:
  "map_prod id vfs_map (create_file path fs) = spec_create Regular (get_path_components path) (vfs_map fs) \<and>
   map_prod id vfs_map (create_directory path fs) = spec_create Directory (get_path_components path) (vfs_map fs) \<and>
   map_prod id vfs_map (delete_file path fs) = spec_delete (get_path_components path) (vfs_map fs) \<and>
   map_option (map_prod id vfs_map) (write_file path buf len fs) =
     spec_write (get_path_components path) buf len (vfs_map fs) \<and>
   read_file path buf n fs = spec_read (get_path_components path) buf n (vfs_map fs)"
  by (simp add: vfs_map_create_file vfs_map_create_directory vfs_map_delete_file vfs_map_write_file
      vfs_map_read_file)

text \<open>C19: What is written to a file that was just created is read back: the write returns its length, and a
  read with room for it returns that length and puts exactly the written bytes into the buffer.\<close>

theorem vfs_write_read:
  assumes "rust_vfs_create_file p fs = (0, fs1)" "unat len < 2 ^ 63" "int (unat len) \<le> n" "0 < n"
  shows "\<exists>fs2. rust_vfs_write p (Some b) len fs1 = Some (len, fs2) \<and>
    rust_vfs_read p (Some c) n fs2 = (int (unat len), Some (\<lambda>i. if i < unat len then b i else c i))"
proof -
  obtain fs2 where "rust_vfs_write p (Some b) len fs1 = Some (len, fs2)"
    "\<And>n c. unat len \<le> nat n \<Longrightarrow> 0 < n \<Longrightarrow>
       rust_vfs_read p (Some c) n fs2 = (int (unat len), Some (\<lambda>i. if i < unat len then b i else c i))"
    using vfs_fs.create_write_read [OF assms(1,2), of b] by blast
  moreover have "unat len \<le> nat n" using assms(3) by linarith
  ultimately show ?thesis using assms(4) by blast
qed

theorem vfs_write_read_witness:
  "\<exists>fs1 fs2. rust_vfs_create_file (Some (bytes ''/d/x'')) demo_fs = (0, fs1) \<and>
     rust_vfs_write (Some (bytes ''/d/x'')) (Some (\<lambda>i. of_nat i)) 3 fs1 = Some (3, fs2) \<and>
     fst (rust_vfs_read (Some (bytes ''/d/x'')) (Some (\<lambda>_. 0)) 100 fs2) = 3"
proof -
  have "fst (rust_vfs_create_file (Some (bytes ''/d/x'')) demo_fs) = 0"
    by (simp add: demo_fs_tree rust_vfs_create_file_def create_file_def find_parent_and_name_def
        get_path_components_def bytes_def bt_get_def new_directory_def bt_contains_key_def)
  then obtain fs1 where "rust_vfs_create_file (Some (bytes ''/d/x'')) demo_fs = (0, fs1)"
    by (metis prod.collapse)
  from vfs_write_read [OF this, of 3 100 "\<lambda>i. of_nat i" "\<lambda>_. 0"] this show ?thesis by auto
qed

text \<open>Paths are read modulo repeated, leading and trailing slashes: joining two texts with a slash
  concatenates their components, every component is a legal name, and the canonical text of a list of
  legal names is read back as that list.\<close>

theorem path_components_roundtrip:
  "(\<forall>c \<in> set (get_path_components path). name_ok c) \<and>
   (0 \<notin> set p \<longrightarrow> 0 \<notin> set q \<longrightarrow> get_path_components (Some (p @ ch_slash # q)) =
      get_path_components (Some p) @ get_path_components (Some q)) \<and>
   ((\<forall>c \<in> set cs. name_ok c) \<longrightarrow> get_path_components (Some (path_text cs)) = cs)"
  using get_path_components_ok [of _ path] get_path_components_slash [of p q]
    get_path_components_path_text [of cs] by blast

theorem path_components_roundtrip_witness:
  "get_path_components (Some (bytes ''/usr//bin/'')) = [bytes ''usr'', bytes ''bin''] \<and>
   get_path_components (Some (path_text [bytes ''usr'', bytes ''bin''])) = [bytes ''usr'', bytes ''bin'']"
proof -
  have "\<forall>c \<in> set [bytes ''usr'', bytes ''bin'']. name_ok c" by (simp add: name_ok_def bytes_def)
  then show ?thesis
    using path_components_roundtrip [of None "[]" "[]" "[bytes ''usr'', bytes ''bin'']"]
    by (simp add: get_path_components_def bytes_def)
qed

text \<open>Listing a directory prints, between disabling and enabling interrupts, the header and one line per
  child in name order, each with the type letter, the size in decimal right-aligned in ten columns
  and the UTF-8 text of the name, as long as the name has at most 199 bytes and the size at most ten
  digits; it changes nothing in the tree and returns 0.\<close>

theorem list_directory_output:
  assumes "vfs_reach fs" "find_entry fs path = Some (cs, e)" "file_type e = Directory"
    and "\<forall>(name, child) \<in> set (children e). length (name_bytes name) \<le> 199 \<and> length (fdata child) < 10 ^ 10"
  shows "rust_vfs_ls path fs = (0, fs\<lparr>vfs_out := vfs_out fs @
      [Sys_cli, Vga_print ls_header, Serial_write ls_header, Vga_print ls_separator, Serial_write ls_separator]
      @ map (\<lambda>(name, child). Vga_print (ls_text name child)) (children e) @ [Sys_sti]\<rparr>)"
proof -
  have "wf_entry e" using vfs_reach_wf [OF assms(1)] assms(2) by (rule wf_find_entry)
  then have "\<forall>(name, child) \<in> set (children e). 0 \<notin> set name"
    using wf_entryD(2) by (auto simp: name_ok_def)
  with assms show ?thesis
    unfolding rust_vfs_ls_def by (intro list_directory_text) auto
qed

theorem list_directory_output_witness:
  "rust_vfs_ls (Some (bytes ''/'')) demo_fs = (0, demo_fs\<lparr>vfs_out :=
      [Sys_cli, Vga_print ls_header, Serial_write ls_header, Vga_print ls_separator, Serial_write ls_separator,
       Vga_print (bytes ''-  rwxr-xr-x  1  root  root           0  Jan  1 00:00  a'' @ [ch_newline]),
       Vga_print (bytes ''d  rwxr-xr-x  1  root  root           0  Jan  1 00:00  d'' @ [ch_newline]), Sys_sti]\<rparr>)"
proof -
  have e: "find_entry demo_fs (Some (bytes ''/'')) = Some ([], FileEntry (bytes ''/'') Directory []
     [(bytes ''a'', new_file (bytes ''a'')), (bytes ''d'', new_directory (bytes ''d''))])"
    by (simp add: demo_fs_tree find_entry_def get_path_components_def bytes_def)
  have a: "ls_text (bytes ''a'') (new_file (bytes ''a'')) =
      bytes ''-  rwxr-xr-x  1  root  root           0  Jan  1 00:00  a'' @ [ch_newline]"
    by code_simp
  have d: "ls_text (bytes ''d'') (new_directory (bytes ''d'')) =
      bytes ''d  rwxr-xr-x  1  root  root           0  Jan  1 00:00  d'' @ [ch_newline]"
    by code_simp
  have "length (name_bytes (bytes ''a'')) \<le> 199" "length (name_bytes (bytes ''d'')) \<le> 199"
    by (simp_all add: name_bytes_def utf8_char_def bytes_def)
  with list_directory_output [OF demo_fs_reach e] show ?thesis
    by (simp add: a d) (simp add: demo_fs_tree new_file_def new_directory_def)
qed

text \<open>Creation does not look at the type of the parent: below a regular file \<open>p\<close> a new file can be
  created, and it is then found there.\<close>

theorem create_below_regular_file:
  assumes "vfs_map fs (butlast (get_path_components path)) = Some (Regular, d)"
    "get_path_components path \<noteq> []" "vfs_map fs (get_path_components path) = None"
  shows "\<exists>fs'. create_file path fs = (0, fs') \<and> vfs_map fs' (get_path_components path) = Some (Regular, [])"
  using vfs_map_create_file [of path fs] assms
  by (cases "create_file path fs") (simp add: spec_create_def)

theorem create_below_regular_file_witness:
  "\<exists>fs'. create_file (Some (bytes ''/a/b'')) demo_fs = (0, fs') \<and>
     vfs_map demo_fs [bytes ''a''] = Some (Regular, []) \<and>
     vfs_map fs' [bytes ''a'', bytes ''b''] = Some (Regular, [])"
proof -
  have c: "get_path_components (Some (bytes ''/a/b'')) = [bytes ''a'', bytes ''b'']"
    by (simp add: get_path_components_def bytes_def)
  have "vfs_map demo_fs [bytes ''a''] = Some (Regular, [])" "vfs_map demo_fs [bytes ''a'', bytes ''b''] = None"
    by (simp_all add: demo_fs_tree vfs_map_def tree_map_Cons bt_get_def bytes_def new_file_def info_def)
  with create_below_regular_file [of demo_fs "Some (bytes ''/a/b'')" "[]"] c show ?thesis by simp
qed

end
