(* ===== verification/Serial_Port.thy ===== *)
theory Serial_Port
  imports Kernel_Prelude
begin

text \<open>
  The serial port (\<^verbatim>\<open>kernel-rs/src/serial.rs\<close>). The UART is a stream of line-status values, one per
  read of the status register, and the record of the port writes the driver makes. The driver spins
  on the status register, so a write may never return: \<open>None\<close>.
\<close>

section \<open>Definitions\<close>

definition COM1_PORT :: u16 where
  "COM1_PORT = 0x3F8"

record uart =
  line_status :: "nat \<Rightarrow> u8"
  status_reads :: nat
  port_writes :: "(u16 \<times> u8) list"

definition uart_outb :: "u16 \<Rightarrow> u8 \<Rightarrow> uart \<Rightarrow> uart" where
  "uart_outb p d u = u\<lparr>port_writes := port_writes u @ [(p, d)]\<rparr>"

definition serial_init :: "uart \<Rightarrow> uart" where
  "serial_init u =
     uart_outb (COM1_PORT + 4) 0x0B (uart_outb (COM1_PORT + 2) 0xC7 (uart_outb (COM1_PORT + 3) 0x03
       (uart_outb (COM1_PORT + 1) 0x00 (uart_outb (COM1_PORT + 0) 0x01 (uart_outb (COM1_PORT + 3) 0x80
         (uart_outb (COM1_PORT + 1) 0x00 u))))))"

text \<open>\<^verbatim>\<open>while (inb(COM1_PORT + 5) & 0x20) == 0 {}\<close>\<close>

partial_function (option) wait_transmit :: "uart \<Rightarrow> uart option" where
  "wait_transmit u =
     (let s = line_status u (status_reads u); u' = u\<lparr>status_reads := Suc (status_reads u)\<rparr>
      in if s AND 0x20 = 0 then wait_transmit u' else Some u')"

definition serial_putchar :: "u8 \<Rightarrow> uart \<Rightarrow> uart option" where
  "serial_putchar c u = do { u' \<leftarrow> wait_transmit u; Some (uart_outb COM1_PORT c u') }"

definition serial_write :: "u8 list option \<Rightarrow> uart \<Rightarrow> uart option" where
  "serial_write s u = (case s of None \<Rightarrow> Some u | Some t \<Rightarrow> fold_opt serial_putchar (c_text t) u)"

definition hex_buf :: "u64 \<Rightarrow> u8 list" where
  "hex_buf value =
     (fold (\<lambda>i buf. buf[2 + i := hex_digit_upper (ucast (drop_bit (60 - i * 4) value AND 0xF))])
        [0..<16] ((replicate 18 0)[0 := 48, 1 := 120]))[17 := 0]"

definition serial_write_hex :: "u8 list option \<Rightarrow> u64 \<Rightarrow> uart \<Rightarrow> uart option" where
  "serial_write_hex label value u = do {
     u1 \<leftarrow> serial_write label u;
     u2 \<leftarrow> serial_write (Some (hex_buf value)) u1;
     serial_write (Some [ch_newline, 0]) u2
   }"

function serial_dec_loop :: "u8 list \<Rightarrow> nat \<Rightarrow> nat \<Rightarrow> u8 list \<times> nat" where
  "serial_dec_loop buf i val =
     (if 0 < val \<and> 0 < i
      then serial_dec_loop (buf[i := ch_zero + of_nat (val mod 10)]) (i - 1) (val div 10)
      else (buf, i))"
  by pat_completeness auto
termination
  by (relation "measure (\<lambda>(b, i, v). v)") auto

declare serial_dec_loop.simps [simp del]

definition serial_write_dec :: "u8 list option \<Rightarrow> u64 \<Rightarrow> uart \<Rightarrow> uart option" where
  "serial_write_dec label value u = do {
     u1 \<leftarrow> serial_write label u;
     let (buf, i) = (if value = 0 then ((replicate 32 0)[31 := 0, 30 := ch_zero], 29)
                     else serial_dec_loop ((replicate 32 0)[31 := 0]) 30 (unat value));
     u2 \<leftarrow> serial_write (Some (drop (i + 1) buf)) u1;
     serial_write (Some [ch_newline, 0]) u2
   }"

section \<open>What the line transmits\<close>

text \<open>The bytes sent to the data port while the divisor latch is closed, and the UART's promise: the
  transmitter becomes ready again and again.\<close>

definition sent :: "uart \<Rightarrow> u8 list" where
  "sent u = map snd (filter (\<lambda>w. fst w = COM1_PORT) (port_writes u))"

definition drains :: "uart \<Rightarrow> bool" where
  "drains u \<longleftrightarrow> (\<forall>n. \<exists>m \<ge> n. line_status u m AND 0x20 \<noteq> 0)"

lemma wait_transmit_ready:
  assumes "n \<le> m" "line_status u m AND 0x20 \<noteq> 0" "status_reads u = n"
  shows "\<exists>k. wait_transmit u = Some (u\<lparr>status_reads := k\<rparr>)"
  using assms
proof (induction "m - n" arbitrary: n u)
  case 0
  then have "n = m" by simp
  with 0 show ?case by (subst wait_transmit.simps) auto
next
  case (Suc d)
  let ?u = "u\<lparr>status_reads := Suc (status_reads u)\<rparr>"
  show ?case
  proof (cases "line_status u n AND 0x20 = 0")
    case True
    have "\<exists>k. wait_transmit ?u = Some (?u\<lparr>status_reads := k\<rparr>)"
      using Suc by (intro "Suc.hyps"(1) [of "Suc n"]) auto
    with True Suc.prems show ?thesis by (subst wait_transmit.simps) (auto simp: Let_def)
  next
    case False
    with Suc.prems show ?thesis by (subst wait_transmit.simps) (auto simp: Let_def)
  qed
qed

lemma serial_putchar_sends:
  assumes "drains u"
  obtains u' where "serial_putchar c u = Some u'" "drains u'" "port_writes u' = port_writes u @ [(COM1_PORT, c)]"
proof -
  obtain m where m: "status_reads u \<le> m" "line_status u m AND 0x20 \<noteq> 0"
    using assms by (auto simp: drains_def)
  obtain k where "wait_transmit u = Some (u\<lparr>status_reads := k\<rparr>)"
    using wait_transmit_ready [OF m refl] by auto
  with that show thesis using assms by (auto simp: serial_putchar_def uart_outb_def drains_def)
qed

lemma putchar_loop_sends:
  assumes "drains u"
  shows "\<exists>u'. fold_opt serial_putchar cs u = Some u' \<and> drains u' \<and>
    port_writes u' = port_writes u @ map (Pair COM1_PORT) cs"
  using assms
proof (induction cs arbitrary: u)
  case (Cons c cs)
  obtain u' where "serial_putchar c u = Some u'" "drains u'" "port_writes u' = port_writes u @ [(COM1_PORT, c)]"
    using Cons.prems by (rule serial_putchar_sends)
  with Cons.IH [of u'] show ?case by auto
qed simp

lemma serial_write_sends:
  assumes "drains u"
  obtains u' where "serial_write s u = Some u'" "drains u'"
    "port_writes u' = port_writes u @ map (Pair COM1_PORT) (case s of None \<Rightarrow> [] | Some t \<Rightarrow> c_text t)"
  using putchar_loop_sends [OF assms, of "case s of None \<Rightarrow> [] | Some t \<Rightarrow> c_text t"] assms that
  by (auto simp: serial_write_def split: option.splits)

lemma sent_append: "port_writes u' = port_writes u @ map (Pair COM1_PORT) cs \<Longrightarrow> sent u' = sent u @ cs"
  by (simp add: sent_def comp_def filter_map)

text \<open>A sequence of writes.\<close>

lemma three_writes_send:
  assumes "drains u"
  shows "\<exists>u'. (do { u1 \<leftarrow> serial_write a u; u2 \<leftarrow> serial_write (Some b) u1; serial_write (Some c) u2 }) = Some u' \<and>
    sent u' = sent u @ (case a of None \<Rightarrow> [] | Some t \<Rightarrow> c_text t) @ c_text b @ c_text c"
proof -
  obtain u1 where u1: "serial_write a u = Some u1" "drains u1"
    "port_writes u1 = port_writes u @ map (Pair COM1_PORT) (case a of None \<Rightarrow> [] | Some t \<Rightarrow> c_text t)"
    using assms by (rule serial_write_sends)
  obtain u2 where u2: "serial_write (Some b) u1 = Some u2" "drains u2"
    "port_writes u2 = port_writes u1 @ map (Pair COM1_PORT) (c_text b)"
    using serial_write_sends [OF u1(2), of "Some b"] by auto
  obtain u3 where u3: "serial_write (Some c) u2 = Some u3"
    "port_writes u3 = port_writes u2 @ map (Pair COM1_PORT) (c_text c)"
    using serial_write_sends [OF u2(2), of "Some c"] by auto
  show ?thesis
    using u1 u2 u3 sent_append [OF u1(3)] sent_append [OF u2(3)] sent_append [OF u3(2)] by simp
qed

section \<open>Number formatting\<close>

lemma serial_dec_loop_dec_text:
  "0 < v \<Longrightarrow> length (dec_text v) \<le> i \<Longrightarrow>
   serial_dec_loop (replicate (Suc i) 0 @ ws) i v =
     (replicate (Suc i - length (dec_text v)) 0 @ dec_text v @ ws, i - length (dec_text v))"
proof (induction i arbitrary: v ws)
  case (Suc i)
  have upd: "(replicate (Suc (Suc i)) 0 @ ws)[Suc i := d] = replicate (Suc i) 0 @ d # ws" for d :: u8
    using arr_set_replicate [of "Suc i" 0 ws d] by (auto simp: arr_set_def split: if_splits)
  have step: "serial_dec_loop (replicate (Suc (Suc i)) 0 @ ws) (Suc i) v =
      serial_dec_loop (replicate (Suc i) 0 @ (ch_zero + of_nat (v mod 10)) # ws) i (v div 10)"
    using Suc.prems upd by (subst serial_dec_loop.simps) simp
  show ?case
  proof (cases "v < 10")
    case True
    then have "serial_dec_loop (replicate (Suc i) 0 @ (ch_zero + of_nat (v mod 10)) # ws) i (v div 10) =
        (replicate (Suc i) 0 @ (ch_zero + of_nat v) # ws, i)"
      by (subst serial_dec_loop.simps) simp
    with True step show ?thesis by (simp add: dec_text.simps [of v])
  next
    case False
    then have "0 < v div 10" "length (dec_text (v div 10)) \<le> i"
      using Suc.prems by (auto simp: dec_text.simps [of v])
    from Suc.IH [OF this] step False show ?thesis by (simp add: dec_text.simps [of v])
  qed
qed simp

lemma dec_text_u64: "length (dec_text (unat (v :: u64))) \<le> 20"
proof -
  have "unat v < 2 ^ 64" using unsigned_less [of v] by simp
  then have "unat v < 10 ^ 20" by simp
  then show ?thesis by (rule length_dec_text_le) simp
qed

text \<open>Hexadecimal digit number \<open>i\<close> of a 64-bit value, counted from the most significant one.\<close>

definition hex_digit_at :: "u64 \<Rightarrow> nat \<Rightarrow> u8" where
  "hex_digit_at value i = hex_digit_upper (ucast (drop_bit (60 - i * 4) value AND 0xF))"

lemma hex_digit_upper_nonzero:
  assumes "unat d < 16"
  shows "hex_digit_upper d \<noteq> 0"
proof
  assume "hex_digit_upper d = 0"
  then have "unat (hex_digit_upper d) = 0" by simp
  with assms show False
    by (auto simp: hex_digit_upper_def unat_word_ariths word_less_nat_alt unat_sub_if' split: if_splits)
qed

lemma hex_digit_at_nonzero: "hex_digit_at value i \<noteq> 0"
proof -
  have "unat (x AND 0xF :: u64) < 16" for x
  proof -
    have "x AND 0xF \<le> (0xF :: u64)" by (rule word_and_le1)
    then show ?thesis by (simp add: word_le_nat_alt)
  qed
  then have "unat (ucast (drop_bit (60 - i * 4) value AND 0xF) :: u8) < 16"
    by (simp add: unsigned_ucast_eq le_less_trans [OF take_bit_nat_less_eq_self])
  then show ?thesis unfolding hex_digit_at_def by (rule hex_digit_upper_nonzero)
qed

lemma hex_buf_eq: "hex_buf value = [48, 120] @ map (hex_digit_at value) [0..<15] @ [0]"
proof -
  let ?b = "(replicate 18 0)[0 := 48, 1 := 120] :: u8 list"
  have "fold (\<lambda>i buf. buf[2 + i := hex_digit_at value i]) [0..<16] ?b =
      take 2 ?b @ map (hex_digit_at value) [0..<16] @ drop (2 + 16) ?b"
    by (rule fold_update_range) simp
  also have "take 2 ?b = [48, 120]" by (simp add: numeral_eq_Suc)
  also have "map (hex_digit_at value) [0..<16] = map (hex_digit_at value) [0..<15] @ [hex_digit_at value 15]"
  proof -
    have "[0..<16] = [0..<15] @ [15 :: nat]" by code_simp
    then show ?thesis by (simp only: map_append list.map)
  qed
  finally have "fold (\<lambda>i buf. buf[2 + i := hex_digit_at value i]) [0..<16] ?b =
      ([48, 120] @ map (hex_digit_at value) [0..<15]) @ [hex_digit_at value 15]"
    by (simp del: upt_rec_numeral)
  then have "hex_buf value = (([48, 120] @ map (hex_digit_at value) [0..<15]) @ [hex_digit_at value 15])[17 := 0]"
    by (simp only: hex_buf_def hex_digit_at_def)
  then show ?thesis by (simp add: list_update_append del: upt_rec_numeral)
qed

lemma hex_buf_text: "c_text (hex_buf value) = [48, 120] @ map (hex_digit_at value) [0..<15]"
proof -
  have "0 \<notin> set ([48, 120] @ map (hex_digit_at value) [0..<15])"
    using hex_digit_at_nonzero [of "value", symmetric] by (auto simp del: upt_rec_numeral)
  from c_text_pad [OF this, of "[]"] show ?thesis unfolding hex_buf_eq by simp
qed

section \<open>Properties\<close>

text \<open>C20: On a line whose transmitter keeps becoming ready, writing a C string returns and sends exactly the
  bytes before the terminating zero, in order; a null pointer sends nothing.\<close>

theorem serial_write_transmits:
  assumes "drains u"
  shows "\<exists>u'. serial_write s u = Some u' \<and> drains u' \<and>
    sent u' = sent u @ (case s of None \<Rightarrow> [] | Some t \<Rightarrow> c_text t)"
proof -
  obtain u' where u': "serial_write s u = Some u'" "drains u'"
    "port_writes u' = port_writes u @ map (Pair COM1_PORT) (case s of None \<Rightarrow> [] | Some t \<Rightarrow> c_text t)"
    using assms by (rule serial_write_sends)
  with sent_append [OF u'(3)] show ?thesis by blast
qed

text \<open>A UART whose transmitter is ready at every other read of the status register.\<close>

definition demo_uart :: uart where
  "demo_uart = \<lparr>line_status = (\<lambda>n. if even n then 0 else 0x20), status_reads = 0, port_writes = []\<rparr>"

lemma demo_uart_drains: "drains demo_uart"
  unfolding drains_def
proof
  fix n
  show "\<exists>m \<ge> n. line_status demo_uart m AND 0x20 \<noteq> 0"
    by (intro exI [of _ "2 * n + 1"]) (simp add: demo_uart_def)
qed

theorem serial_write_transmits_witness:
  "\<exists>u'. serial_write (Some (bytes ''ok'' @ [0, 7])) demo_uart = Some u' \<and> sent u' = bytes ''ok''"
  using serial_write_transmits [OF demo_uart_drains, of "Some (bytes ''ok'' @ [0, 7])"]
  by (auto simp: demo_uart_def sent_def c_text_def bytes_def)

text \<open>The decimal printer writes the label, the decimal text of the value and a newline, for every 64-bit
  value.\<close>

theorem serial_write_dec_exact:
  assumes "drains u"
  shows "\<exists>u'. serial_write_dec label value u = Some u' \<and>
    sent u' = sent u @ (case label of None \<Rightarrow> [] | Some t \<Rightarrow> c_text t) @ dec_text (unat value) @ [ch_newline]"
proof -
  let ?bi = "if value = 0 then ((replicate 32 0)[31 := 0, 30 := ch_zero], 29)
      else serial_dec_loop ((replicate 32 0)[31 := 0]) 30 (unat value)"
  have pad: "replicate 32 (0 :: u8) = replicate (Suc 30) 0 @ [0]" "(replicate 32 (0 :: u8))[31 := 0] = replicate 32 0"
    by (simp_all add: numeral_eq_Suc)
  have body: "c_text (drop (snd ?bi + 1) (fst ?bi)) = dec_text (unat value)"
  proof (cases "value = 0")
    case True
    then have "drop (snd ?bi + 1) (fst ?bi) = [ch_zero, 0]" by (simp add: numeral_eq_Suc)
    with True show ?thesis by (simp add: c_text_def dec_text.simps [of 0])
  next
    case False
    then have "?bi = (replicate (31 - length (dec_text (unat value))) 0 @ dec_text (unat value) @ [0],
        30 - length (dec_text (unat value)))"
      using serial_dec_loop_dec_text [of "unat value" 30 "[0]"] dec_text_u64 [of "value"] pad
      by (simp add: unat_gt_0)
    then have "drop (snd ?bi + 1) (fst ?bi) = dec_text (unat value) @ [0]"
      using dec_text_u64 [of "value"] by (simp add: Suc_diff_le)
    then show ?thesis using c_text_pad [of "dec_text (unat value)" "[]"] dec_text_nonzero by simp
  qed
  have nl: "c_text [ch_newline, 0] = [ch_newline]" by (simp add: c_text_def)
  have "serial_write_dec label value u = (do { u1 \<leftarrow> serial_write label u;
      u2 \<leftarrow> serial_write (Some (drop (snd ?bi + 1) (fst ?bi))) u1; serial_write (Some [ch_newline, 0]) u2 })"
    unfolding serial_write_dec_def by (simp only: case_prod_beta Let_def)
  with three_writes_send [OF assms, of label "drop (snd ?bi + 1) (fst ?bi)" "[ch_newline, 0]"]
  show ?thesis unfolding body nl by simp
qed

theorem serial_write_dec_exact_witness:
  "\<exists>u'. serial_write_dec (Some (bytes ''n='' @ [0])) 1234 demo_uart = Some u' \<and> sent u' = bytes ''n=1234'' @ [ch_newline]"
proof -
  have "dec_text 1234 = bytes ''1234''" by code_simp
  then show ?thesis
    using serial_write_dec_exact [OF demo_uart_drains, of "Some (bytes ''n='' @ [0])" 1234]
    by (auto simp: demo_uart_def sent_def c_text_def bytes_def)
qed

text \<open>The hexadecimal printer drops the least significant digit: the terminating zero it stores at index 17
  overwrites the sixteenth digit, so the line shows \<open>0x\<close> and the fifteen most significant digits only.\<close>

theorem serial_write_hex_truncates:
  assumes "drains u"
  shows "\<exists>u'. serial_write_hex label value u = Some u' \<and>
    sent u' = sent u @ (case label of None \<Rightarrow> [] | Some t \<Rightarrow> c_text t) @
      bytes ''0x'' @ map (hex_digit_at value) [0..<15] @ [ch_newline]"
proof -
  have "bytes ''0x'' = [48, 120]" "c_text [ch_newline, 0] = [ch_newline]"
    by (simp_all add: bytes_def c_text_def)
  with three_writes_send [OF assms, of label "hex_buf value" "[ch_newline, 0]"] show ?thesis
    by (simp add: serial_write_hex_def hex_buf_text)
qed

theorem serial_write_hex_truncates_witness:
  "\<exists>u'. serial_write_hex None 0xDEADBEEF demo_uart = Some u' \<and> sent u' = bytes ''0x00000000DEADBEE'' @ [ch_newline]"
proof -
  have "bytes ''0x'' @ map (hex_digit_at 0xDEADBEEF) [0..<15] @ [ch_newline] = bytes ''0x00000000DEADBEE'' @ [ch_newline]"
    by code_simp
  with serial_write_hex_truncates [OF demo_uart_drains, of None "0xDEADBEEF"] show ?thesis
    by (auto simp: demo_uart_def sent_def)
qed

end
