(* ===== verification/Vga_Console.thy ===== *)
theory Vga_Console
  imports Kernel_Prelude
begin

text \<open>
  The text console (\<^verbatim>\<open>kernel-rs/src/vga.rs\<close>): the 80 by 25 cells at \<open>0xB8000\<close>, the cursor, the
  colour, and the port writes that move the hardware cursor. The cursor coordinates are \<open>usize\<close> in
  the code and numbers here; they stay below 81 and 25, so no arithmetic on them wraps. The probe
  reads of the frame buffer cannot fail in this model: a page fault is outside it.
\<close>

section \<open>Definitions\<close>

definition VGA_WIDTH :: nat where "VGA_WIDTH = 80"
definition VGA_HEIGHT :: nat where "VGA_HEIGHT = 25"

record vga =
  VGA_BUFFER :: "u16 list"
  CURSOR_X :: nat
  CURSOR_Y :: nat
  CURRENT_COLOR :: u8
  AUTO_CLEAR_ENABLED :: bool
  vga_ports :: "(u16 \<times> u8) list"
  vga_serial :: "u8 list list"

definition vga_outb :: "u16 \<Rightarrow> u8 \<Rightarrow> vga \<Rightarrow> vga" where
  "vga_outb p d v = v\<lparr>vga_ports := vga_ports v @ [(p, d)]\<rparr>"

definition write_cell :: "nat \<Rightarrow> u16 \<Rightarrow> vga \<Rightarrow> vga" where
  "write_cell pos entry v = v\<lparr>VGA_BUFFER := (VGA_BUFFER v)[pos := entry]\<rparr>"

definition vga_entry :: "u8 \<Rightarrow> u8 \<Rightarrow> u16" where
  "vga_entry color c = push_bit 8 (ucast color) OR ucast c"

definition verify_vga_buffer :: "vga \<Rightarrow> bool" where
  "verify_vga_buffer v = True"

definition ensure_vga_buffer_mapped :: "vga \<Rightarrow> vga" where
  "ensure_vga_buffer_mapped v =
     (let test_pos = 0 in
      if test_pos < VGA_WIDTH * VGA_HEIGHT
      then let original = VGA_BUFFER v ! test_pos in write_cell test_pos original v
      else v)"

definition is_scrolling_safe :: "vga \<Rightarrow> bool" where
  "is_scrolling_safe v = (if VGA_HEIGHT - 1 \<le> CURSOR_Y v then verify_vga_buffer v else True)"

definition update_cursor :: "vga \<Rightarrow> vga" where
  "update_cursor v =
     (let pos = CURSOR_Y v * VGA_WIDTH + CURSOR_X v
      in vga_outb 0x3D5 (of_nat (pos div 256 mod 256)) (vga_outb 0x3D4 0x0E
           (vga_outb 0x3D5 (of_nat (pos mod 256)) (vga_outb 0x3D4 0x0F v))))"

definition clear :: "vga \<Rightarrow> vga" where
  "clear v =
     (let v1 = fold (\<lambda>i. write_cell i 0x0F20) [0..<VGA_WIDTH * VGA_HEIGHT] v
      in update_cursor (v1\<lparr>CURSOR_X := 0, CURSOR_Y := 0\<rparr>))"

definition scroll_up_safe :: "vga \<Rightarrow> vga" where
  "scroll_up_safe v =
     (let v1 = fold (\<lambda>i. write_cell i (vga_entry (CURRENT_COLOR v) 32)) [0..<VGA_WIDTH * VGA_HEIGHT] v
      in update_cursor (v1\<lparr>CURSOR_X := 0, CURSOR_Y := 0\<rparr>))"

definition scroll_up :: "vga \<Rightarrow> vga" where
  "scroll_up v =
     (if \<not> verify_vga_buffer v then v
      else let v1 = fold (\<lambda>y. fold (\<lambda>x v.
                      let src_pos = y * VGA_WIDTH + x; dst_pos = (y - 1) * VGA_WIDTH + x
                      in if src_pos < VGA_WIDTH * VGA_HEIGHT \<and> dst_pos < VGA_WIDTH * VGA_HEIGHT
                         then write_cell dst_pos (VGA_BUFFER v ! src_pos) v else v)
                    [0..<VGA_WIDTH]) [1..<VGA_HEIGHT] v
           in fold (\<lambda>x v.
                let pos = (VGA_HEIGHT - 1) * VGA_WIDTH + x
                in if pos < VGA_WIDTH * VGA_HEIGHT
                   then write_cell pos (vga_entry (CURRENT_COLOR v) 32) v else v)
              [0..<VGA_WIDTH] v1)"

definition auto_clear_if_needed :: "vga \<Rightarrow> vga" where
  "auto_clear_if_needed v =
     (if \<not> AUTO_CLEAR_ENABLED v then
        (if is_scrolling_safe v then (scroll_up v)\<lparr>CURSOR_Y := VGA_HEIGHT - 1\<rparr> else scroll_up_safe v)
      else if VGA_HEIGHT - 1 \<le> CURSOR_Y v
      then update_cursor ((clear v)\<lparr>CURSOR_X := 0, CURSOR_Y := 0\<rparr>)
      else v)"

definition enable_auto_clear :: "vga \<Rightarrow> vga" where
  "enable_auto_clear v = v\<lparr>AUTO_CLEAR_ENABLED := True\<rparr>"

definition disable_auto_clear :: "vga \<Rightarrow> vga" where
  "disable_auto_clear v = v\<lparr>AUTO_CLEAR_ENABLED := False\<rparr>"

definition is_auto_clear_enabled :: "vga \<Rightarrow> bool" where
  "is_auto_clear_enabled v = AUTO_CLEAR_ENABLED v"

definition set_color :: "u8 \<Rightarrow> vga \<Rightarrow> vga" where
  "set_color color v = v\<lparr>CURRENT_COLOR := color\<rparr>"

definition enable_cursor :: "u8 \<Rightarrow> u8 \<Rightarrow> vga \<Rightarrow> vga" where
  "enable_cursor cursor_start cursor_end v =
     vga_outb 0x3D5 (cursor_end AND 0x1F) (vga_outb 0x3D4 0x0B
       (vga_outb 0x3D5 (cursor_start AND 0x1F) (vga_outb 0x3D4 0x0A v)))"

definition disable_cursor :: "vga \<Rightarrow> vga" where
  "disable_cursor v = vga_outb 0x3D5 0x20 (vga_outb 0x3D4 0x0A v)"

definition rust_vga_init :: "vga \<Rightarrow> vga" where
  "rust_vga_init v =
     (let v1 = v\<lparr>vga_serial := vga_serial v @ [bytes ''[VGA] Initializing VGA driver'' @ [ch_newline]]\<rparr>
      in update_cursor (enable_cursor 14 15 (set_color 0x0F (clear (ensure_vga_buffer_mapped v1)))))"

definition print_char :: "u8 \<Rightarrow> vga \<Rightarrow> vga" where
  "print_char c v =
     (if c = 10 then
        (let v1 = v\<lparr>CURSOR_X := 0, CURSOR_Y := CURSOR_Y v + 1\<rparr>;
             v2 = (if VGA_HEIGHT \<le> CURSOR_Y v1 then auto_clear_if_needed v1 else v1)
         in update_cursor v2)
      else if c = 13 then update_cursor (v\<lparr>CURSOR_X := 0\<rparr>)
      else if c = 8 then
        (if 0 < CURSOR_X v then
           (let v1 = v\<lparr>CURSOR_X := CURSOR_X v - 1\<rparr>;
                pos = CURSOR_Y v1 * VGA_WIDTH + CURSOR_X v1;
                v2 = (if pos < VGA_WIDTH * VGA_HEIGHT
                      then write_cell pos (vga_entry (CURRENT_COLOR v1) 32) v1 else v1)
            in update_cursor v2)
         else v)
      else
        (let v1 = (if VGA_WIDTH \<le> CURSOR_X v then
                     (let w = v\<lparr>CURSOR_X := 0, CURSOR_Y := CURSOR_Y v + 1\<rparr>
                      in if VGA_HEIGHT \<le> CURSOR_Y w then auto_clear_if_needed w else w)
                   else v)
         in if CURSOR_Y v1 < VGA_HEIGHT \<and> CURSOR_X v1 < VGA_WIDTH then
              (let pos = CURSOR_Y v1 * VGA_WIDTH + CURSOR_X v1
               in if pos < VGA_WIDTH * VGA_HEIGHT then
                    (let v2 = write_cell pos (vga_entry (CURRENT_COLOR v1) c) v1
                     in update_cursor (v2\<lparr>CURSOR_X := CURSOR_X v2 + 1\<rparr>))
                  else v1)
            else v1))"

definition print_string :: "u8 list option \<Rightarrow> vga \<Rightarrow> vga" where
  "print_string t v = (case t of None \<Rightarrow> v | Some p \<Rightarrow> fold print_char (c_text p) v)"

definition print_hex :: "u64 \<Rightarrow> vga \<Rightarrow> vga" where
  "print_hex value v =
     fold (\<lambda>i. print_char (bytes ''0123456789ABCDEF'' ! unat (drop_bit (i * 4) value AND 0xF)))
       (rev [0..<16]) (print_string (Some (bytes ''0x'' @ [0])) v)"

definition print_dec :: "u64 \<Rightarrow> vga \<Rightarrow> vga option" where
  "print_dec value v =
     (if value = 0 then Some (print_char ch_zero v)
      else case digit_loop (replicate 20 0) 0 (unat value) of
             None \<Rightarrow> None
           | Some (digits, count) \<Rightarrow> Some (fold (\<lambda>i. print_char (digits ! i)) (rev [0..<count]) v))"

definition get_cursor_position :: "vga \<Rightarrow> nat \<times> nat" where
  "get_cursor_position v = (CURSOR_X v, CURSOR_Y v)"

definition set_cursor_position :: "usize \<Rightarrow> usize \<Rightarrow> vga \<Rightarrow> vga" where
  "set_cursor_position x y v =
     update_cursor (v\<lparr>CURSOR_X := min (unat x) (VGA_WIDTH - 1), CURSOR_Y := min (unat y) (VGA_HEIGHT - 1)\<rparr>)"

text \<open>The exported functions.\<close>

definition vga_print :: "u8 list option \<Rightarrow> vga \<Rightarrow> vga" where "vga_print = print_string"
definition vga_putchar :: "u8 \<Rightarrow> vga \<Rightarrow> vga" where "vga_putchar = print_char"
definition vga_clear :: "vga \<Rightarrow> vga" where "vga_clear = clear"
definition vga_set_color :: "u8 \<Rightarrow> vga \<Rightarrow> vga" where "vga_set_color = set_color"
definition rust_vga_clear :: "vga \<Rightarrow> vga" where "rust_vga_clear = clear"
definition rust_vga_set_color :: "u8 \<Rightarrow> vga \<Rightarrow> vga" where "rust_vga_set_color = set_color"

text \<open>The loop of this one stops after 4097 characters.\<close>

definition rust_vga_print :: "u8 list option \<Rightarrow> vga \<Rightarrow> vga" where
  "rust_vga_print s v = (case s of None \<Rightarrow> v | Some p \<Rightarrow> fold print_char (take 4097 (c_text p)) v)"

definition vga_enable_cursor :: "u8 \<Rightarrow> u8 \<Rightarrow> vga \<Rightarrow> vga" where "vga_enable_cursor = enable_cursor"
definition vga_disable_cursor :: "vga \<Rightarrow> vga" where "vga_disable_cursor = disable_cursor"
definition vga_update_cursor :: "vga \<Rightarrow> vga" where "vga_update_cursor = update_cursor"
definition rust_vga_enable_auto_clear :: "vga \<Rightarrow> vga" where "rust_vga_enable_auto_clear = enable_auto_clear"
definition rust_vga_disable_auto_clear :: "vga \<Rightarrow> vga" where "rust_vga_disable_auto_clear = disable_auto_clear"
definition rust_vga_is_auto_clear_enabled :: "vga \<Rightarrow> bool" where
  "rust_vga_is_auto_clear_enabled = is_auto_clear_enabled"
definition vga_set_cursor_position :: "usize \<Rightarrow> usize \<Rightarrow> vga \<Rightarrow> vga" where
  "vga_set_cursor_position = set_cursor_position"

section \<open>The frame buffer\<close>

lemmas vga_dims = VGA_WIDTH_def VGA_HEIGHT_def

lemma fold_write_cell:
  "fold (\<lambda>i. write_cell i (f i)) is v = v\<lparr>VGA_BUFFER := fold (\<lambda>i b. b[i := f i]) is (VGA_BUFFER v)\<rparr>"
  by (induction "is" arbitrary: v) (auto simp: write_cell_def)

lemma fill_cells:
  assumes "length (VGA_BUFFER v) = 2000"
  shows "fold (\<lambda>i. write_cell i e) [0..<VGA_WIDTH * VGA_HEIGHT] v = v\<lparr>VGA_BUFFER := replicate 2000 e\<rparr>"
proof -
  have "fold (\<lambda>i b. b[i := e]) [0..<2000] (VGA_BUFFER v) = map (\<lambda>_. e) [0..<2000]"
    using fold_update_range [of 0 2000 "VGA_BUFFER v" "\<lambda>_. e"] assms by simp
  then show ?thesis
    by (simp add: fold_write_cell vga_dims map_replicate_const del: upt_rec_numeral)
qed

text \<open>Copying a row of \<open>n\<close> cells to the row before it.\<close>

lemma row_copy:
  assumes "d + 2 * n \<le> length b" "j \<le> n"
  shows "length (fold (\<lambda>x b. b[d + x := b ! (d + n + x)]) [0..<j] b) = length b"
    and "i < length b \<Longrightarrow> fold (\<lambda>x b. b[d + x := b ! (d + n + x)]) [0..<j] b ! i =
      (if d \<le> i \<and> i < d + j then b ! (i + n) else b ! i)"
  using assms(2)
proof (induction j arbitrary: i)
  case (Suc j)
  case 1
  with Suc show ?case by simp
next
  case (Suc j)
  case 2
  with Suc assms(1) show ?case
    by (auto simp: nth_list_update ac_simps)
qed auto


lemma rows_copy:
  assumes "(k + 1) * n \<le> length b"
  defines "f \<equiv> \<lambda>y. fold (\<lambda>x b. b[(y - 1) * n + x := b ! (y * n + x)]) [0..<n]"
  shows "length (fold f [1..<k + 1] b) = length b \<and>
    (\<forall>i < length b. fold f [1..<k + 1] b ! i = (if i < k * n then b ! (i + n) else b ! i))"
  using assms(1)
proof (induction k)
  case (Suc k)
  let ?b = "fold f [1..<k + 1] b"
  have b: "length ?b = length b" "\<And>i. i < length b \<Longrightarrow> ?b ! i = (if i < k * n then b ! (i + n) else b ! i)"
    using Suc by simp_all
  have "fold f [1..<Suc k + 1] b = f (k + 1) ?b" by simp
  also have "\<dots> = fold (\<lambda>x b. b[k * n + x := b ! (k * n + n + x)]) [0..<n] ?b" (is "_ = ?c")
    by (simp add: f_def add.commute)
  finally have up: "fold f [1..<Suc k + 1] b = ?c" .
  have "k * n + 2 * n \<le> length ?b" using Suc.prems b(1) by simp
  from row_copy [OF this order_refl] b Suc.prems
  show ?case unfolding up by (auto simp: algebra_simps)
qed simp

lemma scroll_up_buffer:
  assumes "length (VGA_BUFFER v) = 2000"
  shows "scroll_up v = v\<lparr>VGA_BUFFER := drop 80 (VGA_BUFFER v) @ replicate 80 (vga_entry (CURRENT_COLOR v) 32)\<rparr>"
proof -
  let ?blank = "vga_entry (CURRENT_COLOR v) 32"
  let ?inner = "\<lambda>y x v. let src_pos = y * VGA_WIDTH + x; dst_pos = (y - 1) * VGA_WIDTH + x
      in if src_pos < VGA_WIDTH * VGA_HEIGHT \<and> dst_pos < VGA_WIDTH * VGA_HEIGHT
         then write_cell dst_pos (VGA_BUFFER v ! src_pos) v else v"
  let ?g = "\<lambda>y. fold (\<lambda>x b. b[(y - 1) * 80 + x := b ! (y * 80 + x)]) [0..<80]"
  have row: "fold (?inner y) xs w = w\<lparr>VGA_BUFFER :=
      fold (\<lambda>x b. b[(y - 1) * 80 + x := b ! (y * 80 + x)]) xs (VGA_BUFFER w)\<rparr>"
    if "\<forall>x \<in> set xs. y * 80 + x < 2000" for y xs w
    using that by (induction xs arbitrary: w) (auto simp: write_cell_def vga_dims Let_def)
  have rows: "fold (\<lambda>y. fold (?inner y) [0..<VGA_WIDTH]) ys w = w\<lparr>VGA_BUFFER := fold ?g ys (VGA_BUFFER w)\<rparr>"
    if "\<forall>y \<in> set ys. y < 25" for ys w
    using that
  proof (induction ys arbitrary: w)
    case (Cons y ys)
    then have "fold (?inner y) [0..<VGA_WIDTH] w = w\<lparr>VGA_BUFFER := ?g y (VGA_BUFFER w)\<rparr>"
      by (subst row) (auto simp: vga_dims)
    with Cons show ?case by simp
  qed simp
  let ?b = "fold ?g [1..<25] (VGA_BUFFER v)"
  have b_len: "length ?b = 2000" using rows_copy [of 24 80 "VGA_BUFFER v"] assms by simp
  have b_nth: "i < 2000 \<Longrightarrow> ?b ! i = (if i < 1920 then VGA_BUFFER v ! (i + 80) else VGA_BUFFER v ! i)" for i
    using rows_copy [of 24 80 "VGA_BUFFER v"] assms by simp
  have last: "fold (\<lambda>x v. let pos = (VGA_HEIGHT - 1) * VGA_WIDTH + x
      in if pos < VGA_WIDTH * VGA_HEIGHT then write_cell pos (vga_entry (CURRENT_COLOR v) 32) v else v)
      xs w = w\<lparr>VGA_BUFFER := fold (\<lambda>x b. b[1920 + x := vga_entry (CURRENT_COLOR w) 32]) xs (VGA_BUFFER w)\<rparr>"
    if "\<forall>x \<in> set xs. x < 80" for xs w
    using that by (induction xs arbitrary: w) (auto simp: write_cell_def vga_dims Let_def)
  have "fold (\<lambda>x b. b[1920 + x := ?blank]) [0..<80] ?b = take 1920 ?b @ replicate 80 ?blank"
    using fold_update_range [of 1920 80 ?b "\<lambda>_. ?blank"] b_len
    by (simp add: map_replicate_const del: upt_rec_numeral)
  moreover have "take 1920 ?b = drop 80 (VGA_BUFFER v)"
    using b_len b_nth assms by (intro nth_equalityI) (auto simp: add.commute)
  ultimately show ?thesis
    using rows [of "[1..<25]" v] last [of "[0..<80]" "v\<lparr>VGA_BUFFER := ?b\<rparr>"]
    by (simp add: scroll_up_def verify_vga_buffer_def vga_dims del: upt_rec_numeral)
qed

section \<open>The hardware cursor\<close>

text \<open>The CRT controller as the port writes see it: an index register at \<open>0x3D4\<close> and the indexed data
  registers behind \<open>0x3D5\<close>; registers 14 and 15 hold the cursor position.\<close>

definition crtc_step :: "u16 \<times> u8 \<Rightarrow> u8 \<times> (u8 \<Rightarrow> u8) \<Rightarrow> u8 \<times> (u8 \<Rightarrow> u8)" where
  "crtc_step w s = (case (w, s) of ((p, d), (idx, regs)) \<Rightarrow>
     if p = 0x3D4 then (d, regs) else if p = 0x3D5 then (idx, regs(idx := d)) else (idx, regs))"

definition crtc :: "(u16 \<times> u8) list \<Rightarrow> u8 \<times> (u8 \<Rightarrow> u8)" where
  "crtc ws = fold crtc_step ws (0, \<lambda>_. 0)"

definition hw_cursor :: "vga \<Rightarrow> nat" where
  "hw_cursor v = unat (snd (crtc (vga_ports v)) 0x0E) * 256 + unat (snd (crtc (vga_ports v)) 0x0F)"

lemma hw_cursor_update:
  assumes "CURSOR_Y v * 80 + CURSOR_X v < 65536"
  shows "hw_cursor (update_cursor v) = CURSOR_Y v * 80 + CURSOR_X v"
proof -
  let ?p = "CURSOR_Y v * 80 + CURSOR_X v"
  obtain idx regs where "crtc (vga_ports v) = (idx, regs)" by fastforce
  then have "hw_cursor (update_cursor v) = unat (of_nat (?p div 256 mod 256) :: u8) * 256 + unat (of_nat (?p mod 256) :: u8)"
    by (simp add: hw_cursor_def update_cursor_def Let_def vga_outb_def vga_dims crtc_def crtc_step_def)
  also have "\<dots> = ?p"
    using assms by (simp add: unat_of_nat_u8)
  finally show ?thesis .
qed

text \<open>The console is sane: the buffer has its 2000 cells, the cursor is on the screen or just behind the
  last column, and the hardware cursor shows the same position.\<close>

definition vga_ok :: "vga \<Rightarrow> bool" where
  "vga_ok v \<longleftrightarrow> length (VGA_BUFFER v) = 2000 \<and> CURSOR_X v \<le> 80 \<and> CURSOR_Y v \<le> 24 \<and>
     hw_cursor v = CURSOR_Y v * 80 + CURSOR_X v"

lemma update_cursor_sel [simp]:
  "VGA_BUFFER (update_cursor v) = VGA_BUFFER v" "CURSOR_X (update_cursor v) = CURSOR_X v"
  "CURSOR_Y (update_cursor v) = CURSOR_Y v" "CURRENT_COLOR (update_cursor v) = CURRENT_COLOR v"
  "AUTO_CLEAR_ENABLED (update_cursor v) = AUTO_CLEAR_ENABLED v"
  by (simp_all add: update_cursor_def vga_outb_def Let_def)

lemma update_cursor_ok:
  "length (VGA_BUFFER v) = 2000 \<Longrightarrow> CURSOR_X v \<le> 80 \<Longrightarrow> CURSOR_Y v \<le> 24 \<Longrightarrow> vga_ok (update_cursor v)"
  by (simp add: vga_ok_def hw_cursor_update)

lemma write_cell_sel [simp]:
  "CURSOR_X (write_cell p e v) = CURSOR_X v" "CURSOR_Y (write_cell p e v) = CURSOR_Y v"
  "CURRENT_COLOR (write_cell p e v) = CURRENT_COLOR v" "VGA_BUFFER (write_cell p e v) = (VGA_BUFFER v)[p := e]"
  by (simp_all add: write_cell_def)

lemma clear_sel:
  assumes "length (VGA_BUFFER v) = 2000"
  shows "VGA_BUFFER (clear v) = replicate 2000 0x0F20" "CURSOR_X (clear v) = 0" "CURSOR_Y (clear v) = 0"
    "CURRENT_COLOR (clear v) = CURRENT_COLOR v" "vga_ok (clear v)"
  using assms by (simp_all add: clear_def Let_def fill_cells update_cursor_ok)

text \<open>What happens when the cursor leaves the last line.\<close>

lemma auto_clear_sel:
  assumes "length (VGA_BUFFER v) = 2000" "25 \<le> CURSOR_Y v" "CURSOR_X v = 0"
  shows "VGA_BUFFER (auto_clear_if_needed v) =
      (if AUTO_CLEAR_ENABLED v then replicate 2000 0x0F20
       else drop 80 (VGA_BUFFER v) @ replicate 80 (vga_entry (CURRENT_COLOR v) 32))"
    and "CURSOR_X (auto_clear_if_needed v) = 0"
    and "CURSOR_Y (auto_clear_if_needed v) = (if AUTO_CLEAR_ENABLED v then 0 else 24)"
    and "CURRENT_COLOR (auto_clear_if_needed v) = CURRENT_COLOR v"
  using assms
  by (simp_all add: auto_clear_if_needed_def is_scrolling_safe_def verify_vga_buffer_def clear_sel
      scroll_up_buffer vga_dims)

lemma length_auto_clear:
  "length (VGA_BUFFER v) = 2000 \<Longrightarrow> 25 \<le> CURSOR_Y v \<Longrightarrow> CURSOR_X v = 0 \<Longrightarrow>
   length (VGA_BUFFER (auto_clear_if_needed v)) = 2000"
  by (simp add: auto_clear_sel)

definition plain :: "u8 \<Rightarrow> bool" where
  "plain c \<longleftrightarrow> c \<noteq> 8 \<and> c \<noteq> 10 \<and> c \<noteq> 13"

lemma print_char_ok:
  assumes "vga_ok v"
  shows "vga_ok (print_char c v)"
proof -
  have v: "length (VGA_BUFFER v) = 2000" "CURSOR_X v \<le> 80" "CURSOR_Y v \<le> 24"
    using assms by (simp_all add: vga_ok_def)
  consider "c = 10" | "c = 13" | "c = 8" | "plain c" by (auto simp: plain_def)
  then show ?thesis
  proof cases
    case 1
    with v show ?thesis
      by (simp add: print_char_def Let_def update_cursor_ok auto_clear_sel vga_dims)
  next
    case 2
    with v show ?thesis by (simp add: print_char_def update_cursor_ok)
  next
    case 3
    with v assms show ?thesis by (simp add: print_char_def Let_def update_cursor_ok)
  next
    case 4
    let ?w = "v\<lparr>CURSOR_X := 0, CURSOR_Y := CURSOR_Y v + 1\<rparr>"
    have put: "vga_ok (update_cursor ((write_cell p e w)\<lparr>CURSOR_X := CURSOR_X w + 1\<rparr>))"
      if "length (VGA_BUFFER w) = 2000" "CURSOR_X w < 80" "CURSOR_Y w < 25" for p e w
      using that by (intro update_cursor_ok) simp_all
    have w: "length (VGA_BUFFER ?w) = 2000" "CURSOR_X ?w = 0" using v by simp_all
    show ?thesis
    proof (cases "CURSOR_X v < 80")
      case True
      with 4 v put [of v] show ?thesis by (simp add: print_char_def plain_def vga_dims)
    next
      case False
      show ?thesis
      proof (cases "CURSOR_Y v < 24")
        case True
        with False 4 v put [of ?w] show ?thesis by (simp add: print_char_def plain_def vga_dims)
      next
        case False
        with v have "25 \<le> CURSOR_Y ?w" by simp
        from auto_clear_sel [OF w(1) this w(2)] have a: "length (VGA_BUFFER (auto_clear_if_needed ?w)) = 2000"
          "CURSOR_X (auto_clear_if_needed ?w) < 80" "CURSOR_Y (auto_clear_if_needed ?w) < 25"
          using v by simp_all
        from put [OF a] a \<open>\<not> CURSOR_X v < 80\<close> False 4 show ?thesis
          by (simp add: print_char_def plain_def vga_dims Let_def)
      qed
    qed
  qed
qed

lemma fold_print_char_ok: "vga_ok v \<Longrightarrow> vga_ok (fold print_char cs v)"
  by (induction cs arbitrary: v) (auto simp: print_char_ok)

text \<open>The console as a line of 2000 cells: the linear position of the cursor.\<close>

definition lin :: "vga \<Rightarrow> nat" where
  "lin v = CURSOR_Y v * 80 + CURSOR_X v"

lemma print_plain:
  assumes "vga_ok v" "plain c" "lin v < 2000"
  shows "VGA_BUFFER (print_char c v) = (VGA_BUFFER v)[lin v := vga_entry (CURRENT_COLOR v) c]"
    "lin (print_char c v) = lin v + 1" "CURRENT_COLOR (print_char c v) = CURRENT_COLOR v"
proof -
  have v: "length (VGA_BUFFER v) = 2000" "CURSOR_X v \<le> 80" "CURSOR_Y v \<le> 24"
    using assms by (simp_all add: vga_ok_def)
  have "VGA_BUFFER (print_char c v) = (VGA_BUFFER v)[lin v := vga_entry (CURRENT_COLOR v) c] \<and>
    lin (print_char c v) = lin v + 1 \<and> CURRENT_COLOR (print_char c v) = CURRENT_COLOR v"
  proof (cases "CURSOR_X v = 80")
    case True
    with v assms(3) have "CURSOR_Y v < 24" by (simp add: lin_def)
    with True v assms(2) show ?thesis
      by (simp add: print_char_def plain_def Let_def vga_dims lin_def algebra_simps)
  next
    case False
    with v assms(2,3) show ?thesis
      by (simp add: print_char_def plain_def Let_def vga_dims lin_def)
  qed
  then show "VGA_BUFFER (print_char c v) = (VGA_BUFFER v)[lin v := vga_entry (CURRENT_COLOR v) c]"
    "lin (print_char c v) = lin v + 1" "CURRENT_COLOR (print_char c v) = CURRENT_COLOR v" by auto
qed

lemma print_plain_text:
  assumes "vga_ok v" "\<forall>c \<in> set cs. plain c" "lin v + length cs \<le> 2000"
  shows "VGA_BUFFER (fold print_char cs v) =
      take (lin v) (VGA_BUFFER v) @ map (vga_entry (CURRENT_COLOR v)) cs @ drop (lin v + length cs) (VGA_BUFFER v)
    \<and> lin (fold print_char cs v) = lin v + length cs"
  using assms
proof (induction cs arbitrary: v)
  case (Cons c cs)
  have l: "lin v < length (VGA_BUFFER v)" using Cons.prems by (simp add: vga_ok_def)
  with Cons.prems print_plain [of v c] Cons.IH [of "print_char c v"] show ?case
    by (simp add: print_char_ok list_update_splice)
qed simp

text \<open>The static data before \<open>rust_vga_init\<close>, over the screen contents the firmware left.\<close>

definition boot_vga :: "u16 list \<Rightarrow> vga" where
  "boot_vga screen = \<lparr>VGA_BUFFER = screen, CURSOR_X = 0, CURSOR_Y = 0, CURRENT_COLOR = 0x0F,
     AUTO_CLEAR_ENABLED = True, vga_ports = [], vga_serial = []\<rparr>"

text \<open>Everything the exported functions do to the console once it is initialised.\<close>

inductive vga_reach :: "vga \<Rightarrow> bool" where
  boot: "length screen = 2000 \<Longrightarrow> vga_reach (rust_vga_init (boot_vga screen))"
| putchar: "vga_reach v \<Longrightarrow> vga_reach (vga_putchar c v)"
| print: "vga_reach v \<Longrightarrow> vga_reach (vga_print t v)"
| rust_print: "vga_reach v \<Longrightarrow> vga_reach (rust_vga_print t v)"
| erase: "vga_reach v \<Longrightarrow> vga_reach (vga_clear v)"
| color: "vga_reach v \<Longrightarrow> vga_reach (vga_set_color c v)"
| show_cursor: "vga_reach v \<Longrightarrow> vga_reach (vga_enable_cursor a b v)"
| hide_cursor: "vga_reach v \<Longrightarrow> vga_reach (vga_disable_cursor v)"
| refresh_cursor: "vga_reach v \<Longrightarrow> vga_reach (vga_update_cursor v)"
| move_cursor: "vga_reach v \<Longrightarrow> vga_reach (vga_set_cursor_position x y v)"
| auto_clear_on: "vga_reach v \<Longrightarrow> vga_reach (rust_vga_enable_auto_clear v)"
| auto_clear_off: "vga_reach v \<Longrightarrow> vga_reach (rust_vga_disable_auto_clear v)"

lemma crtc_append: "crtc (ws @ xs) = fold crtc_step xs (crtc ws)"
  by (simp add: crtc_def)

lemma hw_cursor_other:
  "hw_cursor (enable_cursor a b v) = hw_cursor v" "hw_cursor (disable_cursor v) = hw_cursor v"
  by (simp_all add: hw_cursor_def enable_cursor_def disable_cursor_def vga_outb_def crtc_append crtc_step_def
      split: prod.split)

lemma vga_ok_other:
  assumes "vga_ok v"
  shows "vga_ok (enable_cursor a b v)" "vga_ok (disable_cursor v)" "vga_ok (set_color c v)"
    "vga_ok (v\<lparr>AUTO_CLEAR_ENABLED := e\<rparr>)"
proof -
  show "vga_ok (enable_cursor a b v)" "vga_ok (disable_cursor v)"
    using assms by (simp_all add: vga_ok_def hw_cursor_other)
      (simp_all add: enable_cursor_def disable_cursor_def vga_outb_def)
  show "vga_ok (set_color c v)" "vga_ok (v\<lparr>AUTO_CLEAR_ENABLED := e\<rparr>)"
    using assms by (simp_all add: vga_ok_def hw_cursor_def set_color_def)
qed

lemma vga_reach_ok: "vga_reach v \<Longrightarrow> vga_ok v"
proof (induction rule: vga_reach.induct)
  case (boot screen)
  have "vga_ok (clear (ensure_vga_buffer_mapped ((boot_vga screen)\<lparr>vga_serial := s\<rparr>)))" for s
    using boot by (intro clear_sel) (simp add: ensure_vga_buffer_mapped_def boot_vga_def Let_def vga_dims)
  then show ?case
    unfolding rust_vga_init_def Let_def
    by (intro update_cursor_ok) (auto simp: vga_ok_def enable_cursor_def set_color_def vga_outb_def)
next
  case (erase v)
  then have "length (VGA_BUFFER v) = 2000" by (simp add: vga_ok_def)
  then show ?case by (simp add: vga_clear_def clear_sel(5))
next
  case (refresh_cursor v)
  then show ?case unfolding vga_update_cursor_def by (intro update_cursor_ok) (auto simp: vga_ok_def)
next
  case (move_cursor v x y)
  then show ?case
    unfolding vga_set_cursor_position_def set_cursor_position_def
    by (intro update_cursor_ok) (auto simp: vga_ok_def vga_dims)
qed (auto simp: vga_putchar_def vga_print_def rust_vga_print_def print_string_def print_char_ok
    fold_print_char_ok vga_set_color_def vga_enable_cursor_def vga_disable_cursor_def vga_ok_other
    rust_vga_enable_auto_clear_def rust_vga_disable_auto_clear_def enable_auto_clear_def
    disable_auto_clear_def split: option.split)

lemma digit_loop_u64:
  assumes "0 < unat (v :: u64)"
  shows "digit_loop (replicate 20 0) 0 (unat v) =
    Some (rev (dec_text (unat v)) @ replicate (20 - length (dec_text (unat v))) 0, length (dec_text (unat v)))"
proof -
  have "unat v < 2 ^ 64" using unsigned_less [of v] by simp
  then have "unat v < 10 ^ 20" by simp
  then have "length (dec_text (unat v)) \<le> 20" by (rule length_dec_text_le) simp
  then show ?thesis using assms by (simp add: digit_loop_dec_text arr_write_fits)
qed

text \<open>Printing the digits of a filled buffer from the last to the first.\<close>

lemma fold_rev_digits:
  "fold (\<lambda>i. f ((rev ds @ ws) ! i)) (rev [0..<length ds]) s = fold f ds s"
proof -
  have "map (\<lambda>i. (rev ds @ ws) ! i) (rev [0..<length ds]) = ds"
    by (intro nth_equalityI) (auto simp: rev_nth nth_append)
  then show ?thesis by (metis (no_types, lifting) comp_def fold_cong fold_map)
qed

section \<open>Properties\<close>

text \<open>C21: In every console state the exported functions reach, the frame buffer keeps its 2000 cells, the
  cursor stays on the screen (or just behind the last column), and the position programmed into the
  CRT controller is the cursor's.\<close>

theorem vga_reach_invariant:
  assumes "vga_reach v"
  shows "length (VGA_BUFFER v) = 2000 \<and> CURSOR_X v \<le> 80 \<and> CURSOR_Y v \<le> 24 \<and>
    hw_cursor v = CURSOR_Y v * 80 + CURSOR_X v"
  using vga_reach_ok [OF assms] by (simp add: vga_ok_def)

theorem vga_reach_invariant_witness:
  "hw_cursor (vga_putchar 65 (rust_vga_init (boot_vga (replicate 2000 0)))) =
     CURSOR_Y (vga_putchar 65 (rust_vga_init (boot_vga (replicate 2000 0)))) * 80 +
     CURSOR_X (vga_putchar 65 (rust_vga_init (boot_vga (replicate 2000 0))))"
  using vga_reach_invariant [OF vga_reach.putchar [OF vga_reach.boot [of "replicate 2000 0"], of 65]] by simp

text \<open>Text without control characters that fits on the screen is written to consecutive cells from the
  cursor on, across line ends, in the current colour; no other cell changes and the cursor moves by
  the length of the text.\<close>

theorem print_plain_string:
  assumes "vga_reach v" "\<forall>c \<in> set (c_text t). plain c" "lin v + length (c_text t) \<le> 2000"
  shows "VGA_BUFFER (vga_print (Some t) v) =
      take (lin v) (VGA_BUFFER v) @ map (vga_entry (CURRENT_COLOR v)) (c_text t) @
      drop (lin v + length (c_text t)) (VGA_BUFFER v) \<and>
    lin (vga_print (Some t) v) = lin v + length (c_text t)"
  using print_plain_text [OF vga_reach_ok [OF assms(1)] assms(2,3)]
  by (simp add: vga_print_def print_string_def)

theorem print_plain_string_witness:
  "lin (vga_print (Some (bytes ''hello'')) (rust_vga_init (boot_vga (replicate 2000 0)))) = 5"
proof -
  let ?v = "rust_vga_init (boot_vga (replicate 2000 0))"
  have r: "vga_reach ?v" by (rule vga_reach.boot) simp
  have "lin ?v = 0"
    by (simp add: rust_vga_init_def lin_def enable_cursor_def vga_outb_def set_color_def clear_sel
        ensure_vga_buffer_mapped_def boot_vga_def Let_def vga_dims)
  with print_plain_string [OF r, of "bytes ''hello''"] show ?thesis
    by (simp add: c_text_def bytes_def plain_def)
qed

text \<open>A newline on the last line clears the screen and moves the cursor home when auto-clear is on; when it
  is off, every line moves up by one, the last line is blank in the current colour and the cursor is
  at its start. On the other lines it only moves the cursor.\<close>

theorem newline_behaviour:
  assumes "vga_reach v"
  shows "CURSOR_X (vga_putchar 10 v) = 0 \<and>
    (if CURSOR_Y v < 24 then VGA_BUFFER (vga_putchar 10 v) = VGA_BUFFER v \<and> CURSOR_Y (vga_putchar 10 v) = CURSOR_Y v + 1
     else if AUTO_CLEAR_ENABLED v
     then VGA_BUFFER (vga_putchar 10 v) = replicate 2000 0x0F20 \<and> CURSOR_Y (vga_putchar 10 v) = 0
     else VGA_BUFFER (vga_putchar 10 v) = drop 80 (VGA_BUFFER v) @ replicate 80 (vga_entry (CURRENT_COLOR v) 32) \<and>
       CURSOR_Y (vga_putchar 10 v) = 24)"
  using vga_reach_ok [OF assms]
  by (simp add: vga_ok_def vga_putchar_def print_char_def Let_def vga_dims auto_clear_sel)

theorem newline_behaviour_witness:
  "VGA_BUFFER (vga_putchar 10 (vga_set_cursor_position 0 24 (rust_vga_init (boot_vga (replicate 2000 0))))) =
     replicate 2000 0x0F20"
proof -
  let ?w = "rust_vga_init (boot_vga (replicate 2000 0))"
  let ?v = "vga_set_cursor_position 0 24 ?w"
  have r: "vga_reach ?v" by (intro vga_reach.move_cursor vga_reach.boot) simp
  have "CURSOR_Y ?v = 24" by (simp add: vga_set_cursor_position_def set_cursor_position_def vga_dims)
  moreover have "AUTO_CLEAR_ENABLED ?v"
    by (simp add: vga_set_cursor_position_def set_cursor_position_def rust_vga_init_def enable_cursor_def
        vga_outb_def set_color_def clear_def Let_def fold_write_cell ensure_vga_buffer_mapped_def
        boot_vga_def write_cell_def)
  ultimately show ?thesis using newline_behaviour [OF r] by simp
qed

text \<open>The decimal printer never overruns its 20-byte buffer and prints the decimal text of the value.\<close>

theorem print_dec_exact: "print_dec value v = Some (fold print_char (dec_text (unat value)) v)"
proof (cases "value = 0")
  case True
  then show ?thesis by (simp add: print_dec_def dec_text.simps [of 0])
next
  case False
  then show ?thesis
    using digit_loop_u64 [of "value"] by (simp add: print_dec_def unat_gt_0 fold_rev_digits)
qed

end
