(* ===== verification/Keyboard_Buffer.thy ===== *)
theory Keyboard_Buffer
  imports Kernel_Prelude
begin

text \<open>
  The keyboard driver (\<^verbatim>\<open>kernel-rs/src/keyboard.rs\<close>): scan codes are decoded and queued, the shell
  and the read system call take characters out. The value read from the data port is an argument of
  the interrupt handler.
\<close>

section \<open>Definitions\<close>

record keyboard =
  KEYBOARD_BUFFER :: "u8 list option"
  KEYBOARD_INITIALIZED :: bool
  kb_serial :: "u8 list list"

definition boot_keyboard :: keyboard where
  "boot_keyboard = \<lparr>KEYBOARD_BUFFER = None, KEYBOARD_INITIALIZED = False, kb_serial = []\<rparr>"

definition SCANCODE_TO_ASCII :: "u8 list" where
  "SCANCODE_TO_ASCII =
     [0, 27, 49, 50, 51, 52, 53, 54, 55, 56, 57, 48, 45, 61, 8,
      9, 113, 119, 101, 114, 116, 121, 117, 105, 111, 112, 91, 93, 10,
      0,
      97, 115, 100, 102, 103, 104, 106, 107, 108, 59, 39, 96,
      0,
      92, 122, 120, 99, 118, 98, 110, 109, 44, 46, 47,
      0,
      42,
      0,
      32,
      0,
      0, 0, 0, 0, 0, 0, 0, 0, 0, 0,
      0, 0, 0, 0, 0,
      45, 0, 0, 0, 43, 0, 0, 0, 0, 0]
     @ replicate 44 0"

definition rust_keyboard_init :: "keyboard \<Rightarrow> keyboard" where
  "rust_keyboard_init k = k\<lparr>KEYBOARD_BUFFER := Some [], KEYBOARD_INITIALIZED := True\<rparr>"

definition keyboard_init :: "keyboard \<Rightarrow> keyboard" where
  "keyboard_init k = rust_keyboard_init k"

definition scancode_to_ascii :: "u8 \<Rightarrow> u8 option" where
  "scancode_to_ascii scancode =
     (if unat scancode < length SCANCODE_TO_ASCII
      then let ascii = SCANCODE_TO_ASCII ! unat scancode in if ascii \<noteq> 0 then Some ascii else None
      else None)"

definition handle_keyboard_interrupt :: "u8 \<Rightarrow> keyboard \<Rightarrow> keyboard" where
  "handle_keyboard_interrupt scancode k =
     (if scancode AND 0x80 = 0 then
        (case scancode_to_ascii scancode of
           Some ascii \<Rightarrow>
             (case KEYBOARD_BUFFER k of
                Some buffer \<Rightarrow>
                  if length buffer < 256 then k\<lparr>KEYBOARD_BUFFER := Some (buffer @ [ascii])\<rparr> else k
              | None \<Rightarrow> k)
         | None \<Rightarrow> k)
      else k)"

definition get_char :: "keyboard \<Rightarrow> int \<times> keyboard" where
  "get_char k =
     (if \<not> KEYBOARD_INITIALIZED k then (- 1, k)
      else case KEYBOARD_BUFFER k of
             Some buffer \<Rightarrow>
               (case buffer of
                  ch # rest \<Rightarrow> (int (unat ch), k\<lparr>KEYBOARD_BUFFER := Some rest\<rparr>)
                | [] \<Rightarrow> (- 1, k))
           | None \<Rightarrow> (- 1, k))"

definition clear_buffer :: "keyboard \<Rightarrow> keyboard" where
  "clear_buffer k =
     (if \<not> KEYBOARD_INITIALIZED k then k
      else case KEYBOARD_BUFFER k of Some buffer \<Rightarrow> k\<lparr>KEYBOARD_BUFFER := Some []\<rparr> | None \<Rightarrow> k)"

definition buffer_has_data :: "keyboard \<Rightarrow> bool" where
  "buffer_has_data k =
     (if \<not> KEYBOARD_INITIALIZED k then False
      else case KEYBOARD_BUFFER k of Some buffer \<Rightarrow> buffer \<noteq> [] | None \<Rightarrow> False)"

definition rust_keyboard_get_char :: "keyboard \<Rightarrow> int \<times> keyboard" where
  "rust_keyboard_get_char = get_char"

definition rust_keyboard_clear_buffer :: "keyboard \<Rightarrow> keyboard" where
  "rust_keyboard_clear_buffer = clear_buffer"

definition rust_keyboard_handle_interrupt :: "u8 \<Rightarrow> keyboard \<Rightarrow> keyboard" where
  "rust_keyboard_handle_interrupt = handle_keyboard_interrupt"

definition kb_log :: "u8 list \<Rightarrow> keyboard \<Rightarrow> keyboard" where
  "kb_log s k = k\<lparr>kb_serial := kb_serial k @ [s]\<rparr>"

definition rust_keyboard_put_scancode :: "u8 \<Rightarrow> keyboard \<Rightarrow> keyboard" where
  "rust_keyboard_put_scancode scancode k =
     (if scancode AND 0x80 = 0 then
        (case scancode_to_ascii scancode of
           Some ascii \<Rightarrow>
             (case KEYBOARD_BUFFER k of
                Some buffer \<Rightarrow>
                  if length buffer < 256 then k\<lparr>KEYBOARD_BUFFER := Some (buffer @ [ascii])\<rparr>
                  else kb_log (bytes ''[RUST KB] Buffer full, dropping character'' @ [ch_newline]) k
              | None \<Rightarrow> kb_log (bytes ''[RUST KB] Buffer not initialized'' @ [ch_newline]) k)
         | None \<Rightarrow> k)
      else k)"

section \<open>A bounded character queue\<close>

text \<open>The contract between the interrupt side and the readers: a key press that decodes is appended
  while there is room, anything else changes nothing; a read takes the oldest character, or gives -1
  when there is none.\<close>

definition decode :: "u8 \<Rightarrow> u8 option" where
  "decode scancode = (if scancode AND 0x80 = 0 then scancode_to_ascii scancode else None)"

text \<open>\<open>drain_with get n\<close> reads \<open>n\<close> characters.\<close>

fun drain_with :: "('s \<Rightarrow> int \<times> 's) \<Rightarrow> nat \<Rightarrow> 's \<Rightarrow> int list \<times> 's" where
  "drain_with get 0 s = ([], s)"
| "drain_with get (Suc n) s =
     (let (c, s') = get s; (cs, s'') = drain_with get n s' in (c # cs, s''))"

locale char_queue =
  fixes ok :: "'s \<Rightarrow> bool"
    and contents :: "'s \<Rightarrow> u8 list"
    and put :: "u8 \<Rightarrow> 's \<Rightarrow> 's"
    and get :: "'s \<Rightarrow> int \<times> 's"
  assumes ok_put: "ok s \<Longrightarrow> ok (put c s)"
    and ok_get: "ok s \<Longrightarrow> ok (snd (get s))"
    and contents_put: "ok s \<Longrightarrow> contents (put c s) =
      (case decode c of Some a \<Rightarrow> if length (contents s) < 256 then contents s @ [a] else contents s
       | None \<Rightarrow> contents s)"
    and get_empty: "ok s \<Longrightarrow> contents s = [] \<Longrightarrow> get s = (- 1, s)"
    and get_first: "ok s \<Longrightarrow> contents s = a # as \<Longrightarrow>
      fst (get s) = int (unat a) \<and> contents (snd (get s)) = as"
begin

lemma ok_puts: "ok s \<Longrightarrow> ok (fold put cs s)"
  by (induction cs arbitrary: s) (auto simp: ok_put)

lemma contents_puts:
  assumes "ok s" "length (contents s) + length (List.map_filter decode cs) \<le> 256"
  shows "contents (fold put cs s) = contents s @ List.map_filter decode cs"
  using assms
proof (induction cs arbitrary: s)
  case (Cons c cs)
  show ?case
  proof (cases "decode c")
    case None
    with Cons.IH [of "put c s"] Cons.prems show ?thesis
      by (simp add: contents_put ok_put)
  next
    case (Some a)
    with Cons.prems have "contents (put c s) = contents s @ [a]"
      by (simp add: contents_put)
    with Some Cons.IH [of "put c s"] Cons.prems show ?thesis by (simp add: ok_put)
  qed
qed simp

lemma drain_contents:
  "ok s \<Longrightarrow> contents s = as @ bs \<Longrightarrow>
   \<exists>s'. drain_with get (length as) s = (map (int \<circ> unat) as, s') \<and> ok s' \<and> contents s' = bs"
proof (induction as arbitrary: s)
  case (Cons a as)
  obtain c s1 where g: "get s = (c, s1)" by fastforce
  with get_first [of s a "as @ bs"] ok_get [of s] Cons.prems
  have "c = int (unat a)" "contents s1 = as @ bs" "ok s1" by simp_all
  with g Cons.IH [of s1] show ?case by auto
qed simp

text \<open>What is typed comes out, in order.\<close>

lemma typed_comes_out:
  assumes "ok s" "contents s = []" "length (List.map_filter decode cs) \<le> 256"
  shows "fst (drain_with get (length (List.map_filter decode cs)) (fold put cs s)) =
    map (int \<circ> unat) (List.map_filter decode cs)"
  using drain_contents [of "fold put cs s" "List.map_filter decode cs" "[]"] ok_puts [OF assms(1)]
    contents_puts [of s cs] assms
  by auto

end
section \<open>The driver implements it\<close>

definition kb_contents :: "keyboard \<Rightarrow> u8 list" where
  "kb_contents k = (case KEYBOARD_BUFFER k of Some b \<Rightarrow> b | None \<Rightarrow> [])"

definition kb_ok :: "keyboard \<Rightarrow> bool" where
  "kb_ok k \<longleftrightarrow> KEYBOARD_INITIALIZED k \<and>
     (\<exists>b. KEYBOARD_BUFFER k = Some b \<and> length b \<le> 256 \<and> 0 \<notin> set b)"

lemma scancode_to_ascii_nonzero: "scancode_to_ascii c = Some a \<Longrightarrow> a \<noteq> 0"
  by (auto simp: scancode_to_ascii_def Let_def split: if_splits)

lemma kb_ok_put:
  "kb_ok k \<Longrightarrow> kb_ok (rust_keyboard_put_scancode c k)"
  "kb_ok k \<Longrightarrow> kb_ok (rust_keyboard_handle_interrupt c k)"
  by (auto simp: kb_ok_def rust_keyboard_put_scancode_def rust_keyboard_handle_interrupt_def
      handle_keyboard_interrupt_def kb_log_def split: option.splits dest: scancode_to_ascii_nonzero)

interpretation kbq: char_queue kb_ok kb_contents rust_keyboard_put_scancode rust_keyboard_get_char
proof
  fix k c
  assume k: "kb_ok k"
  show "kb_ok (rust_keyboard_put_scancode c k)" using k by (rule kb_ok_put)
  show "kb_ok (snd (rust_keyboard_get_char k))"
    using k by (auto simp: kb_ok_def rust_keyboard_get_char_def get_char_def split: list.split)
  show "kb_contents (rust_keyboard_put_scancode c k) =
      (case decode c of Some a \<Rightarrow> if length (kb_contents k) < 256 then kb_contents k @ [a] else kb_contents k
       | None \<Rightarrow> kb_contents k)"
    using k by (auto simp: kb_ok_def kb_contents_def rust_keyboard_put_scancode_def kb_log_def decode_def
        split: option.splits)
next
  fix k
  assume "kb_ok k" "kb_contents k = []"
  then show "rust_keyboard_get_char k = (- 1, k)"
    by (auto simp: kb_ok_def kb_contents_def rust_keyboard_get_char_def get_char_def)
next
  fix k a as
  assume "kb_ok k" "kb_contents k = a # as"
  then show "fst (rust_keyboard_get_char k) = int (unat a) \<and> kb_contents (snd (rust_keyboard_get_char k)) = as"
    by (auto simp: kb_ok_def kb_contents_def rust_keyboard_get_char_def get_char_def)
qed

inductive kb_reach :: "keyboard \<Rightarrow> bool" where
  boot: "kb_reach boot_keyboard"
| init: "kb_reach k \<Longrightarrow> kb_reach (rust_keyboard_init k)"
| scancode: "kb_reach k \<Longrightarrow> kb_reach (rust_keyboard_put_scancode c k)"
| interrupt: "kb_reach k \<Longrightarrow> kb_reach (rust_keyboard_handle_interrupt c k)"
| getc: "kb_reach k \<Longrightarrow> rust_keyboard_get_char k = (c, k') \<Longrightarrow> kb_reach k'"
| flush: "kb_reach k \<Longrightarrow> kb_reach (rust_keyboard_clear_buffer k)"

lemma kb_reach_ok:
  "kb_reach k \<Longrightarrow> kb_ok k \<or> \<not> KEYBOARD_INITIALIZED k \<and> KEYBOARD_BUFFER k = None"
proof (induction rule: kb_reach.induct)
  case (scancode k c)
  from scancode.IH show ?case
  proof
    assume "\<not> KEYBOARD_INITIALIZED k \<and> KEYBOARD_BUFFER k = None"
    then show ?thesis by (simp add: rust_keyboard_put_scancode_def kb_log_def split: option.split)
  qed (simp add: kb_ok_put)
next
  case (interrupt k c)
  from interrupt.IH show ?case
  proof
    assume "\<not> KEYBOARD_INITIALIZED k \<and> KEYBOARD_BUFFER k = None"
    then show ?thesis
      by (simp add: rust_keyboard_handle_interrupt_def handle_keyboard_interrupt_def split: option.split)
  qed (simp add: kb_ok_put)
next
  case (getc k c k')
  from getc.IH show ?case
  proof
    assume "kb_ok k"
    with kbq.ok_get [of k] getc show ?thesis by simp
  next
    assume "\<not> KEYBOARD_INITIALIZED k \<and> KEYBOARD_BUFFER k = None"
    with getc show ?thesis by (auto simp: rust_keyboard_get_char_def get_char_def)
  qed
qed (auto simp: boot_keyboard_def rust_keyboard_init_def kb_ok_def rust_keyboard_clear_buffer_def
    clear_buffer_def)

section \<open>Properties\<close>

text \<open>C22: The keyboard queue is a FIFO: after any sequence of scan codes whose decoded characters fit into its
  256 places, reading that many characters from an empty queue returns exactly the characters of the
  key presses, in the order of typing; key releases and keys without a character leave no trace.\<close>

theorem keyboard_fifo:
  assumes "kb_ok k" "kb_contents k = []" "length (List.map_filter decode cs) \<le> 256"
  shows "fst (drain_with rust_keyboard_get_char (length (List.map_filter decode cs)) (fold rust_keyboard_put_scancode cs k)) =
    map (int \<circ> unat) (List.map_filter decode cs)"
  using assms by (rule kbq.typed_comes_out)

theorem keyboard_fifo_witness:
  "fst (drain_with rust_keyboard_get_char 2 (fold rust_keyboard_put_scancode [0x23, 0xA3, 0x2A, 0x17] (rust_keyboard_init boot_keyboard))) =
     [104, 105]"
proof -
  have m: "List.map_filter decode [0x23, 0xA3, 0x2A, 0x17] = [104, 105]"
    by code_simp
  have k: "kb_ok (rust_keyboard_init boot_keyboard)" "kb_contents (rust_keyboard_init boot_keyboard) = []"
    by (simp_all add: kb_ok_def kb_contents_def rust_keyboard_init_def)
  have "length [104, 105 :: u8] = 2" "map (int \<circ> unat) [104, 105 :: u8] = [104, 105]" by simp_all
  from keyboard_fifo [OF k, of "[0x23, 0xA3, 0x2A, 0x17]", unfolded m this] show ?thesis by simp
qed

text \<open>C23: In every reachable state the queue holds at most 256 characters and no zero byte, so a read returns -1
  exactly when nothing is queued and otherwise a code between 1 and 255.\<close>

theorem keyboard_reach_invariant:
  assumes "kb_reach k"
  shows "length (kb_contents k) \<le> 256 \<and> 0 \<notin> set (kb_contents k) \<and>
    (fst (rust_keyboard_get_char k) = - 1 \<longleftrightarrow> \<not> buffer_has_data k) \<and>
    (buffer_has_data k \<longrightarrow> fst (rust_keyboard_get_char k) \<in> {1..255})"
proof -
  have *: "int (unat (a :: u8)) \<in> {1..255}" if "a \<noteq> 0" for a
  proof -
    have "unat a < 256" using unsigned_less [of a] by simp
    moreover have "0 < unat a" using that by (simp add: unat_gt_0)
    ultimately show ?thesis unfolding atLeastAtMost_iff by linarith
  qed
  from kb_reach_ok [OF assms] show ?thesis
  proof
    assume "kb_ok k"
    then obtain b where "KEYBOARD_INITIALIZED k" "KEYBOARD_BUFFER k = Some b" "length b \<le> 256" "0 \<notin> set b"
      by (auto simp: kb_ok_def)
    then show ?thesis using * [of "hd b"]
      by (cases b) (auto simp: kb_contents_def rust_keyboard_get_char_def get_char_def buffer_has_data_def)
  next
    assume "\<not> KEYBOARD_INITIALIZED k \<and> KEYBOARD_BUFFER k = None"
    then show ?thesis
      by (simp add: kb_contents_def rust_keyboard_get_char_def get_char_def buffer_has_data_def)
  qed
qed

theorem keyboard_reach_invariant_witness:
  "fst (rust_keyboard_get_char (rust_keyboard_put_scancode 0x1E (rust_keyboard_init boot_keyboard))) \<in> {1..255}"
proof -
  let ?k = "rust_keyboard_put_scancode 0x1E (rust_keyboard_init boot_keyboard)"
  have "kb_reach ?k" by (intro kb_reach.intros)
  moreover have "buffer_has_data ?k" by code_simp
  ultimately show ?thesis using keyboard_reach_invariant [of ?k] by blast
qed

end
