(* ===== verification/Process_Manager.thy ===== *)
theory Process_Manager
  imports Kernel_Prelude
begin

text \<open>
  The process table (\<^verbatim>\<open>kernel-rs/src/process.rs\<close>): process control blocks with their memory
  regions, creation, termination and the access check that the system calls consult.

  The general registers of a control block are a function from register names. The messages that
  the code formats are computed, since formatting can panic; only those it really sends are logged.
\<close>

section \<open>Definitions\<close>

datatype ProcessState = Ready | Running | Blocked | Zombie | Terminated

datatype PrivilegeLevel = Kernel | User

datatype MemoryRegionType = Code | Data | Stack | Heap | Shared

record MemoryRegion =
  start_addr :: u64
  end_addr :: u64
  permissions :: u32
  region_type :: MemoryRegionType

datatype Register = RAX | RBX | RCX | RDX | RSI | RDI | RBP | RSP | R8 | R9 | R10 | R11 | R12 | R13 | R14 | R15
  | RIP | RFLAGS

record ProcessControlBlock =
  pid :: u32
  parent_pid :: u32
  pstate :: ProcessState
  privilege_level :: PrivilegeLevel
  regs :: "Register \<Rightarrow> u64"
  seg_cs :: u16
  seg_ds :: u16
  seg_es :: u16
  seg_fs :: u16
  seg_gs :: u16
  seg_ss :: u16
  page_directory :: u64
  memory_regions :: "MemoryRegion list"
  heap_start :: u64
  heap_end :: u64
  stack_start :: u64
  stack_end :: u64
  fd_table :: "u32 option list"
  cwd :: "u8 list"
  creation_time :: u64
  cpu_time :: u64
  priority :: int
  exit_code :: int

definition pcb_new :: "u32 \<Rightarrow> u32 \<Rightarrow> PrivilegeLevel \<Rightarrow> ProcessControlBlock" where
  "pcb_new pd ppid level =
     \<lparr>pid = pd, parent_pid = ppid, pstate = Ready, privilege_level = level,
      regs = (\<lambda>_. 0)(RFLAGS := 0x202),
      seg_cs = (case level of Kernel \<Rightarrow> 0x08 | User \<Rightarrow> 0x1B),
      seg_ds = (case level of Kernel \<Rightarrow> 0x10 | User \<Rightarrow> 0x23),
      seg_es = 0, seg_fs = 0, seg_gs = 0,
      seg_ss = (case level of Kernel \<Rightarrow> 0x10 | User \<Rightarrow> 0x23),
      page_directory = 0, memory_regions = [], heap_start = 0, heap_end = 0, stack_start = 0, stack_end = 0,
      fd_table = replicate 256 None, cwd = replicate 256 0,
      creation_time = 0, cpu_time = 0, priority = 0, exit_code = 0\<rparr>"

definition add_memory_region :: "MemoryRegion \<Rightarrow> ProcessControlBlock \<Rightarrow> ProcessControlBlock" where
  "add_memory_region region p = p\<lparr>memory_regions := memory_regions p @ [region]\<rparr>"

fun region_access :: "MemoryRegion list \<Rightarrow> u64 \<Rightarrow> u32 \<Rightarrow> bool" where
  "region_access [] addr access_type = False"
| "region_access (region # rs) addr access_type =
     (if start_addr region \<le> addr \<and> addr < end_addr region
      then permissions region AND access_type \<noteq> 0
      else region_access rs addr access_type)"

definition check_memory_access :: "ProcessControlBlock \<Rightarrow> u64 \<Rightarrow> u32 \<Rightarrow> bool" where
  "check_memory_access p addr access_type = region_access (memory_regions p) addr access_type"

record ProcessManager =
  processes :: "ProcessControlBlock list"
  current_pid :: u32
  next_pid :: u32

definition pm_new :: ProcessManager where
  "pm_new = \<lparr>processes = [], current_pid = 0, next_pid = 1\<rparr>"

text \<open>The decimal digits of an id in a buffer of ten bytes, printed from the last to the first.\<close>

definition id_digits :: "u8 list \<Rightarrow> nat \<Rightarrow> (u8 list \<times> u8 list) option" where
  "id_digits digits n =
     (case (if n = 0 then arr_set digits 0 ch_zero \<bind> (\<lambda>ds. Some (ds, 1)) else digit_loop digits 0 n) of
        None \<Rightarrow> None
      | Some (ds, d) \<Rightarrow> Some (ds, map (\<lambda>j. ds ! j) (rev [0..<d])))"

definition pid_message :: "u8 list \<Rightarrow> u32 \<Rightarrow> u8 list option" where
  "pid_message prefix pd = do {
     (msg, i) \<leftarrow> arr_write 0 prefix (replicate 64 0);
     (digits, txt) \<leftarrow> id_digits (replicate 10 0) (unat pd);
     let (msg, i) = arr_write_below (64 - 3) i txt msg;
     msg \<leftarrow> arr_set msg i ch_newline;
     arr_set msg (i + 1) 0
   }"

definition region :: "u64 \<Rightarrow> u64 \<Rightarrow> u32 \<Rightarrow> MemoryRegionType \<Rightarrow> MemoryRegion" where
  "region a b perms t = \<lparr>start_addr = a, end_addr = b, permissions = perms, region_type = t\<rparr>"

definition setup_regions :: "PrivilegeLevel \<Rightarrow> ProcessControlBlock \<Rightarrow> ProcessControlBlock" where
  "setup_regions level pcb =
     (case level of
        Kernel \<Rightarrow> add_memory_region (region 0 0xFFFFFFFFFFFFFFFF 7 Code) pcb
      | User \<Rightarrow>
          (let p1 = add_memory_region (region 0x400000 0x800000 5 Code) pcb;
               p2 = add_memory_region (region 0x800000 0xC00000 3 Data) p1;
               p3 = add_memory_region (region 0x7FFFFFF00000 0x800000000000 3 Stack) p2
           in p3\<lparr>stack_start := 0x7FFFFFF00000, stack_end := 0x800000000000,
                 regs := (regs p3)(RSP := 0x7FFFFFFFF000)\<rparr>))"

definition create_process :: "u32 \<Rightarrow> PrivilegeLevel \<Rightarrow> ProcessManager \<Rightarrow> (u32 \<times> ProcessManager) option" where
  "create_process parent level pm =
     (let pd = next_pid pm;
          pm1 = pm\<lparr>next_pid := next_pid pm + 1\<rparr>;
          pcb1 = setup_regions level (pcb_new pd parent level);
          pcb2 = pcb1\<lparr>cwd := (cwd pcb1)[0 := ch_slash, 1 := 0],
                      fd_table := (fd_table pcb1)[0 := Some 0, 1 := Some 1, 2 := Some 2]\<rparr>;
          pm2 = pm1\<lparr>processes := processes pm1 @ [pcb2]\<rparr>
      in do {
        _ \<leftarrow> pid_message (bytes ''[PROCESS] Created process PID='') pd;
        Some (pd, pm2)
      })"

definition get_process :: "u32 \<Rightarrow> ProcessManager \<Rightarrow> ProcessControlBlock option" where
  "get_process pd pm = find (\<lambda>p. pid p = pd) (processes pm)"

definition get_current_process :: "ProcessManager \<Rightarrow> ProcessControlBlock option" where
  "get_current_process pm = (if current_pid pm = 0 then None else get_process (current_pid pm) pm)"

definition set_current_process :: "u32 \<Rightarrow> ProcessManager \<Rightarrow> ProcessManager" where
  "set_current_process pd pm = pm\<lparr>current_pid := pd\<rparr>"

text \<open>The update through the reference that \<open>get_process\<close> returns: the first block with the id.\<close>

fun update_first :: "('a \<Rightarrow> bool) \<Rightarrow> ('a \<Rightarrow> 'a) \<Rightarrow> 'a list \<Rightarrow> 'a list" where
  "update_first P f [] = []"
| "update_first P f (x # xs) = (if P x then f x # xs else x # update_first P f xs)"

definition terminate_process :: "u32 \<Rightarrow> int \<Rightarrow> ProcessManager \<Rightarrow> ProcessManager option" where
  "terminate_process pd code pm =
     (case get_process pd pm of
        Some process \<Rightarrow> do {
          _ \<leftarrow> pid_message (bytes ''[PROCESS] Terminated PID='') pd;
          Some (pm\<lparr>processes := update_first (\<lambda>p. pid p = pd)
                     (\<lambda>p. p\<lparr>pstate := Terminated, exit_code := code\<rparr>) (processes pm)\<rparr>)
        }
      | None \<Rightarrow> Some pm)"

definition process_line :: "ProcessControlBlock \<Rightarrow> u8 list option" where
  "process_line p = do {
     let lim = 128 - 3;
     (digits, txt) \<leftarrow> id_digits (replicate 10 0) (unat (pid p));
     let (msg, i) = arr_write_below lim 0 txt (replicate 128 0);
     msg \<leftarrow> arr_set msg i 9;
     (digits, txt) \<leftarrow> id_digits digits (unat (parent_pid p));
     let (msg, i) = arr_write_below lim (i + 1) txt msg;
     msg \<leftarrow> arr_set msg i 9;
     let state_str = (case pstate p of Ready \<Rightarrow> bytes ''Ready     '' | Running \<Rightarrow> bytes ''Running   ''
                      | Blocked \<Rightarrow> bytes ''Blocked   '' | Zombie \<Rightarrow> bytes ''Zombie    ''
                      | Terminated \<Rightarrow> bytes ''Terminated'');
     let (msg, i) = arr_write_below lim (i + 1) state_str msg;
     let priv_str = (case privilege_level p of Kernel \<Rightarrow> bytes ''Kernel '' | User \<Rightarrow> bytes ''User   '');
     let (msg, i) = arr_write_below lim i priv_str msg;
     arr_set msg i 0
   }"

definition list_processes :: "ProcessManager \<Rightarrow> u8 list list option" where
  "list_processes pm = do {
     _ \<leftarrow> fold_opt (\<lambda>p _. process_line p \<bind> (\<lambda>_. Some ())) (processes pm) ();
     Some [bytes ''[PROCESS] Process List:'' @ [ch_newline],
           bytes ''PID'' @ [9] @ bytes ''PPID'' @ [9] @ bytes ''State'' @ [9, 9] @ bytes ''Privilege'' @ [ch_newline]]
   }"

text \<open>The exported functions over the static \<open>PROCESS_MANAGER\<close>.\<close>

record process_state =
  PROCESS_MANAGER :: "ProcessManager option"
  proc_serial :: "u8 list list"

definition rust_process_init :: "process_state \<Rightarrow> process_state option" where
  "rust_process_init s = do {
     (init_pid, pm) \<leftarrow> create_process 0 Kernel pm_new;
     Some (s\<lparr>PROCESS_MANAGER := Some (set_current_process init_pid pm)\<rparr>)
   }"

definition rust_process_create :: "u32 \<Rightarrow> bool \<Rightarrow> process_state \<Rightarrow> (u32 \<times> process_state) option" where
  "rust_process_create parent is_kernel s =
     (case PROCESS_MANAGER s of
        Some pm \<Rightarrow> do {
          let privilege = (if is_kernel then Kernel else User);
          (pd, pm') \<leftarrow> create_process parent privilege pm;
          Some (pd, s\<lparr>PROCESS_MANAGER := Some pm'\<rparr>)
        }
      | None \<Rightarrow> Some (0, s))"

definition rust_process_terminate :: "u32 \<Rightarrow> int \<Rightarrow> process_state \<Rightarrow> process_state option" where
  "rust_process_terminate pd code s =
     (case PROCESS_MANAGER s of
        Some pm \<Rightarrow> do { pm' \<leftarrow> terminate_process pd code pm; Some (s\<lparr>PROCESS_MANAGER := Some pm'\<rparr>) }
      | None \<Rightarrow> Some s)"

definition rust_process_list :: "process_state \<Rightarrow> process_state option" where
  "rust_process_list s =
     (case PROCESS_MANAGER s of
        Some pm \<Rightarrow> do { ls \<leftarrow> list_processes pm; Some (s\<lparr>proc_serial := proc_serial s @ ls\<rparr>) }
      | None \<Rightarrow> Some s)"

definition rust_process_check_access :: "u32 \<Rightarrow> u64 \<Rightarrow> u32 \<Rightarrow> process_state \<Rightarrow> bool" where
  "rust_process_check_access pd addr access_type s =
     (case PROCESS_MANAGER s of
        Some pm \<Rightarrow>
          (case get_process pd pm of Some process \<Rightarrow> check_memory_access process addr access_type | None \<Rightarrow> False)
      | None \<Rightarrow> False)"

definition rust_process_get_current_pid :: "process_state \<Rightarrow> u32" where
  "rust_process_get_current_pid s =
     (case PROCESS_MANAGER s of Some pm \<Rightarrow> current_pid pm | None \<Rightarrow> 0)"

section \<open>Messages never overrun their buffers\<close>

lemma id_digits_ten:
  assumes "n < 10 ^ 10" "length digits = 10"
  obtains ds where "id_digits digits n = Some (ds, dec_text n)" "length ds = 10"
proof (cases "n = 0")
  case True
  then show thesis using that [of "digits[0 := ch_zero]"] assms(2)
    by (simp add: id_digits_def arr_set_def dec_text.simps [of 0])
next
  case False
  have "length (dec_text n) \<le> 10" using assms(1) by (intro length_dec_text_le) simp_all
  then have "digit_loop digits 0 n =
      Some (rev (dec_text n) @ drop (length (dec_text n)) digits, length (dec_text n))"
    using False assms(2) by (simp add: digit_loop_dec_text arr_write_fits)
  with False map_rev_digits [of "dec_text n" "drop (length (dec_text n)) digits"]
    \<open>length (dec_text n) \<le> 10\<close> assms(2) that show thesis
    by (simp add: id_digits_def)
qed

lemma pid_message_total:
  assumes "length pre + 10 \<le> 61"
  shows "\<exists>msg. pid_message pre pd = Some msg \<and> c_text msg = c_text (pre @ dec_text (unat pd) @ [ch_newline])"
proof -
  let ?t = "dec_text (unat pd)"
  have t: "length ?t \<le> 10" by (rule length_dec_text_u32)
  obtain ds where ds: "id_digits (replicate 10 0) (unat pd) = Some (ds, ?t)"
    using id_digits_ten [OF u32_ten_digits [of pd], of "replicate 10 0"] by auto
  have "pid_message pre pd = Some (padded 64 (pre @ ?t @ [ch_newline]))"
    using ds assms t arr_write_padded [of "[]" pre 64] arr_write_below_padded [of pre ?t 61 64]
      arr_set_padded [of "pre @ ?t" 64 ch_newline] arr_set_padded_zero [of "pre @ ?t @ [ch_newline]" 64]
    by (simp add: pid_message_def padded_start)
  moreover have "c_text (padded 64 (pre @ ?t @ [ch_newline])) = c_text (pre @ ?t @ [ch_newline])"
    by (cases "64 - length (pre @ ?t @ [ch_newline])") (simp_all add: padded_def c_text_zero del: append_assoc add: append_assoc [symmetric])
  ultimately show ?thesis by blast
qed

lemma process_line_total: "\<exists>msg. process_line p = Some msg"
proof -
  have len: "length (bytes s) = length s" for s by (simp add: bytes_def)
  obtain ds where ds: "id_digits (replicate 10 0) (unat (pid p)) = Some (ds, dec_text (unat (pid p)))" "length ds = 10"
    using id_digits_ten [OF u32_ten_digits [of "pid p"], of "replicate 10 0"] by auto
  obtain es where es: "id_digits ds (unat (parent_pid p)) = Some (es, dec_text (unat (parent_pid p)))"
    using id_digits_ten [OF u32_ten_digits [of "parent_pid p"] ds(2)] by auto
  obtain m1 i1 where 1: "arr_write_below 125 0 (dec_text (unat (pid p))) (replicate 128 0) = (m1, i1)" by fastforce
  with arr_write_below_bound [OF 1] have b1: "length m1 = 128" "i1 \<le> 125" by auto
  let ?m1 = "m1[i1 := 9]"
  have i1: "i1 \<le> 10"
  proof -
    have "i1 = length (dec_text (unat (pid p)))"
      using 1 arr_write_below_fits [of 0 "dec_text (unat (pid p))" 125 "replicate 128 0"]
        length_dec_text_u32 [of "pid p"] by auto
    then show ?thesis using length_dec_text_u32 [of "pid p"] by simp
  qed
  obtain m2 i2 where 2: "arr_write_below 125 (i1 + 1) (dec_text (unat (parent_pid p))) ?m1 = (m2, i2)" by fastforce
  have b2: "length m2 = 128" "i2 \<le> 21"
    using 2 arr_write_below_fits [of "i1 + 1" "dec_text (unat (parent_pid p))" 125 ?m1]
      length_dec_text_u32 [of "parent_pid p"] i1 b1 by auto
  let ?m2 = "m2[i2 := 9]"
  let ?st = "case pstate p of Ready \<Rightarrow> bytes ''Ready     '' | Running \<Rightarrow> bytes ''Running   ''
      | Blocked \<Rightarrow> bytes ''Blocked   '' | Zombie \<Rightarrow> bytes ''Zombie    '' | Terminated \<Rightarrow> bytes ''Terminated''"
  let ?pv = "case privilege_level p of Kernel \<Rightarrow> bytes ''Kernel '' | User \<Rightarrow> bytes ''User   ''"
  obtain m3 i3 where 3: "arr_write_below 125 (i2 + 1) ?st ?m2 = (m3, i3)" by fastforce
  from arr_write_below_bound [OF 3] b2 have b3: "length m3 = 128" "i3 \<le> 125" by auto
  obtain m4 i4 where 4: "arr_write_below 125 i3 ?pv m3 = (m4, i4)" by fastforce
  from arr_write_below_bound [OF 4] b3 have b4: "length m4 = 128" "i4 \<le> 125" by auto
  have "process_line p = arr_set m4 i4 0"
    unfolding process_line_def using ds es 1 2 3 4 b1 b2 i1 by (simp add: arr_set_Some)
  with b4 show ?thesis by (simp add: arr_set_Some)
qed

section \<open>The process table\<close>

text \<open>The control block of a new process.\<close>

definition fresh_pcb :: "u32 \<Rightarrow> u32 \<Rightarrow> PrivilegeLevel \<Rightarrow> ProcessControlBlock" where
  "fresh_pcb pd parent level =
     (let p = setup_regions level (pcb_new pd parent level)
      in p\<lparr>cwd := (cwd p)[0 := ch_slash, 1 := 0], fd_table := (fd_table p)[0 := Some 0, 1 := Some 1, 2 := Some 2]\<rparr>)"

lemma create_process_eq:
  "create_process parent level pm =
     Some (next_pid pm, pm\<lparr>next_pid := next_pid pm + 1,
       processes := processes pm @ [fresh_pcb (next_pid pm) parent level]\<rparr>)"
  using pid_message_total [of "bytes ''[PROCESS] Created process PID=''" "next_pid pm"]
  by (auto simp: create_process_def fresh_pcb_def Let_def)

lemma update_first_none: "\<forall>x \<in> set xs. \<not> P x \<Longrightarrow> update_first P f xs = xs"
  by (induction xs) auto

lemma terminate_process_eq:
  "terminate_process pd code pm =
     Some (pm\<lparr>processes := update_first (\<lambda>p. pid p = pd)
       (\<lambda>p. p\<lparr>pstate := Terminated, exit_code := code\<rparr>) (processes pm)\<rparr>)"
proof (cases "get_process pd pm")
  case None
  then have "update_first (\<lambda>p. pid p = pd) f (processes pm) = processes pm" for f
    unfolding get_process_def find_None_iff by (intro update_first_none) auto
  with None show ?thesis by (simp add: terminate_process_def)
next
  case (Some p)
  then show ?thesis
    using pid_message_total [of "bytes ''[PROCESS] Terminated PID=''" pd]
    by (auto simp: terminate_process_def)
qed

lemma list_processes_total: "\<exists>ls. list_processes pm = Some ls"
proof -
  have "\<exists>u. fold_opt (\<lambda>p _. process_line p \<bind> (\<lambda>_. Some ())) ps () = Some u" for ps
  proof (induction ps)
    case (Cons p ps)
    obtain msg where "process_line p = Some msg" using process_line_total by blast
    with Cons show ?case by simp
  qed simp
  from this [of "processes pm"] show ?thesis by (auto simp: list_processes_def)
qed

definition user_regions :: "MemoryRegion list" where
  "user_regions = [region 0x400000 0x800000 5 Code, region 0x800000 0xC00000 3 Data,
     region 0x7FFFFFF00000 0x800000000000 3 Stack]"

definition kernel_regions :: "MemoryRegion list" where
  "kernel_regions = [region 0 0xFFFFFFFFFFFFFFFF 7 Code]"

text \<open>A control block as creation leaves it: regions and selectors match its privilege.\<close>

definition pcb_ok :: "ProcessControlBlock \<Rightarrow> bool" where
  "pcb_ok p \<longleftrightarrow>
     (case privilege_level p of
        Kernel \<Rightarrow> memory_regions p = kernel_regions \<and> seg_cs p AND 3 = 0 \<and> seg_ss p AND 3 = 0
      | User \<Rightarrow> memory_regions p = user_regions \<and> seg_cs p AND 3 = 3 \<and> seg_ss p AND 3 = 3)"

lemma fresh_pcb_ok: "pcb_ok (fresh_pcb pd parent level)" "pid (fresh_pcb pd parent level) = pd"
  "privilege_level (fresh_pcb pd parent level) = level"
  by (cases level; simp add: fresh_pcb_def setup_regions_def pcb_new_def add_memory_region_def Let_def pcb_ok_def
      user_regions_def kernel_regions_def)+

definition pm_ok :: "ProcessManager \<Rightarrow> bool" where
  "pm_ok pm \<longleftrightarrow> map pid (processes pm) = map of_nat [1..<Suc (length (processes pm))] \<and>
     next_pid pm = of_nat (Suc (length (processes pm))) \<and> (\<forall>p \<in> set (processes pm). pcb_ok p)"

definition proc_ok :: "process_state \<Rightarrow> bool" where
  "proc_ok s \<longleftrightarrow> (case PROCESS_MANAGER s of None \<Rightarrow> True | Some pm \<Rightarrow> pm_ok pm)"

lemma pm_ok_create:
  assumes "pm_ok pm" "create_process parent level pm = Some (pd, pm')"
  shows "pm_ok pm'"
  using assms by (auto simp: pm_ok_def create_process_eq fresh_pcb_ok)

lemma update_first_map: "(\<And>x. g (f x) = g x) \<Longrightarrow> map g (update_first P f xs) = map g xs"
  by (induction xs) auto

lemma length_update_first [simp]: "length (update_first P f xs) = length xs"
  by (induction xs) auto

lemma set_update_first: "x \<in> set (update_first P f xs) \<Longrightarrow> x \<in> set xs \<or> (\<exists>y \<in> set xs. P y \<and> x = f y)"
  by (induction xs) (auto split: if_splits)

lemma pm_ok_terminate:
  assumes "pm_ok pm" "terminate_process pd code pm = Some pm'"
  shows "pm_ok pm'"
proof -
  let ?f = "\<lambda>p. p\<lparr>pstate := Terminated, exit_code := code\<rparr>"
  have "pcb_ok (?f p) = pcb_ok p" for p
    by (simp add: pcb_ok_def split: PrivilegeLevel.split)
  then have "\<forall>p \<in> set (update_first (\<lambda>p. pid p = pd) ?f (processes pm)). pcb_ok p"
    using assms(1) set_update_first [of _ "\<lambda>p. pid p = pd" ?f "processes pm"] by (auto simp: pm_ok_def) blast
  moreover have "map pid (update_first (\<lambda>p. pid p = pd) ?f (processes pm)) = map pid (processes pm)"
    by (rule update_first_map) simp
  ultimately show ?thesis using assms by (auto simp: pm_ok_def terminate_process_eq)
qed

lemma pm_ok_set_current: "pm_ok (set_current_process pd pm) = pm_ok pm"
  by (simp add: pm_ok_def set_current_process_def)

text \<open>Everything the public functions can do to the table. Inside the repository only \<open>rust_process_init\<close> calls
  \<open>set_current_process\<close>, so the rule \<open>set_current\<close> stands for the context switch the table is made for.\<close>

inductive proc_reach :: "process_state \<Rightarrow> bool" where
  boot: "proc_reach \<lparr>PROCESS_MANAGER = None, proc_serial = []\<rparr>"
| init: "proc_reach s \<Longrightarrow> rust_process_init s = Some s' \<Longrightarrow> proc_reach s'"
| create: "proc_reach s \<Longrightarrow> rust_process_create parent k s = Some (pd, s') \<Longrightarrow> proc_reach s'"
| kill: "proc_reach s \<Longrightarrow> rust_process_terminate pd code s = Some s' \<Longrightarrow> proc_reach s'"
| show_list: "proc_reach s \<Longrightarrow> rust_process_list s = Some s' \<Longrightarrow> proc_reach s'"
| set_current: "proc_reach s \<Longrightarrow> PROCESS_MANAGER s = Some pm \<Longrightarrow>
    proc_reach (s\<lparr>PROCESS_MANAGER := Some (set_current_process pd pm)\<rparr>)"

lemma proc_reach_ok: "proc_reach s \<Longrightarrow> proc_ok s"
proof (induction rule: proc_reach.induct)
  case boot
  then show ?case by (simp add: proc_ok_def)
next
  case (init s s')
  have "pm_ok pm_new" by (simp add: pm_ok_def pm_new_def)
  obtain pd pm where pm: "create_process 0 Kernel pm_new = Some (pd, pm)"
    "s' = s\<lparr>PROCESS_MANAGER := Some (set_current_process pd pm)\<rparr>"
    using init.hyps by (auto simp: rust_process_init_def bind_eq_Some_conv)
  from pm_ok_create [OF \<open>pm_ok pm_new\<close> pm(1)] pm(2) show ?case
    by (simp add: proc_ok_def pm_ok_set_current)
next
  case (create s parent k pd s')
  then show ?case
    by (auto simp: rust_process_create_def proc_ok_def bind_eq_Some_conv Let_def
        split: option.splits intro: pm_ok_create)
next
  case (kill s pd code s')
  then show ?case
    by (auto simp: rust_process_terminate_def proc_ok_def bind_eq_Some_conv
        split: option.splits intro: pm_ok_terminate)
next
  case (show_list s s')
  then show ?case
    by (auto simp: rust_process_list_def proc_ok_def bind_eq_Some_conv split: option.splits)
next
  case (set_current s pm pd)
  then show ?case by (simp add: proc_ok_def pm_ok_set_current)
qed

text \<open>The contract of the table towards the system calls: what an access check can allow.\<close>

definition in_range :: "u64 \<Rightarrow> u64 \<Rightarrow> u64 \<Rightarrow> bool" where
  "in_range a lo hi \<longleftrightarrow> lo \<le> a \<and> a < hi"

definition user_code :: "u64 \<Rightarrow> bool" where "user_code a = in_range a 0x400000 0x800000"

definition user_data :: "u64 \<Rightarrow> bool" where
  "user_data a \<longleftrightarrow> in_range a 0x800000 0xC00000 \<or> in_range a 0x7FFFFFF00000 0x800000000000"

locale access_control =
  fixes ok :: "'s \<Rightarrow> bool"
    and level_of :: "u32 \<Rightarrow> 's \<Rightarrow> PrivilegeLevel option"
    and allowed :: "u32 \<Rightarrow> u64 \<Rightarrow> u32 \<Rightarrow> 's \<Rightarrow> bool"
  assumes unknown_denied: "level_of pd s = None \<Longrightarrow> \<not> allowed pd a k s"
    and user_allowed: "ok s \<Longrightarrow> level_of pd s = Some User \<Longrightarrow>
      allowed pd a k s \<longleftrightarrow> user_code a \<and> k AND 5 \<noteq> 0 \<or> user_data a \<and> k AND 3 \<noteq> 0"
    and kernel_allowed: "ok s \<Longrightarrow> level_of pd s = Some Kernel \<Longrightarrow>
      allowed pd a k s \<longleftrightarrow> a \<noteq> 0xFFFFFFFFFFFFFFFF \<and> k AND 7 \<noteq> 0"
begin

text \<open>No address of a user process is both writable and executable, and none outside its regions is
  accessible in any way.\<close>

lemma user_write_xor_execute:
  assumes "ok s" "level_of pd s = Some User"
  shows "\<not> (allowed pd a 2 s \<and> allowed pd a 4 s)"
  using user_allowed [OF assms, of a 2] user_allowed [OF assms, of a 4]
  by (auto simp: user_code_def user_data_def in_range_def word_le_nat_alt word_less_nat_alt)

lemma user_confined:
  assumes "ok s" "level_of pd s = Some User" "allowed pd a k s"
  shows "user_code a \<or> user_data a"
  using user_allowed [OF assms(1,2), of a k] assms(3) by blast

end

definition process_level :: "u32 \<Rightarrow> process_state \<Rightarrow> PrivilegeLevel option" where
  "process_level pd s =
     (case PROCESS_MANAGER s of None \<Rightarrow> None | Some pm \<Rightarrow> map_option privilege_level (get_process pd pm))"

lemma get_process_ok: "pm_ok pm \<Longrightarrow> get_process pd pm = Some p \<Longrightarrow> pcb_ok p"
  unfolding get_process_def find_Some_iff pm_ok_def by (metis nth_mem)

lemma region_access_user:
  "region_access user_regions a k \<longleftrightarrow> user_code a \<and> k AND 5 \<noteq> 0 \<or> user_data a \<and> k AND 3 \<noteq> 0"
proof -
  have "\<not> (user_code a \<and> in_range a 0x800000 0xC00000)" "\<not> (user_code a \<and> in_range a 0x7FFFFFF00000 0x800000000000)"
    "\<not> (in_range a 0x800000 0xC00000 \<and> in_range a 0x7FFFFFF00000 0x800000000000)"
    by (auto simp: user_code_def in_range_def word_le_nat_alt word_less_nat_alt)
  then show ?thesis
    by (auto simp: user_regions_def region_def user_code_def user_data_def in_range_def and.commute [of _ k])
qed

lemma region_access_kernel:
  "region_access kernel_regions a k \<longleftrightarrow> a \<noteq> 0xFFFFFFFFFFFFFFFF \<and> k AND 7 \<noteq> 0"
proof -
  have "a < 0xFFFFFFFFFFFFFFFF \<longleftrightarrow> a \<noteq> (0xFFFFFFFFFFFFFFFF :: u64)"
    using u64_bound [of a] by (auto simp: word_less_nat_alt word_unat_eq_iff)
  then show ?thesis by (simp add: kernel_regions_def region_def and.commute [of _ k])
qed

lemma check_access_level:
  assumes "proc_ok s" "process_level pd s = Some l"
  shows "rust_process_check_access pd a k s =
    region_access (case l of Kernel \<Rightarrow> kernel_regions | User \<Rightarrow> user_regions) a k"
proof -
  obtain pm p where pm: "PROCESS_MANAGER s = Some pm" and p: "get_process pd pm = Some p" "privilege_level p = l"
    using assms(2) by (auto simp: process_level_def split: option.splits)
  have "pcb_ok p" using assms(1) pm p(1) get_process_ok by (simp add: proc_ok_def)
  then show ?thesis using pm p
    by (cases l) (simp_all add: rust_process_check_access_def check_memory_access_def pcb_ok_def)
qed

interpretation procs: access_control proc_ok process_level rust_process_check_access
proof
  fix s pd a k
  show "\<not> rust_process_check_access pd a k s" if "process_level pd s = None"
    using that by (auto simp: process_level_def rust_process_check_access_def split: option.splits)
qed (simp_all add: check_access_level region_access_user region_access_kernel)

lemma pm_ok_distinct:
  assumes "pm_ok pm" "length (processes pm) < 2 ^ 32 - 1"
  shows "distinct (map pid (processes pm))"
proof -
  have "inj_on (of_nat :: nat \<Rightarrow> u32) (set [1..<Suc (length (processes pm))])"
    using assms(2) by (auto simp: inj_on_def word_of_nat_eq_iff take_bit_nat_eq_self)
  then have "distinct (map (of_nat :: nat \<Rightarrow> u32) [1..<Suc (length (processes pm))])"
    by (simp add: distinct_map del: upt_Suc)
  with assms(1) show ?thesis by (simp only: pm_ok_def)
qed

lemma pm_ok_pid_nth:
  assumes "pm_ok pm" "i < length (processes pm)"
  shows "pid (processes pm ! i) = of_nat (Suc i)"
proof -
  have "map pid (processes pm) ! i = map of_nat [1..<Suc (length (processes pm))] ! i"
    using assms(1) by (simp only: pm_ok_def)
  then show ?thesis using assms(2) by (simp del: upt_Suc)
qed

lemma pm_ok_next_fresh:
  assumes "pm_ok pm" "length (processes pm) < 2 ^ 32 - 1"
  shows "next_pid pm \<notin> pid ` set (processes pm)"
proof -
  have "next_pid pm \<noteq> of_nat (Suc i)" if "i < length (processes pm)" for i
    using assms that by (simp add: pm_ok_def word_of_nat_eq_iff take_bit_nat_eq_self del: of_nat_Suc)
  then show ?thesis using pm_ok_pid_nth [OF assms(1)] by (metis imageE in_set_conv_nth)
qed

lemma find_update_first:
  "find (\<lambda>p. pid p = pd) (update_first (\<lambda>p. pid p = qd) f xs) =
     (if pd = qd then map_option f (find (\<lambda>p. pid p = pd) xs) else find (\<lambda>p. pid p = pd) xs)"
  if "\<And>p. pid (f p) = pid p" for f :: "ProcessControlBlock \<Rightarrow> ProcessControlBlock"
  by (induction xs) (auto simp: that)

text \<open>A table with the kernel process 1 and the user process 2.\<close>

definition demo_procs :: process_state where
  "demo_procs = \<lparr>PROCESS_MANAGER = Some \<lparr>processes = [fresh_pcb 1 0 Kernel, fresh_pcb 2 1 User],
     current_pid = 1, next_pid = 3\<rparr>, proc_serial = []\<rparr>"

lemma demo_procs_reach: "proc_reach demo_procs"
proof -
  let ?s0 = "\<lparr>PROCESS_MANAGER = None, proc_serial = []\<rparr>"
  let ?s1 = "\<lparr>PROCESS_MANAGER = Some \<lparr>processes = [fresh_pcb 1 0 Kernel], current_pid = 1, next_pid = 2\<rparr>,
      proc_serial = []\<rparr>"
  have "rust_process_init ?s0 = Some ?s1"
    by (simp add: rust_process_init_def create_process_eq pm_new_def set_current_process_def)
  then have "proc_reach ?s1" by (rule proc_reach.init [OF proc_reach.boot])
  moreover have "rust_process_create 1 False ?s1 = Some (2, demo_procs)"
    by (simp add: rust_process_create_def create_process_eq demo_procs_def)
  ultimately show ?thesis by (rule proc_reach.create)
qed

lemma demo_procs_level: "process_level 2 demo_procs = Some User" "process_level 1 demo_procs = Some Kernel"
  by (simp_all add: demo_procs_def process_level_def get_process_def fresh_pcb_ok)

section \<open>Properties\<close>

text \<open>Creating, terminating and listing processes never panics, whatever the table holds: the message
  buffers are large enough for every id.\<close>

theorem process_operations_total:
  "(\<exists>s'. rust_process_init s = Some s') \<and> (\<exists>r. rust_process_create parent k s = Some r) \<and>
   (\<exists>s'. rust_process_terminate pd code s = Some s') \<and> (\<exists>s'. rust_process_list s = Some s')"
proof -
  have "\<exists>s'. rust_process_list s = Some s'"
  proof (cases "PROCESS_MANAGER s")
    case (Some pm)
    obtain ls where "list_processes pm = Some ls" using list_processes_total by blast
    with Some show ?thesis by (simp add: rust_process_list_def)
  qed (simp add: rust_process_list_def)
  then show ?thesis
    by (auto simp: rust_process_init_def rust_process_create_def rust_process_terminate_def create_process_eq
        terminate_process_eq Let_def split: option.split)
qed

text \<open>C24: In every reachable process table, process number \<open>i\<close> has the id \<open>i\<close>, so ids are distinct as long as fewer
  than \<open>2 ^ 32 - 1\<close> processes were created, and the id handed out next is unused.\<close>

theorem process_ids_unique:
  assumes "proc_reach s" "PROCESS_MANAGER s = Some pm" "length (processes pm) < 2 ^ 32 - 1"
  shows "distinct (map pid (processes pm)) \<and> next_pid pm \<notin> pid ` set (processes pm) \<and>
    (\<forall>i < length (processes pm). get_process (of_nat (Suc i)) pm = Some (processes pm ! i))"
proof -
  have ok: "pm_ok pm" using proc_reach_ok [OF assms(1)] assms(2) by (simp add: proc_ok_def)
  let ?n = "length (processes pm)"
  have d: "distinct (map pid (processes pm))" using ok assms(3) by (rule pm_ok_distinct)
  have "next_pid pm \<notin> pid ` set (processes pm)" using ok assms(3) by (rule pm_ok_next_fresh)
  moreover have "get_process (of_nat (Suc i)) pm = Some (processes pm ! i)" if "i < ?n" for i
    unfolding get_process_def find_Some_iff
    using that d pm_ok_pid_nth [OF ok] by (intro exI [of _ i]) (auto simp: distinct_conv_nth)
  ultimately show ?thesis using d by blast
qed

theorem process_ids_unique_witness:
  "get_process (of_nat (Suc 1)) \<lparr>processes = [fresh_pcb 1 0 Kernel, fresh_pcb 2 1 User], current_pid = 1, next_pid = 3\<rparr> =
     Some (fresh_pcb 2 1 User)"
  using process_ids_unique [OF demo_procs_reach, of "the (PROCESS_MANAGER demo_procs)"]
  by (simp add: demo_procs_def All_less_Suc)

text \<open>C12: The access check confines user processes: in every reachable table a user process may execute only its
  code region, write only its data and stack regions, read only these three, and no address is both
  writable and executable.\<close>

theorem user_process_confined:
  assumes "proc_reach s" "process_level pd s = Some User"
  shows "(rust_process_check_access pd a 1 s \<longleftrightarrow> user_code a \<or> user_data a) \<and>
    (rust_process_check_access pd a 2 s \<longleftrightarrow> user_data a) \<and>
    (rust_process_check_access pd a 4 s \<longleftrightarrow> user_code a) \<and>
    \<not> (rust_process_check_access pd a 2 s \<and> rust_process_check_access pd a 4 s)"
proof -
  have ok: "proc_ok s" using assms(1) by (rule proc_reach_ok)
  show ?thesis
    using procs.user_write_xor_execute [OF ok assms(2), of a] procs.user_allowed [OF ok assms(2), of a]
    by simp
qed

theorem user_process_confined_witness:
  "\<not> rust_process_check_access 2 0x1000 2 demo_procs \<and> rust_process_check_access 2 0x800010 2 demo_procs"
  using user_process_confined [OF demo_procs_reach demo_procs_level(1), of "0x1000"]
    user_process_confined [OF demo_procs_reach demo_procs_level(1), of "0x800010"]
  by (simp add: user_code_def user_data_def in_range_def)

text \<open>A kernel process may access every address except the last one: its region ends, exclusively, at
  \<open>0xFFFFFFFFFFFFFFFF\<close>.\<close>

theorem kernel_process_access:
  assumes "proc_reach s" "process_level pd s = Some Kernel"
  shows "rust_process_check_access pd a k s \<longleftrightarrow> a \<noteq> 0xFFFFFFFFFFFFFFFF \<and> k AND 7 \<noteq> 0"
  using proc_reach_ok [OF assms(1)] assms(2) by (rule procs.kernel_allowed)

theorem kernel_process_access_witness:
  "rust_process_check_access 1 0 1 demo_procs \<and> \<not> rust_process_check_access 1 0xFFFFFFFFFFFFFFFF 1 demo_procs"
  using kernel_process_access [OF demo_procs_reach demo_procs_level(2), of 0 1]
    kernel_process_access [OF demo_procs_reach demo_procs_level(2), of "0xFFFFFFFFFFFFFFFF" 1]
  by simp

text \<open>Terminating a process marks exactly the process with that id as terminated with the given code; every
  other lookup gives the same control block as before, and an unknown id changes nothing.\<close>

theorem terminate_frame:
  "\<exists>pm'. terminate_process qd code pm = Some pm' \<and>
     get_process pd pm' =
       (if pd = qd then map_option (\<lambda>p. p\<lparr>pstate := Terminated, exit_code := code\<rparr>) (get_process pd pm)
        else get_process pd pm) \<and>
     map pid (processes pm') = map pid (processes pm) \<and> current_pid pm' = current_pid pm"
  by (simp add: terminate_process_eq get_process_def find_update_first update_first_map)

end
