(* ===== verification/Task_Scheduler.thy ===== *)
theory Task_Scheduler
  imports Kernel_Prelude
begin

text \<open>
  Tasks and the scheduler: \<^verbatim>\<open>kernel-rs/src/scheduler.rs\<close>, the \<open>Task\<close> struct of
  \<^verbatim>\<open>kernel-rs/src/process.rs\<close> and the task functions of \<^verbatim>\<open>kernel-rs/src/lib.rs.template\<close>.

  A \<open>*mut Task\<close> always points into the static array \<open>TASKS\<close>, so it is an index (\<open>None\<close> is null). The
  stacks themselves are not part of the model, only the initial stack pointer, computed from the
  address of the array. The context switch is assembly: it stores the processor's stack pointer
  through its first argument, so that value is an argument of every operation that may switch, and
  the switch itself is recorded. The search loop follows the ring of \<open>next\<close> pointers until it is
  back at \<open>current\<close>; a run that never gets back has the value \<open>None\<close>.
\<close>

section \<open>Definitions\<close>

record Task =
  rsp :: u64
  rip :: u64
  tstate :: u8
  task_id :: int
  user_mode :: u8
  priority :: u8
  cr3 :: u64
  tnext :: "nat option"

abbreviation TASK_READY :: u8 where "TASK_READY \<equiv> 1"
abbreviation TASK_TERMINATED :: u8 where "TASK_TERMINATED \<equiv> 3"

definition RUST_MAX_TASKS :: nat where "RUST_MAX_TASKS = 16"

record tasks =
  current :: "nat option"
  TASKS :: "Task list"
  NUM_TASKS :: int
  switches :: "(nat \<times> u64) list"

definition boot_tasks :: tasks where
  "boot_tasks = \<lparr>current = None,
     TASKS = replicate 16 \<lparr>rsp = 0, rip = 0, tstate = TASK_TERMINATED, task_id = -1, user_mode = 0, priority = 0,
       cr3 = 0, tnext = None\<rparr>,
     NUM_TASKS = 0, switches = []\<rparr>"

abbreviation upd_task :: "nat \<Rightarrow> (Task \<Rightarrow> Task) \<Rightarrow> tasks \<Rightarrow> tasks" where
  "upd_task i f s \<equiv> s\<lparr>TASKS := (TASKS s)[i := f (TASKS s ! i)]\<rparr>"

definition rust_task_init :: "tasks \<Rightarrow> tasks" where
  "rust_task_init s =
     s\<lparr>TASKS := map (\<lambda>t. t\<lparr>tstate := TASK_TERMINATED, task_id := -1, tnext := None\<rparr>) (TASKS s),
       NUM_TASKS := 0, current := None\<rparr>"

text \<open>\<open>Task\<close> takes 16432 bytes and its stack starts at offset 16.\<close>

definition stack_top :: "u64 \<Rightarrow> nat \<Rightarrow> u64" where
  "stack_top tasks_addr i = tasks_addr + of_nat (i * 16432 + 16 + (16384 - 1))"

definition link_task :: "nat \<Rightarrow> tasks \<Rightarrow> tasks" where
  "link_task i s =
     (case current s of
        None \<Rightarrow> (upd_task i (\<lambda>t. t\<lparr>tnext := Some i\<rparr>) s)\<lparr>current := Some i\<rparr>
      | Some c \<Rightarrow>
          let nxt = tnext (TASKS s ! c);
              s1 = upd_task c (\<lambda>t. t\<lparr>tnext := Some i\<rparr>) s
          in upd_task i (\<lambda>t. t\<lparr>tnext := nxt\<rparr>) s1)"

definition rust_task_create :: "u64 \<Rightarrow> u64 \<Rightarrow> tasks \<Rightarrow> int \<times> tasks" where
  "rust_task_create tasks_addr entry s =
     (case find (\<lambda>i. tstate (TASKS s ! i) = TASK_TERMINATED) [0..<RUST_MAX_TASKS] of
        None \<Rightarrow> (-1, s)
      | Some i \<Rightarrow>
          let s1 = upd_task i (\<lambda>t. t\<lparr>tstate := TASK_READY, task_id := int i, rip := entry,
                     rsp := stack_top tasks_addr i\<rparr>) s;
              s2 = link_task i s1
          in (int i, s2\<lparr>NUM_TASKS := NUM_TASKS s2 + 1\<rparr>))"

definition rust_task_create_user :: int where
  "rust_task_create_user = -1"

text \<open>One turn of the search: the READY task with a smaller priority value wins.\<close>

definition consider_task :: "Task list \<Rightarrow> nat \<Rightarrow> nat option \<times> int \<Rightarrow> nat option \<times> int" where
  "consider_task ts t b =
     (if tstate (ts ! t) = TASK_READY \<and> uint (priority (ts ! t)) < snd b
      then (Some t, uint (priority (ts ! t))) else b)"

partial_function (option) tick_loop ::
    "Task list \<Rightarrow> nat \<Rightarrow> nat \<Rightarrow> nat option \<times> int \<Rightarrow> (nat option \<times> int) option" where
  "tick_loop ts cur t b =
     (let b' = consider_task ts t b in
      case tnext (ts ! t) of
        None \<Rightarrow> None
      | Some t' \<Rightarrow> if t' = cur then Some b' else tick_loop ts cur t' b')"

definition i32_max :: int where "i32_max = 2 ^ 31 - 1"

definition rust_scheduler_tick :: "u64 \<Rightarrow> tasks \<Rightarrow> tasks option" where
  "rust_scheduler_tick cpu_rsp s =
     (case current s of
        None \<Rightarrow> Some s
      | Some prev \<Rightarrow>
          (case tick_loop (TASKS s) prev prev (None, i32_max) of
             None \<Rightarrow> None
           | Some (best, _) \<Rightarrow>
               (case best of
                  Some b \<Rightarrow>
                    if b \<noteq> prev then
                      let new_rsp = rsp (TASKS s ! b)
                      in Some (upd_task prev (\<lambda>t. t\<lparr>rsp := cpu_rsp\<rparr>)
                           (s\<lparr>current := Some b, switches := switches s @ [(prev, new_rsp)]\<rparr>))
                    else Some s
                | None \<Rightarrow> Some s)))"

definition rust_task_yield :: "u64 \<Rightarrow> tasks \<Rightarrow> tasks option" where
  "rust_task_yield = rust_scheduler_tick"

definition rust_task_exit :: "u64 \<Rightarrow> tasks \<Rightarrow> tasks option" where
  "rust_task_exit cpu_rsp s =
     (case current s of
        None \<Rightarrow> Some s
      | Some c \<Rightarrow> rust_scheduler_tick cpu_rsp (upd_task c (\<lambda>t. t\<lparr>tstate := TASK_TERMINATED\<rparr>) s))"

definition rust_task_schedule :: "u64 \<Rightarrow> tasks \<Rightarrow> tasks option" where
  "rust_task_schedule = rust_scheduler_tick"

section \<open>The ring\<close>

text \<open>\<open>path_to ts xs e\<close>: the \<open>next\<close> pointers lead through \<open>xs\<close> in order and from its last element to \<open>e\<close>.\<close>

fun path_to :: "Task list \<Rightarrow> nat list \<Rightarrow> nat \<Rightarrow> bool" where
  "path_to ts [] e = True"
| "path_to ts [x] e \<longleftrightarrow> tnext (ts ! x) = Some e"
| "path_to ts (x # y # xs) e \<longleftrightarrow> tnext (ts ! x) = Some y \<and> path_to ts (y # xs) e"

definition linked :: "tasks \<Rightarrow> nat list \<Rightarrow> bool" where
  "linked s xs \<longleftrightarrow> length (TASKS s) = 16 \<and> distinct xs \<and> set xs \<subseteq> {..<16} \<and>
     (current s = None \<longleftrightarrow> xs = []) \<and> (\<forall>c. current s = Some c \<longrightarrow> hd xs = c \<and> path_to (TASKS s) xs c)"

text \<open>A ring: every task that is not on it is terminated and not linked.\<close>

definition ring :: "tasks \<Rightarrow> nat list \<Rightarrow> bool" where
  "ring s xs \<longleftrightarrow> linked s xs \<and>
     (\<forall>i < 16. i \<notin> set xs \<longrightarrow> tstate (TASKS s ! i) = TASK_TERMINATED \<and> tnext (TASKS s ! i) = None)"

lemma path_to_cong: "(\<And>x. x \<in> set xs \<Longrightarrow> tnext (ts ! x) = tnext (us ! x)) \<Longrightarrow> path_to ts xs e = path_to us xs e"
  by (induction ts xs e rule: path_to.induct) auto

lemma path_to_append:
  "xs \<noteq> [] \<Longrightarrow> ys \<noteq> [] \<Longrightarrow> path_to ts (xs @ ys) e \<longleftrightarrow> path_to ts xs (hd ys) \<and> path_to ts ys e"
  by (induction ts xs e rule: path_to.induct) (auto simp: neq_Nil_conv)

text \<open>On a ring the search is a fold over the tasks in order, so it ends.\<close>

lemma tick_loop_path:
  "path_to ts xs cur \<Longrightarrow> xs \<noteq> [] \<Longrightarrow> cur \<notin> set (tl xs) \<Longrightarrow> 
   tick_loop ts cur (hd xs) b = Some (fold (consider_task ts) xs b)"
proof (induction ts xs cur arbitrary: b rule: path_to.induct)
  case (2 ts x e)
  then show ?case by (simp add: tick_loop.simps [of ts e x] Let_def)
next
  case (3 ts x y xs e)
  then show ?case by (simp add: tick_loop.simps [of ts e x] Let_def)
qed simp

text \<open>What the fold computes: the first READY task with the smallest priority value.\<close>

definition first_best :: "Task list \<Rightarrow> nat list \<Rightarrow> nat \<Rightarrow> bool" where
  "first_best ts xs x \<longleftrightarrow>
     (\<exists>us vs. xs = us @ x # vs \<and> tstate (ts ! x) = TASK_READY \<and>
        (\<forall>u \<in> set us. tstate (ts ! u) = TASK_READY \<longrightarrow> priority (ts ! x) < priority (ts ! u)) \<and>
        (\<forall>v \<in> set vs. tstate (ts ! v) = TASK_READY \<longrightarrow> priority (ts ! x) \<le> priority (ts ! v)))"

lemma first_best_snoc_new:
  assumes "tstate (ts ! y) = TASK_READY"
    and "\<And>u. u \<in> set xs \<Longrightarrow> tstate (ts ! u) = TASK_READY \<Longrightarrow> priority (ts ! y) < priority (ts ! u)"
  shows "first_best ts (xs @ [y]) y"
  unfolding first_best_def using assms by (intro exI [of _ xs] exI [of _ "[]"]) auto

lemma first_best_snoc_old:
  assumes "first_best ts xs x" "tstate (ts ! y) = TASK_READY \<Longrightarrow> priority (ts ! x) \<le> priority (ts ! y)"
  shows "first_best ts (xs @ [y]) x"
proof -
  obtain us vs where "xs = us @ x # vs" and *: "tstate (ts ! x) = TASK_READY"
    "\<forall>u \<in> set us. tstate (ts ! u) = TASK_READY \<longrightarrow> priority (ts ! x) < priority (ts ! u)"
    "\<forall>v \<in> set vs. tstate (ts ! v) = TASK_READY \<longrightarrow> priority (ts ! x) \<le> priority (ts ! v)"
    using assms(1) unfolding first_best_def by blast
  then have "xs @ [y] = us @ x # (vs @ [y])" by simp
  then show ?thesis unfolding first_best_def using * assms(2) by (intro exI [of _ us] exI [of _ "vs @ [y]"]) auto
qed

lemma first_best_le:
  assumes "first_best ts xs x" "y \<in> set xs" "tstate (ts ! y) = TASK_READY"
  shows "priority (ts ! x) \<le> priority (ts ! y)"
  using assms unfolding first_best_def by fastforce

lemma first_best_mem: "first_best ts xs x \<Longrightarrow> x \<in> set xs \<and> tstate (ts ! x) = TASK_READY"
  by (auto simp: first_best_def)

lemma uint_priority_less: "uint (p :: u8) < i32_max"
  using uint_lt2p [of p] by (simp add: i32_max_def)

lemma fold_consider:
  "(\<exists>x. fold (consider_task ts) xs (None, i32_max) = (Some x, uint (priority (ts ! x))) \<and> first_best ts xs x) \<or>
   (fold (consider_task ts) xs (None, i32_max) = (None, i32_max) \<and> (\<forall>x \<in> set xs. tstate (ts ! x) \<noteq> TASK_READY))"
proof (induction xs rule: rev_induct)
  case (snoc y ys)
  then consider (old) x where "fold (consider_task ts) ys (None, i32_max) = (Some x, uint (priority (ts ! x)))" "first_best ts ys x"
    | (none) "fold (consider_task ts) ys (None, i32_max) = (None, i32_max)" "\<forall>x \<in> set ys. tstate (ts ! x) \<noteq> TASK_READY"
    by blast
  then show ?case
  proof cases
    case old
    show ?thesis
    proof (cases "tstate (ts ! y) = TASK_READY \<and> priority (ts ! y) < priority (ts ! x)")
      case True
      then have "first_best ts (ys @ [y]) y"
        using first_best_le [OF old(2)] by (intro first_best_snoc_new) (auto intro: less_le_trans)
      then show ?thesis using True old(1) by (simp add: consider_task_def [of ts y] word_less_def)
    next
      case False
      then have "first_best ts (ys @ [y]) x" using old(2) by (intro first_best_snoc_old) auto
      then show ?thesis using False old(1) by (auto simp: consider_task_def [of ts y] word_less_def)
    qed
  next
    case none
    show ?thesis
    proof (cases "tstate (ts ! y) = TASK_READY")
      case True
      then have "first_best ts (ys @ [y]) y" using none(2) by (intro first_best_snoc_new) auto
      then show ?thesis using True none(1) uint_priority_less by (simp add: consider_task_def [of ts y])
    next
      case False
      then show ?thesis using none by (simp add: consider_task_def [of ts y])
    qed
  qed
qed simp

section \<open>The operations keep the ring\<close>

lemma path_to_next: "path_to ts xs e \<Longrightarrow> x \<in> set xs \<Longrightarrow> tnext (ts ! x) \<noteq> None"
  by (induction ts xs e rule: path_to.induct) auto

lemma linked_current:
  assumes "linked s xs" "current s = Some c"
  obtains ys where "xs = c # ys" "c \<notin> set ys" "path_to (TASKS s) (c # ys) c" "c < 16" "set ys \<subseteq> {..<16}"
proof (cases xs)
  case Nil
  with assms show ?thesis by (simp add: linked_def)
next
  case (Cons y ys)
  with assms that [of ys] show ?thesis by (auto simp: linked_def)
qed

lemma linked_length: "linked s xs \<Longrightarrow> length (TASKS s) = 16"
  by (simp add: linked_def)

lemma ring_linked: "ring s xs \<Longrightarrow> linked s xs"
  by (simp add: ring_def)

lemmas ring_current = linked_current [OF ring_linked]
lemmas ring_length = linked_length [OF ring_linked]

lemma tick_ring:
  assumes "ring s xs" "current s = Some c"
  shows "(\<exists>b. first_best (TASKS s) xs b \<and> rust_scheduler_tick r s =
      Some (if b = c then s else upd_task c (\<lambda>t. t\<lparr>rsp := r\<rparr>)
        (s\<lparr>current := Some b, switches := switches s @ [(c, rsp (TASKS s ! b))]\<rparr>))) \<or>
    (\<forall>x \<in> set xs. tstate (TASKS s ! x) \<noteq> TASK_READY) \<and> rust_scheduler_tick r s = Some s"
proof -
  from assms obtain ys where ys: "xs = c # ys" "c \<notin> set ys" "path_to (TASKS s) (c # ys) c" by (rule ring_current)
  then have "tick_loop (TASKS s) c c (None, i32_max) = Some (fold (consider_task (TASKS s)) xs (None, i32_max))"
    using tick_loop_path [of "TASKS s" "c # ys" c] by simp
  then show ?thesis using fold_consider [of "TASKS s" xs] assms(2)
    by (auto simp: rust_scheduler_tick_def Let_def)
qed

lemma ring_rotate:
  assumes "ring s xs" "current s = Some c" "b \<in> set xs" "b \<noteq> c"
    and "\<And>i. tnext (ts ! i) = tnext (TASKS s ! i)" "\<And>i. tstate (ts ! i) = tstate (TASKS s ! i)" "length ts = 16"
  shows "\<exists>ys. set ys = set xs \<and> ring (s\<lparr>current := Some b, switches := w, TASKS := ts\<rparr>) ys"
proof -
  from assms(1,2) obtain zs where zs: "xs = c # zs" "path_to (TASKS s) (c # zs) c" by (rule ring_current)
  with assms(3,4) obtain us vs where uv: "xs = us @ b # vs" "us \<noteq> []" "hd us = c"
    by (metis append_Cons hd_append2 list.sel(1) list.set_intros(1) set_ConsD split_list append_Nil)
  then have "path_to (TASKS s) us b \<and> path_to (TASKS s) (b # vs) c"
    using zs path_to_append [of us "b # vs" "TASKS s" c] by simp
  then have "path_to (TASKS s) ((b # vs) @ us) b" using uv path_to_append [of "b # vs" us "TASKS s" b] by simp
  then have "path_to ts ((b # vs) @ us) b" using path_to_cong [of "(b # vs) @ us" ts "TASKS s" b] assms(5) by simp
  then have "ring (s\<lparr>current := Some b, switches := w, TASKS := ts\<rparr>) ((b # vs) @ us)"
    using assms uv by (auto simp: ring_def linked_def)
  moreover have "set ((b # vs) @ us) = set xs" using uv by auto
  ultimately show ?thesis by blast
qed

lemma ring_tick:
  assumes "ring s xs" "rust_scheduler_tick r s = Some s'"
  shows "\<exists>ys. set ys = set xs \<and> ring s' ys"
proof (cases "current s")
  case None
  then show ?thesis using assms by (auto simp: rust_scheduler_tick_def)
next
  case (Some c)
  then have c: "c < 16" "length (TASKS s) = 16" using assms(1) ring_current ring_length by blast+
  from tick_ring [OF assms(1) Some, of r] consider "s' = s"
    | b where "first_best (TASKS s) xs b" "b \<noteq> c" "s' = upd_task c (\<lambda>t. t\<lparr>rsp := r\<rparr>)
        (s\<lparr>current := Some b, switches := switches s @ [(c, rsp (TASKS s ! b))]\<rparr>)"
    using assms(2) by (auto split: if_splits)
  then show ?thesis
  proof cases
    case 2
    let ?ts = "(TASKS s)[c := (TASKS s ! c)\<lparr>rsp := r\<rparr>]"
    have "tnext (?ts ! i) = tnext (TASKS s ! i) \<and> tstate (?ts ! i) = tstate (TASKS s ! i)" for i
      using c by (cases "i = c") simp_all
    then show ?thesis
      using ring_rotate [OF assms(1) Some, of b ?ts "switches s @ [(c, rsp (TASKS s ! b))]"] 2 first_best_mem c
      by simp
  qed (use assms(1) in blast)
qed

lemma ring_exit_state:
  assumes "ring s xs" "current s = Some c"
  shows "ring (upd_task c (\<lambda>t. t\<lparr>tstate := TASK_TERMINATED\<rparr>) s) xs"
proof -
  from assms obtain ys where ys: "xs = c # ys" "path_to (TASKS s) (c # ys) c" "c < 16" by (rule ring_current)
  have l: "length (TASKS s) = 16" using assms(1) by (rule ring_length)
  let ?ts = "(TASKS s)[c := (TASKS s ! c)\<lparr>tstate := TASK_TERMINATED\<rparr>]"
  have "tnext (?ts ! i) = tnext (TASKS s ! i)" for i using ys(3) l by (cases "i = c") simp_all
  then have "path_to ?ts xs c = path_to (TASKS s) xs c" by (intro path_to_cong) simp
  with assms ys l show ?thesis by (auto simp: ring_def linked_def nth_list_update)
qed

lemma linked_link_first:
  assumes "linked s xs" "current s = None" "i < 16"
  shows "linked (link_task i s) [i] \<and> (\<forall>j. j \<noteq> i \<longrightarrow> TASKS (link_task i s) ! j = TASKS s ! j)"
  using assms by (auto simp: linked_def link_task_def nth_list_update)

lemma linked_link_after:
  assumes "linked s xs" "current s = Some c" "i < 16" "i \<notin> set xs"
  shows "linked (link_task i s) (c # i # tl xs) \<and>
    (\<forall>j. j \<noteq> i \<longrightarrow> j \<noteq> c \<longrightarrow> TASKS (link_task i s) ! j = TASKS s ! j)"
proof -
  from assms(1,2) obtain ys where ys: "xs = c # ys" "c \<notin> set ys" "path_to (TASKS s) (c # ys) c" "c < 16" "set ys \<subseteq> {..<16}"
    by (rule linked_current)
  have l: "length (TASKS s) = 16" using assms(1) by (rule linked_length)
  let ?n = "tnext (TASKS s ! c)"
  let ?ts = "TASKS (link_task i s)"
  have nx: "tnext (?ts ! c) = Some i" "tnext (?ts ! i) = ?n" "\<And>j. j \<noteq> c \<Longrightarrow> j \<noteq> i \<Longrightarrow> ?ts ! j = TASKS s ! j"
    using assms(2-4) ys l by (auto simp: link_task_def Let_def nth_list_update)
  have "path_to ?ts (i # ys) c"
  proof (cases ys)
    case (Cons z zs)
    have "path_to ?ts ys c = path_to (TASKS s) ys c" using ys(1,2) assms(4) nx(3) by (intro path_to_cong) (metis list.set_intros(2))
    with ys(3) Cons nx(2) show ?thesis by simp
  qed (use ys(3) nx(2) in simp)
  with nx(1) have "path_to ?ts (c # i # ys) c" by simp
  moreover have "current (link_task i s) = Some c" "length ?ts = 16"
    using assms(2) l by (simp_all add: link_task_def Let_def)
  ultimately show ?thesis using assms ys nx(3) by (auto simp: linked_def)
qed

lemma find_free_slot:
  "find P [0..<RUST_MAX_TASKS] = Some i \<Longrightarrow> i < 16 \<and> P i"
  by (auto simp: find_Some_iff RUST_MAX_TASKS_def)

lemma linked_cong:
  assumes "linked s xs" "current s' = current s" "length (TASKS s') = 16" "\<And>j. tnext (TASKS s' ! j) = tnext (TASKS s ! j)"
  shows "linked s' xs"
proof -
  have "path_to (TASKS s') xs c = path_to (TASKS s) xs c" for c using assms(4) by (intro path_to_cong) simp
  with assms show ?thesis by (simp add: linked_def)
qed

lemma ring_create:
  assumes "ring s xs" "rust_task_create a e s = (n, s')"
    and "\<And>i. find (\<lambda>i. tstate (TASKS s ! i) = TASK_TERMINATED) [0..<RUST_MAX_TASKS] = Some i \<Longrightarrow> tnext (TASKS s ! i) = None"
  shows "\<exists>ys. ring s' ys"
proof (cases "find (\<lambda>i. tstate (TASKS s ! i) = TASK_TERMINATED) [0..<RUST_MAX_TASKS]")
  case None
  then show ?thesis using assms by (auto simp: rust_task_create_def)
next
  case (Some i)
  then have i: "i < 16" "tnext (TASKS s ! i) = None" using find_free_slot assms(3) by (blast, simp)
  have l: "length (TASKS s) = 16" using assms(1) by (rule ring_length)
  have out: "i \<notin> set xs"
    using i(2) assms(1) path_to_next [of "TASKS s" xs "hd xs" i]
    by (cases "current s") (auto simp: ring_def linked_def)
  define s1 where "s1 = upd_task i (\<lambda>t. t\<lparr>tstate := TASK_READY, task_id := int i, rip := e, rsp := stack_top a i\<rparr>) s"
  have s': "s' = (link_task i s1)\<lparr>NUM_TASKS := NUM_TASKS (link_task i s1) + 1\<rparr>"
    using assms(2) Some by (auto simp: rust_task_create_def s1_def Let_def)
  have s1: "linked s1 xs" using linked_cong [OF ring_linked [OF assms(1)], of s1] l i(1)
    by (simp add: s1_def nth_list_update)
  have idle: "tstate (TASKS s1 ! j) = TASK_TERMINATED \<and> tnext (TASKS s1 ! j) = None"
    if "j < 16" "j \<notin> set xs" "j \<noteq> i" for j
    using that assms(1) by (simp add: ring_def s1_def)
  show ?thesis
  proof (cases "current s1")
    case None
    then have "xs = []" using s1 by (simp add: linked_def)
    with linked_link_first [OF s1 None i(1)] idle have "ring s' [i]" by (auto simp: ring_def linked_def s')
    then show ?thesis by blast
  next
    case (Some c)
    obtain ys where ys: "xs = c # ys" using linked_current [OF s1 Some] by metis
    have k: "linked (link_task i s1) (c # i # ys)"
      "\<And>j. j \<noteq> i \<Longrightarrow> j \<noteq> c \<Longrightarrow> TASKS (link_task i s1) ! j = TASKS s1 ! j"
      using linked_link_after [OF s1 Some i(1) out] ys by simp_all
    have "linked s' (c # i # ys)" using linked_cong [OF k(1), of s'] linked_length [OF k(1)] by (simp add: s')
    moreover have "tstate (TASKS s' ! j) = TASK_TERMINATED \<and> tnext (TASKS s' ! j) = None"
      if "j < 16" "j \<notin> set (c # i # ys)" for j
      using that idle [of j] k(2) [of j] ys by (simp add: s')
    ultimately have "ring s' (c # i # ys)" unfolding ring_def by blast
    then show ?thesis by blast
  qed
qed

section \<open>Reachable task tables\<close>

text \<open>Creation is limited to slots that are not linked: \<open>task_slot_reuse_hangs\<close> shows what happens otherwise.\<close>

inductive task_reach :: "tasks \<Rightarrow> bool" where
  boot: "task_reach boot_tasks"
| init: "task_reach s \<Longrightarrow> task_reach (rust_task_init s)"
| create: "task_reach s \<Longrightarrow>
    (\<And>i. find (\<lambda>i. tstate (TASKS s ! i) = TASK_TERMINATED) [0..<RUST_MAX_TASKS] = Some i \<Longrightarrow> tnext (TASKS s ! i) = None) \<Longrightarrow>
    rust_task_create a e s = (n, s') \<Longrightarrow> task_reach s'"
| tick: "task_reach s \<Longrightarrow> rust_scheduler_tick r s = Some s' \<Longrightarrow> task_reach s'"
| exit: "task_reach s \<Longrightarrow> rust_task_exit r s = Some s' \<Longrightarrow> task_reach s'"

lemma ring_boot: "ring boot_tasks []"
  by (simp add: ring_def linked_def boot_tasks_def)

lemma ring_init: "length (TASKS s) = 16 \<Longrightarrow> ring (rust_task_init s) []"
  by (simp add: ring_def linked_def rust_task_init_def)

lemma task_reach_ring: "task_reach s \<Longrightarrow> \<exists>xs. ring s xs"
proof (induction rule: task_reach.induct)
  case (init s)
  then show ?case using ring_init ring_length by blast
next
  case (create s a e n s')
  then show ?case using ring_create by blast
next
  case (tick s r s')
  then show ?case using ring_tick by blast
next
  case (exit s r s')
  then show ?case using ring_tick ring_exit_state
    by (cases "current s") (auto simp: rust_task_exit_def, blast)
qed (use ring_boot in blast)

text \<open>Nothing sets a priority.\<close>

definition priorities :: "tasks \<Rightarrow> u8 list" where
  "priorities s = map priority (TASKS s)"

lemma map_priority_update: "priority x = priority (xs ! i) \<Longrightarrow> map priority (xs[i := x]) = map priority xs"
  by (cases "i < length xs") (simp_all add: map_update list_update_same_conv list_update_beyond)

lemma priorities_link: "priorities (link_task i s) = priorities s"
  by (simp add: priorities_def link_task_def Let_def map_priority_update split: option.split)

lemma priorities_create: "rust_task_create a e s = (n, s') \<Longrightarrow> priorities s' = priorities s"
  using priorities_link
  by (auto simp: rust_task_create_def Let_def priorities_def map_priority_update split: option.splits)

lemma priorities_tick: "rust_scheduler_tick r s = Some s' \<Longrightarrow> priorities s' = priorities s"
  by (auto simp: rust_scheduler_tick_def Let_def priorities_def map_priority_update split: option.splits if_splits)

lemma task_reach_priorities: "task_reach s \<Longrightarrow> priorities s = replicate 16 0"
proof (induction rule: task_reach.induct)
  case (exit s r s')
  then show ?case using priorities_tick
    by (cases "current s") (auto simp: rust_task_exit_def priorities_def map_priority_update)
qed (simp_all add: boot_tasks_def priorities_def rust_task_init_def comp_def
    priorities_create [unfolded priorities_def] priorities_tick [unfolded priorities_def])

lemma task_reach_priority: "task_reach s \<Longrightarrow> i < 16 \<Longrightarrow> priority (TASKS s ! i) = 0"
  using task_reach_priorities [of s] nth_map [of i "TASKS s" priority] map_eq_imp_length_eq
  by (metis length_map length_replicate nth_replicate priorities_def)

text \<open>A search that enters a self-loop away from \<open>current\<close> never ends.\<close>

lemma tick_loop_stuck: "tnext (ts ! t) = Some t \<Longrightarrow> t \<noteq> cur \<Longrightarrow> tick_loop ts cur t b = None"
proof -
  have "tick_loop ts cur t b = Some y \<Longrightarrow> tnext (ts ! t) = Some t \<longrightarrow> t = cur" for y
    by (rule tick_loop.raw_induct [of "\<lambda>ts cur t b y. tnext (ts ! t) = Some t \<longrightarrow> t = cur"])
      (auto simp: Let_def split: option.splits if_splits, metis surj_pair)
  then show "tnext (ts ! t) = Some t \<Longrightarrow> t \<noteq> cur \<Longrightarrow> ?thesis" by (cases "tick_loop ts cur t b") auto
qed

text \<open>Two tasks; the first has exited.\<close>

definition demo_two :: tasks where
  "demo_two = snd (rust_task_create 0 7 (snd (rust_task_create 0 5 boot_tasks)))"

lemma list_update_back: "i \<noteq> j \<Longrightarrow> xs[i := a, j := b, i := c] = xs[i := c, j := b]"
  by (metis list_update_overwrite list_update_swap)

lemma slots: "[0..<RUST_MAX_TASKS] = 0 # 1 # [2..<16]"
  by (simp add: RUST_MAX_TASKS_def upt_conv_Cons)

lemma demo_one:
  "rust_task_create 0 5 boot_tasks = (0, \<lparr>current = Some 0, TASKS = (TASKS boot_tasks)[0 :=
     \<lparr>rsp = 16399, rip = 5, tstate = TASK_READY, task_id = 0, user_mode = 0, priority = 0, cr3 = 0, tnext = Some 0\<rparr>],
     NUM_TASKS = 1, switches = []\<rparr>)"
  by (simp add: rust_task_create_def slots boot_tasks_def link_task_def stack_top_def)

lemma demo_two_eq:
  "demo_two = \<lparr>current = Some 0, TASKS = (TASKS boot_tasks)[0 :=
     \<lparr>rsp = 16399, rip = 5, tstate = TASK_READY, task_id = 0, user_mode = 0, priority = 0, cr3 = 0, tnext = Some 1\<rparr>,
     1 := \<lparr>rsp = 32831, rip = 7, tstate = TASK_READY, task_id = 1, user_mode = 0, priority = 0, cr3 = 0, tnext = Some 0\<rparr>],
     NUM_TASKS = 2, switches = []\<rparr>"
  unfolding demo_two_def demo_one
  by (simp add: rust_task_create_def slots boot_tasks_def link_task_def stack_top_def list_update_back)

lemma demo_two_reach: "task_reach demo_two"
proof -
  let ?s = "snd (rust_task_create 0 5 boot_tasks)"
  have "tnext (TASKS boot_tasks ! i) = None"
    if "find (\<lambda>i. tstate (TASKS boot_tasks ! i) = TASK_TERMINATED) [0..<RUST_MAX_TASKS] = Some i" for i
    using find_free_slot [OF that] by (simp add: boot_tasks_def)
  then have s: "task_reach ?s"
    by (rule task_reach.create [OF task_reach.boot _ prod.collapse [symmetric]])
  have "find (\<lambda>i. tstate (TASKS ?s ! i) = TASK_TERMINATED) [0..<RUST_MAX_TASKS] = Some 1"
    "tnext (TASKS ?s ! 1) = None"
    unfolding demo_one by (simp_all add: slots boot_tasks_def)
  then have "tnext (TASKS ?s ! i) = None"
    if "find (\<lambda>i. tstate (TASKS ?s ! i) = TASK_TERMINATED) [0..<RUST_MAX_TASKS] = Some i" for i
    using that by (simp only: option.inject)
  then show ?thesis unfolding demo_two_def
    by (rule task_reach.create [OF s _ prod.collapse [symmetric]])
qed

lemma demo_two_ring: "ring demo_two [0, 1]"
  by (simp add: ring_def linked_def demo_two_eq boot_tasks_def nth_list_update)

section \<open>Properties\<close>

text \<open>C11: On a ring of tasks a tick always returns, whatever the priorities and states. If no task is READY nothing
  changes; otherwise the task running afterwards is READY and no READY task has a smaller priority
  value, and if it is a different task the context switch goes to its saved stack pointer. The ring
  has the same members afterwards.\<close>

theorem scheduler_tick_picks_best:
  assumes "ring s xs" "current s = Some c"
  shows "\<exists>s' ys. rust_scheduler_tick r s = Some s' \<and> ring s' ys \<and> set ys = set xs \<and>
    (if \<forall>i < 16. tstate (TASKS s ! i) \<noteq> TASK_READY then s' = s
     else \<exists>b < 16. current s' = Some b \<and> tstate (TASKS s ! b) = TASK_READY \<and>
       (\<forall>i < 16. tstate (TASKS s ! i) = TASK_READY \<longrightarrow> priority (TASKS s ! b) \<le> priority (TASKS s ! i)) \<and>
       switches s' = (if b = c then switches s else switches s @ [(c, rsp (TASKS s ! b))]))"
proof -
  have out: "i \<in> set xs" if "i < 16" "tstate (TASKS s ! i) = TASK_READY" for i
    using that assms(1) by (auto simp: ring_def)
  have sub: "set xs \<subseteq> {..<16}" using assms(1) by (simp add: ring_def linked_def)
  consider
    (none) "\<forall>x \<in> set xs. tstate (TASKS s ! x) \<noteq> TASK_READY" "rust_scheduler_tick r s = Some s"
    | (best) b s' where "first_best (TASKS s) xs b" "rust_scheduler_tick r s = Some s'" "current s' = Some b"
      "switches s' = (if b = c then switches s else switches s @ [(c, rsp (TASKS s ! b))])"
    using tick_ring [OF assms, of r]
  proof (elim disjE exE conjE)
    fix b assume b: "first_best (TASKS s) xs b" "rust_scheduler_tick r s =
      Some (if b = c then s else upd_task c (\<lambda>t. t\<lparr>rsp := r\<rparr>)
        (s\<lparr>current := Some b, switches := switches s @ [(c, rsp (TASKS s ! b))]\<rparr>))"
    show thesis using best [OF b] assms(2) by simp
  qed
  then show ?thesis
  proof cases
    case none
    then have "\<forall>i < 16. tstate (TASKS s ! i) \<noteq> TASK_READY" using out by blast
    then show ?thesis using none(2) assms(1) by (intro exI [of _ s] exI [of _ xs]) simp
  next
    case best
    obtain ys where ys: "ring s' ys" "set ys = set xs" using ring_tick [OF assms(1) best(2)] by blast
    have b: "b < 16" "tstate (TASKS s ! b) = TASK_READY" using first_best_mem [OF best(1)] sub by auto
    have "priority (TASKS s ! b) \<le> priority (TASKS s ! i)" if "i < 16" "tstate (TASKS s ! i) = TASK_READY" for i
      using first_best_le [OF best(1) out [OF that] that(2)] .
    then have *: "\<exists>b < 16. current s' = Some b \<and> tstate (TASKS s ! b) = TASK_READY \<and>
       (\<forall>i < 16. tstate (TASKS s ! i) = TASK_READY \<longrightarrow> priority (TASKS s ! b) \<le> priority (TASKS s ! i)) \<and>
       switches s' = (if b = c then switches s else switches s @ [(c, rsp (TASKS s ! b))])"
      using best(3,4) b by blast
    have "\<not> (\<forall>i < 16. tstate (TASKS s ! i) \<noteq> TASK_READY)" using b by blast
    then show ?thesis using best(2) ys * by (simp only: if_False) blast
  qed
qed

theorem scheduler_tick_picks_best_witness:
  "\<exists>s'. rust_scheduler_tick 9 demo_two = Some s'"
  using scheduler_tick_picks_best [OF demo_two_ring, of 0 9] by (auto simp only: demo_two_eq tasks.simps)

text \<open>As nothing assigns a priority, in every reachable table a READY task that yields keeps the processor: the
  search starts at the yielding task and only a strictly smaller priority value replaces it.\<close>

theorem yield_never_switches:
  assumes "task_reach s" "current s = Some c" "tstate (TASKS s ! c) = TASK_READY"
  shows "rust_task_yield r s = Some s"
proof -
  obtain xs where xs: "ring s xs" using task_reach_ring [OF assms(1)] by blast
  then obtain ys where ys: "xs = c # ys" "c < 16" using assms(2) by (rule ring_current)
  from tick_ring [OF xs assms(2), of r] ys(1) assms(3) obtain b where b: "first_best (TASKS s) xs b"
    "rust_scheduler_tick r s = Some (if b = c then s else upd_task c (\<lambda>t. t\<lparr>rsp := r\<rparr>)
        (s\<lparr>current := Some b, switches := switches s @ [(c, rsp (TASKS s ! b))]\<rparr>))"
    by auto
  have "set xs \<subseteq> {..<16}" using xs by (simp add: ring_def linked_def)
  then have "priority (TASKS s ! b) = priority (TASKS s ! c)"
    using first_best_mem [OF b(1)] task_reach_priority [OF assms(1)] ys(2) by auto
  then have "b = c" using b(1) ys(1) assms(3) by (auto simp: first_best_def Cons_eq_append_conv)
  with b(2) show ?thesis by (simp add: rust_task_yield_def)
qed

theorem yield_never_switches_witness: "rust_task_yield 9 demo_two = Some demo_two"
  using yield_never_switches [OF demo_two_reach, of 0 9] by (simp add: demo_two_eq boot_tasks_def)


end
