(* ===== verification/Kernel_Memory.thy ===== *)
theory Kernel_Memory
  imports Kernel_Prelude
begin

text \<open>
  Byte memory: \<^verbatim>\<open>kernel-rs/src/memory.rs\<close> and \<^verbatim>\<open>kernel-rs/src/vm.rs\<close>.

  Memory is a function from 64-bit addresses to bytes; pointer arithmetic wraps. The page tables
  behind \<^verbatim>\<open>vm.rs\<close> are C code, so its self-test is the trace of calls it makes, given the address the
  table allocation returns.
\<close>

section \<open>Definitions\<close>

type_synonym memory = "usize \<Rightarrow> u8"

definition rust_memset :: "usize \<Rightarrow> int \<Rightarrow> usize \<Rightarrow> memory \<Rightarrow> usize \<times> memory" where
  "rust_memset dest val len m =
     (dest, fold (\<lambda>i m. m(dest + of_nat i := of_int val)) [0..<unat len] m)"

definition rust_memcpy :: "usize \<Rightarrow> usize \<Rightarrow> usize \<Rightarrow> memory \<Rightarrow> usize \<times> memory" where
  "rust_memcpy dest src len m =
     (dest, fold (\<lambda>i m. m(dest + of_nat i := m (src + of_nat i))) [0..<unat len] m)"

datatype vm_call = Vm_print "u8 list" | Rust_map_page u64 u64 u64 u64 | Rust_paging_free_pml4 u64

definition test_vm_ffi :: "u64 \<Rightarrow> vm_call list" where
  "test_vm_ffi pml4 =
     (if pml4 = 0 then [Vm_print (bytes ''[RUST VM] Failed to create PML4'' @ [ch_newline])]
      else [Vm_print (bytes ''[RUST VM] Created new PML4'' @ [ch_newline]),
            Rust_map_page pml4 0x400000 0x200000 0x7,
            Vm_print (bytes ''[RUST VM] Mapped page 0x400000 -> 0x200000'' @ [ch_newline]),
            Rust_paging_free_pml4 pml4,
            Vm_print (bytes ''[RUST VM] Freed PML4'' @ [ch_newline])])"

text \<open>Runs of bytes: what the copies out of and into a slice or a string do.\<close>

fun store_bytes :: "usize \<Rightarrow> u8 list \<Rightarrow> memory \<Rightarrow> memory" where
  "store_bytes p [] m = m"
| "store_bytes p (b # bs) m = store_bytes (p + 1) bs (m(p := b))"

definition load_bytes :: "usize \<Rightarrow> nat \<Rightarrow> memory \<Rightarrow> u8 list" where
  "load_bytes p n m = map (\<lambda>i. m (p + of_nat i)) [0..<n]"

text \<open>The bytes of a number of \<open>n\<close> bytes, least significant byte first, and the number back.\<close>

definition le_bytes :: "nat \<Rightarrow> nat \<Rightarrow> u8 list" where
  "le_bytes n v = map (\<lambda>i. of_nat (v div 256 ^ i)) [0..<n]"

fun le_value :: "u8 list \<Rightarrow> nat" where
  "le_value [] = 0"
| "le_value (b # bs) = unat b + 256 * le_value bs"

section \<open>Addresses relative to a base\<close>

lemma unat_diff_add: "n < 2 ^ 64 \<Longrightarrow> unat (b + of_nat n - b :: usize) = n"
  by (simp add: unat_of_nat_u64)

lemma addr_of_offset: "b + of_nat (unat (a - b)) = (a :: usize)"
  by simp

lemma addr_eq_iff: "n < 2 ^ 64 \<Longrightarrow> a = b + of_nat n \<longleftrightarrow> unat (a - b) = n" for a b :: usize
  using addr_of_offset [of b a] unat_diff_add [of n b] by metis

section \<open>Runs of bytes\<close>

lemma length_load_bytes [simp]: "length (load_bytes p n m) = n"
  by (simp add: load_bytes_def)

lemma length_le_bytes [simp]: "length (le_bytes n v) = n"
  by (simp add: le_bytes_def)

lemma nth_load_bytes [simp]: "i < n \<Longrightarrow> load_bytes p n m ! i = m (p + of_nat i)"
  by (simp add: load_bytes_def)

lemma unat_minus_Suc: "unat (a - p) \<noteq> 0 \<Longrightarrow> unat (a - (p + 1)) = unat (a - p) - 1" for a p :: usize
  using unat_minus_one [of "a - p"] by (cases "a = p") (simp_all add: diff_diff_eq)

lemma store_bytes_apply:
  "length bs \<le> 2 ^ 64 \<Longrightarrow>
   store_bytes p bs m a = (if unat (a - p) < length bs then bs ! unat (a - p) else m a)"
proof (induction bs arbitrary: p m)
  case (Cons b bs)
  show ?case
  proof (cases "a = p")
    case True
    then have "unat (a - (p + 1)) = 2 ^ 64 - 1" by (simp add: unsigned_minus_1_eq_mask mask_eq_exp_minus_1)
    with True Cons show ?thesis by simp
  next
    case False
    then have "unat (a - p) \<noteq> 0" by (simp add: unat_eq_0)
    with False Cons show ?thesis by (auto simp: unat_minus_Suc nth_Cons')
  qed
qed simp

lemma load_store_same:
  assumes "length bs < 2 ^ 64" "n \<le> length bs"
  shows "load_bytes p n (store_bytes p bs m) = take n bs"
  using assms by (intro nth_equalityI) (simp_all add: store_bytes_apply unat_of_nat_u64)

lemma load_store_other:
  assumes "length bs < 2 ^ 64" "\<And>i. i < n \<Longrightarrow> length bs \<le> unat (q + of_nat i - p)"
  shows "load_bytes q n (store_bytes p bs m) = load_bytes q n m"
proof (intro nth_equalityI)
  fix i assume "i < length (load_bytes q n (store_bytes p bs m))"
  then show "load_bytes q n (store_bytes p bs m) ! i = load_bytes q n m ! i"
    using assms(2) [of i] assms(1) by (simp add: store_bytes_apply)
qed simp

lemma load_store_apart:
  assumes "length bs < 2 ^ 64" "unat q + n \<le> 2 ^ 64" "unat p + length bs \<le> 2 ^ 64"
    and "unat q + n \<le> unat p \<or> unat p + length bs \<le> unat q"
  shows "load_bytes q n (store_bytes p bs m) = load_bytes q n m"
proof (rule load_store_other [OF assms(1)])
  fix i assume i: "i < n"
  then have u: "unat (q + of_nat i) = unat q + i" using assms(2) by (intro unat_add_of_nat) simp
  show "length bs \<le> unat (q + of_nat i - p)"
  proof (cases "unat p + length bs \<le> unat q")
    case True
    then have "p \<le> q + of_nat i" using u by (simp add: word_le_nat_alt)
    with True u show ?thesis by (simp add: unat_sub)
  next
    case False
    then have lt: "unat (q + of_nat i) < unat p" using assms(4) u i by linarith
    let ?x = "q + of_nat i - p" and ?y = "p - (q + of_nat i)"
    have y: "unat ?y = unat p - (unat q + i)" using lt u by (subst unat_sub) (simp_all add: word_le_nat_alt)
    have "(unat ?x + unat ?y) mod 2 ^ 64 = unat (?x + ?y)" using unat_word_ariths(1) [of ?x ?y] by simp
    then have "2 ^ 64 dvd unat ?x + unat ?y" by (simp add: dvd_eq_mod_eq_0)
    moreover have "0 < unat ?y" using y lt u by linarith
    ultimately have "2 ^ 64 \<le> unat ?x + unat ?y" by (intro dvd_imp_le) simp_all
    with y assms(3) lt u show ?thesis by linarith
  qed
qed

lemma load_bytes_add: "load_bytes p (k + n) m = load_bytes p k m @ load_bytes (p + of_nat k) n m"
  by (intro nth_equalityI) (auto simp: nth_append add.assoc)

lemma take_load_bytes: "k \<le> n \<Longrightarrow> take k (load_bytes p n m) = load_bytes p k m"
  by (intro nth_equalityI) auto

lemma drop_load_bytes: "k \<le> n \<Longrightarrow> drop k (load_bytes p n m) = load_bytes (p + of_nat k) (n - k) m"
  using load_bytes_add [of p k "n - k" m] by simp

lemma store_bytes_append:
  "store_bytes p (bs @ cs) m = store_bytes (p + of_nat (length bs)) cs (store_bytes p bs m)"
  by (induction bs arbitrary: p m) (simp_all add: add.assoc)

lemma le_bytes_Suc: "le_bytes (Suc n) v = of_nat v # le_bytes n (v div 256)"
  by (simp add: le_bytes_def upt_conv_Cons map_Suc_upt [symmetric] div_mult2_eq del: upt_Suc)

lemma le_value_bytes: "v < 256 ^ n \<Longrightarrow> le_value (le_bytes n v) = v"
proof (induction n arbitrary: v)
  case (Suc n)
  then have "v div 256 < 256 ^ n" by auto
  with Suc.IH show ?case by (simp add: le_bytes_Suc unsigned_of_nat take_bit_eq_mod)
qed (simp add: le_bytes_def)

lemma le_value_less: "le_value bs < 256 ^ length bs"
proof (induction bs)
  case (Cons b bs)
  have "unat b < 256" using unsigned_less [of b] by simp
  with Cons show ?case by simp
qed simp

lemma le_value_append: "le_value (bs @ cs) = le_value bs + 256 ^ length bs * le_value cs"
  by (induction bs) (simp_all add: algebra_simps)

section \<open>The loops\<close>

lemma memset_loop:
  "n < 2 ^ 64 \<Longrightarrow>
   fold (\<lambda>i m. m(d + of_nat i := v)) [0..<n] m a = (if unat (a - d) < n then v else m a)"
  for d :: usize
proof (induction n)
  case (Suc n)
  then show ?case using addr_eq_iff [of n a d] by (auto simp: less_Suc_eq)
qed simp

text \<open>Copying upwards repeats the first \<open>d - s\<close> bytes when the destination starts inside the source; when it
  does not, \<open>i mod (d - s)\<close> is \<open>i\<close>.\<close>

lemma memcpy_loop:
  "n < 2 ^ 64 \<Longrightarrow>
   fold (\<lambda>i m. m(d + of_nat i := m (s + of_nat i))) [0..<n] m a =
     (if unat (a - d) < n then m (s + of_nat (unat (a - d) mod unat (d - s))) else m a)"
  for d s :: usize
proof (induction n arbitrary: a)
  case (Suc n)
  let ?k = "unat (d - s)"
  have n: "n < 2 ^ 64" using Suc.prems by simp
  define M where "M = fold (\<lambda>i m. m(d + of_nat i := m (s + of_nat i))) [0..<n] m"
  have IH: "M a = (if unat (a - d) < n then m (s + of_nat (unat (a - d) mod ?k)) else m a)" for a
    unfolding M_def using Suc.IH [OF n] .
  have "M (s + of_nat n) = m (s + of_nat (n mod ?k))"
  proof (cases "?k = 0 \<or> n < ?k")
    case True
    have "\<not> unat (s + of_nat n - d) < n"
    proof (cases "?k = 0")
      case True
      then have "d = s" by (simp add: unat_eq_0)
      then show ?thesis using n by (simp add: unat_of_nat_u64)
    next
      case False
      with True have lt: "n < ?k" by simp
      let ?w = "s + of_nat n - d" and ?u = "d - s - of_nat n"
      have u: "unat ?u = ?k - n"
        using lt n by (subst unat_sub) (simp_all add: word_le_nat_alt unat_of_nat_u64)
      have "(unat ?w + unat ?u) mod 2 ^ 64 = unat (?w + ?u)"
        using unat_word_ariths(1) [of ?w ?u] by simp
      moreover have "?w + ?u = 0" by simp
      ultimately have "(unat ?w + (?k - n)) mod 2 ^ 64 = 0" using u by (simp only: unat_0)
      then have "2 ^ 64 \<le> unat ?w + (?k - n)" using lt
        by (metis add_is_0 diff_is_0_eq leD mod_less not_le_imp_less)
      then show ?thesis using u64_bound [of "d - s"] lt by linarith
    qed
    then show ?thesis using True by (auto simp: IH)
  next
    case False
    have "s + of_nat n - d = of_nat n - (d - s)" by simp
    then have off: "unat (s + of_nat n - d) = n - ?k"
      using False n by (simp only:) (subst unat_sub, simp_all add: word_le_nat_alt unat_of_nat_u64)
    then show ?thesis using False by (simp add: IH le_mod_geq)
  qed
  then have "(M(d + of_nat n := M (s + of_nat n))) a =
      (if unat (a - d) < Suc n then m (s + of_nat (unat (a - d) mod ?k)) else m a)"
    using addr_eq_iff [OF n, of a d] IH [of a] by (auto simp: less_Suc_eq)
  moreover have "fold (\<lambda>i m. m(d + of_nat i := m (s + of_nat i))) [0..<Suc n] m =
      M(d + of_nat n := M (s + of_nat n))"
    by (simp add: M_def del: fun_upd_apply)
  ultimately show ?case by (simp only:)
qed simp

section \<open>Properties\<close>

text \<open>\<open>rust_memset\<close> returns its destination and stores the low byte of the value in exactly the given
  range, also when the range wraps around the end of the address space.\<close>

theorem memset_exact:
  "rust_memset d v n m = (d, \<lambda>a. if unat (a - d) < unat n then of_int v else m a)"
  using u64_bound [of n] by (auto simp: rust_memset_def memset_loop)

text \<open>C25: \<open>rust_memcpy\<close> returns its destination and changes only the given range. The byte at offset \<open>i\<close> becomes
  the old source byte at offset \<open>i mod (dest - src)\<close>: an exact copy unless the destination starts
  inside the source, in which case the first \<open>dest - src\<close> bytes are repeated.\<close>

theorem memcpy_exact:
  "rust_memcpy d s n m =
     (d, \<lambda>a. if unat (a - d) < unat n then m (s + of_nat (unat (a - d) mod unat (d - s))) else m a)"
  using u64_bound [of n] by (auto simp: rust_memcpy_def memcpy_loop)

end
