(* ===== verification/Syscall_Interface.thy ===== *)
theory Syscall_Interface
  imports Vfs_Tree Process_Manager Kernel_Memory
begin

text \<open>
  The system calls (\<^verbatim>\<open>kernel-rs/src/syscalls.rs\<close>): the dispatcher, its log message and every handler,
  over the process table, the file system and memory.

  The state puts the components side by side; each keeps its own record of the text it prints, so
  the order of messages of different components is not part of the model. A path argument is read
  from memory up to its zero byte; if there is none the read never ends (\<open>None\<close>). \<open>None\<close> is also the
  result of a panic. Arguments are 64-bit words, converted as the casts of the dispatcher do; results
  are 64-bit signed integers.
\<close>

section \<open>Definitions\<close>

record kernel =
  k_procs :: process_state
  k_vfs :: vfs
  k_mem :: memory
  k_serial :: "u8 list list"

definition log_line :: "u8 list \<Rightarrow> kernel \<Rightarrow> kernel" where
  "log_line t s = s\<lparr>k_serial := k_serial s @ [t]\<rparr>"

abbreviation log_text :: "string \<Rightarrow> kernel \<Rightarrow> kernel" where
  "log_text t \<equiv> log_line (bytes t @ [ch_newline])"

definition rust_syscall_init :: "kernel \<Rightarrow> kernel" where
  "rust_syscall_init s = log_text ''[SYSCALL] Initializing system calls'' s"

definition SYS_READ :: u64 where "SYS_READ = 0"
definition SYS_WRITE :: u64 where "SYS_WRITE = 1"
definition SYS_OPEN :: u64 where "SYS_OPEN = 2"
definition SYS_CLOSE :: u64 where "SYS_CLOSE = 3"
definition SYS_MMAP :: u64 where "SYS_MMAP = 9"
definition SYS_MUNMAP :: u64 where "SYS_MUNMAP = 11"
definition SYS_BRK :: u64 where "SYS_BRK = 12"
definition SYS_ACCESS :: u64 where "SYS_ACCESS = 21"
definition SYS_SCHED_YIELD :: u64 where "SYS_SCHED_YIELD = 24"
definition SYS_GETPID :: u64 where "SYS_GETPID = 39"
definition SYS_FORK :: u64 where "SYS_FORK = 57"
definition SYS_EXECVE :: u64 where "SYS_EXECVE = 59"
definition SYS_EXIT :: u64 where "SYS_EXIT = 60"
definition SYS_WAIT4 :: u64 where "SYS_WAIT4 = 61"
definition SYS_KILL :: u64 where "SYS_KILL = 62"
definition SYS_UNAME :: u64 where "SYS_UNAME = 63"
definition SYS_GETCWD :: u64 where "SYS_GETCWD = 79"
definition SYS_CHDIR :: u64 where "SYS_CHDIR = 80"
definition SYS_MKDIR :: u64 where "SYS_MKDIR = 83"
definition SYS_RMDIR :: u64 where "SYS_RMDIR = 84"
definition SYS_CREAT :: u64 where "SYS_CREAT = 85"
definition SYS_UNLINK :: u64 where "SYS_UNLINK = 87"
definition SYS_GETTIMEOFDAY :: u64 where "SYS_GETTIMEOFDAY = 96"

lemmas sys_numbers = SYS_READ_def SYS_WRITE_def SYS_OPEN_def SYS_CLOSE_def SYS_MMAP_def SYS_MUNMAP_def SYS_BRK_def
  SYS_ACCESS_def SYS_SCHED_YIELD_def SYS_GETPID_def SYS_FORK_def SYS_EXECVE_def SYS_EXIT_def SYS_WAIT4_def
  SYS_KILL_def SYS_UNAME_def SYS_GETCWD_def SYS_CHDIR_def SYS_MKDIR_def SYS_RMDIR_def SYS_CREAT_def
  SYS_UNLINK_def SYS_GETTIMEOFDAY_def

definition ENOENT :: int where "ENOENT = - 2"
definition ENOEXEC :: int where "ENOEXEC = - 8"
definition EBADF :: int where "EBADF = - 9"
definition ECHILD :: int where "ECHILD = - 10"
definition ENOMEM :: int where "ENOMEM = - 12"
definition EACCES :: int where "EACCES = - 13"
definition EFAULT :: int where "EFAULT = - 14"
definition EEXIST :: int where "EEXIST = - 17"
definition EINVAL :: int where "EINVAL = - 22"

lemmas errnos = ENOENT_def ENOEXEC_def EBADF_def ECHILD_def ENOMEM_def EACCES_def EFAULT_def EEXIST_def EINVAL_def

type_synonym sys_result = "(int \<times> kernel) option"

text \<open>The bytes of a C string in memory, without the terminator.\<close>

partial_function (option) read_cstr :: "memory \<Rightarrow> usize \<Rightarrow> u8 list option" where
  "read_cstr m p = (if m p = 0 then Some [] else read_cstr m (p + 1) \<bind> (\<lambda>t. Some (m p # t)))"

definition i32_of :: "u64 \<Rightarrow> int" where "i32_of a = sint (ucast a :: u32)"

definition syscall_log :: "u32 \<Rightarrow> u64 \<Rightarrow> u8 list option" where
  "syscall_log cur syscall_num = do {
     (msg, i) \<leftarrow> arr_write 0 (bytes ''[SYSCALL] PID='') (replicate 128 0);
     (digits, txt) \<leftarrow> id_digits (replicate 10 0) (unat cur);
     let (msg, i) = arr_write_below (128 - 3) i txt msg;
     (msg, i) \<leftarrow> arr_write i (bytes '' syscall='') msg;
     (digits, txt) \<leftarrow> id_digits digits (unat syscall_num);
     let (msg, i) = arr_write_below (128 - 3) i txt msg;
     msg \<leftarrow> arr_set msg i ch_newline;
     arr_set msg (i + 1) 0
   }"

definition check_access :: "u64 \<Rightarrow> u32 \<Rightarrow> kernel \<Rightarrow> bool" where
  "check_access addr access_type s =
     rust_process_check_access (rust_process_get_current_pid (k_procs s)) addr access_type (k_procs s)"

definition sys_read :: "int \<Rightarrow> u64 \<Rightarrow> u64 \<Rightarrow> kernel \<Rightarrow> sys_result" where
  "sys_read fd buf count s =
     (if buf = 0 \<or> count = 0 then Some (EINVAL, s)
      else if \<not> check_access buf 2 s then Some (EFAULT, s)
      else if fd = 0 then Some (0, s)
      else Some (EBADF, s))"

text \<open>The loop over the bytes of the buffer has no effect.\<close>

definition sys_write :: "int \<Rightarrow> u64 \<Rightarrow> u64 \<Rightarrow> kernel \<Rightarrow> sys_result" where
  "sys_write fd buf count s =
     (if buf = 0 \<or> count = 0 then Some (EINVAL, s)
      else if \<not> check_access buf 1 s then Some (EFAULT, s)
      else if fd = 1 \<or> fd = 2
      then Some (sint count, log_text ''[SYSCALL] sys_write to stdout/stderr'' s)
      else Some (EBADF, s))"

definition sys_open :: "u64 \<Rightarrow> kernel \<Rightarrow> sys_result" where
  "sys_open pathname s =
     (if pathname = 0 then Some (EINVAL, s)
      else if \<not> check_access pathname 1 s then Some (EFAULT, s)
      else Some (3, log_text ''[SYSCALL] sys_open - not fully implemented'' s))"

definition sys_close :: "int \<Rightarrow> kernel \<Rightarrow> sys_result" where
  "sys_close fd s =
     (if 0 \<le> fd \<and> fd \<le> 2 then Some (EBADF, s)
      else Some (0, log_text ''[SYSCALL] sys_close - not fully implemented'' s))"

definition sys_getpid :: "kernel \<Rightarrow> sys_result" where
  "sys_getpid s = Some (int (unat (rust_process_get_current_pid (k_procs s))), s)"

definition sys_exit :: "int \<Rightarrow> kernel \<Rightarrow> sys_result" where
  "sys_exit status s = do {
     let cur = rust_process_get_current_pid (k_procs s);
     ps \<leftarrow> rust_process_terminate cur status (k_procs s);
     Some (0, log_text ''[SYSCALL] Process exited'' (s\<lparr>k_procs := ps\<rparr>))
   }"

definition sys_fork :: "kernel \<Rightarrow> sys_result" where
  "sys_fork s = do {
     let cur = rust_process_get_current_pid (k_procs s);
     (new_pid, ps) \<leftarrow> rust_process_create cur False (k_procs s);
     Some (if new_pid = 0 then ENOMEM else int (unat new_pid), s\<lparr>k_procs := ps\<rparr>)
   }"

definition sys_execve :: "u64 \<Rightarrow> kernel \<Rightarrow> sys_result" where
  "sys_execve filename s =
     (if filename = 0 then Some (EINVAL, s)
      else Some (ENOEXEC, log_text ''[SYSCALL] sys_execve - not fully implemented'' s))"

definition sys_wait4 :: "kernel \<Rightarrow> sys_result" where
  "sys_wait4 s = Some (ECHILD, log_text ''[SYSCALL] sys_wait4 - not fully implemented'' s)"

definition sys_kill :: "int \<Rightarrow> int \<Rightarrow> kernel \<Rightarrow> sys_result" where
  "sys_kill pd sig s =
     (if pd \<le> 0 then Some (EINVAL, s)
      else do {
        ps \<leftarrow> rust_process_terminate (of_int pd) sig (k_procs s);
        Some (0, log_text ''[SYSCALL] sys_kill - process terminated'' (s\<lparr>k_procs := ps\<rparr>))
      })"

text \<open>A path argument is a pointer; the file system reads the string behind it.\<close>

definition sys_chdir :: "u64 \<Rightarrow> kernel \<Rightarrow> sys_result" where
  "sys_chdir path s =
     (if path = 0 then Some (EINVAL, s)
      else do {
        t \<leftarrow> read_cstr (k_mem s) path;
        let (result, fs) = rust_vfs_ls (Some t) (k_vfs s);
        if result = 0 then Some (0, log_text ''[SYSCALL] sys_chdir - success'' (s\<lparr>k_vfs := fs\<rparr>))
        else Some (ENOENT, s\<lparr>k_vfs := fs\<rparr>)
      })"

definition sys_getcwd :: "u64 \<Rightarrow> u64 \<Rightarrow> kernel \<Rightarrow> sys_result" where
  "sys_getcwd buf len s =
     (if buf = 0 \<or> len = 0 then Some (EINVAL, s)
      else Some (sint buf, s\<lparr>k_mem := (k_mem s)(buf := ch_slash, buf + 1 := 0)\<rparr>))"

definition sys_mkdir :: "u64 \<Rightarrow> kernel \<Rightarrow> sys_result" where
  "sys_mkdir pathname s =
     (if pathname = 0 then Some (EINVAL, s)
      else do {
        t \<leftarrow> read_cstr (k_mem s) pathname;
        let (result, fs) = rust_vfs_mkdir (Some t) (k_vfs s);
        Some (if result = 0 then 0 else EEXIST, s\<lparr>k_vfs := fs\<rparr>)
      })"

definition sys_rmdir :: "u64 \<Rightarrow> kernel \<Rightarrow> sys_result" where
  "sys_rmdir pathname s =
     (if pathname = 0 then Some (EINVAL, s)
      else do {
        t \<leftarrow> read_cstr (k_mem s) pathname;
        let (result, fs) = rust_vfs_unlink (Some t) (k_vfs s);
        Some (if result = 0 then 0 else ENOENT, s\<lparr>k_vfs := fs\<rparr>)
      })"

definition sys_unlink :: "u64 \<Rightarrow> kernel \<Rightarrow> sys_result" where
  "sys_unlink pathname s =
     (if pathname = 0 then Some (EINVAL, s)
      else do {
        t \<leftarrow> read_cstr (k_mem s) pathname;
        let (result, fs) = rust_vfs_unlink (Some t) (k_vfs s);
        Some (if result = 0 then 0 else ENOENT, s\<lparr>k_vfs := fs\<rparr>)
      })"

definition sys_creat :: "u64 \<Rightarrow> kernel \<Rightarrow> sys_result" where
  "sys_creat pathname s =
     (if pathname = 0 then Some (EINVAL, s)
      else do {
        t \<leftarrow> read_cstr (k_mem s) pathname;
        let (result, fs) = rust_vfs_create_file (Some t) (k_vfs s);
        Some (if result = 0 \<or> result = - 17 then 3 else EACCES, s\<lparr>k_vfs := fs\<rparr>)
      })"

definition sys_access :: "u64 \<Rightarrow> kernel \<Rightarrow> sys_result" where
  "sys_access pathname s = (if pathname = 0 then Some (EINVAL, s) else Some (0, s))"

definition sys_brk :: "u64 \<Rightarrow> kernel \<Rightarrow> sys_result" where
  "sys_brk addr s = Some (sint addr, log_text ''[SYSCALL] sys_brk - not fully implemented'' s)"

definition sys_mmap :: "kernel \<Rightarrow> sys_result" where
  "sys_mmap s = Some (ENOMEM, log_text ''[SYSCALL] sys_mmap - not fully implemented'' s)"

definition sys_munmap :: "kernel \<Rightarrow> sys_result" where
  "sys_munmap s = Some (0, log_text ''[SYSCALL] sys_munmap - not fully implemented'' s)"

definition uname_info :: "u8 list" where
  "uname_info = bytes ''ShadeOS'' @ replicate 9 0 @ bytes ''shadeos'' @ replicate 9 0 @ bytes ''1.0.0'' @ replicate 12 0 @
     bytes ''#1 SMP'' @ replicate 10 0 @ bytes ''x86_64'' @ replicate 10 0"

definition sys_uname :: "u64 \<Rightarrow> kernel \<Rightarrow> sys_result" where
  "sys_uname buf s =
     (if buf = 0 then Some (EINVAL, s) else Some (0, s\<lparr>k_mem := store_bytes buf uname_info (k_mem s)\<rparr>))"

text \<open>The eight bytes of a 64-bit integer in little-endian order.\<close>

definition le64 :: "u64 \<Rightarrow> u8 list" where
  "le64 v = map (\<lambda>i. ucast (drop_bit (8 * i) v)) [0..<8]"

definition sys_gettimeofday :: "u64 \<Rightarrow> kernel \<Rightarrow> sys_result" where
  "sys_gettimeofday tv s =
     (if tv = 0 then Some (EINVAL, s)
      else Some (0, s\<lparr>k_mem := store_bytes (tv + 8) (le64 0) (store_bytes tv (le64 1640995200) (k_mem s))\<rparr>))"

definition sys_sched_yield :: "kernel \<Rightarrow> sys_result" where
  "sys_sched_yield s = Some (0, log_text ''[SYSCALL] sys_sched_yield - yielding CPU'' s)"

definition syscall_dispatch :: "u64 \<Rightarrow> u64 \<Rightarrow> u64 \<Rightarrow> u64 \<Rightarrow> kernel \<Rightarrow> sys_result" where
  "syscall_dispatch n arg1 arg2 arg3 s =
     (if n = SYS_READ then sys_read (i32_of arg1) arg2 arg3 s
      else if n = SYS_WRITE then sys_write (i32_of arg1) arg2 arg3 s
      else if n = SYS_OPEN then sys_open arg1 s
      else if n = SYS_CLOSE then sys_close (i32_of arg1) s
      else if n = SYS_GETPID then sys_getpid s
      else if n = SYS_EXIT then sys_exit (i32_of arg1) s
      else if n = SYS_FORK then sys_fork s
      else if n = SYS_EXECVE then sys_execve arg1 s
      else if n = SYS_WAIT4 then sys_wait4 s
      else if n = SYS_KILL then sys_kill (i32_of arg1) (i32_of arg2) s
      else if n = SYS_CHDIR then sys_chdir arg1 s
      else if n = SYS_GETCWD then sys_getcwd arg1 arg2 s
      else if n = SYS_MKDIR then sys_mkdir arg1 s
      else if n = SYS_RMDIR then sys_rmdir arg1 s
      else if n = SYS_UNLINK then sys_unlink arg1 s
      else if n = SYS_CREAT then sys_creat arg1 s
      else if n = SYS_ACCESS then sys_access arg1 s
      else if n = SYS_BRK then sys_brk arg1 s
      else if n = SYS_MMAP then sys_mmap s
      else if n = SYS_MUNMAP then sys_munmap s
      else if n = SYS_UNAME then sys_uname arg1 s
      else if n = SYS_GETTIMEOFDAY then sys_gettimeofday arg1 s
      else if n = SYS_SCHED_YIELD then sys_sched_yield s
      else Some (EINVAL, log_text ''[SYSCALL] Unimplemented system call'' s))"

text \<open>No handler reads the arguments four to six.\<close>

definition rust_syscall_handler :: "u64 \<Rightarrow> u64 \<Rightarrow> u64 \<Rightarrow> u64 \<Rightarrow> u64 \<Rightarrow> u64 \<Rightarrow> u64 \<Rightarrow> kernel \<Rightarrow> sys_result" where
  "rust_syscall_handler n arg1 arg2 arg3 arg4 arg5 arg6 s = do {
     let cur = rust_process_get_current_pid (k_procs s);
     msg \<leftarrow> syscall_log cur n;
     syscall_dispatch n arg1 arg2 arg3 (log_line (c_text msg) s)
   }"

section \<open>The log message\<close>

definition log_message :: "u32 \<Rightarrow> u64 \<Rightarrow> u8 list" where
  "log_message p n = bytes ''[SYSCALL] PID='' @ dec_text (unat p) @ bytes '' syscall='' @ dec_text (unat n) @ [ch_newline]"

lemma syscall_log_exact:
  assumes "unat n < 10 ^ 10"
  shows "\<exists>msg. syscall_log p n = Some msg \<and> c_text msg = log_message p n"
proof -
  let ?p = "dec_text (unat p)" and ?n = "dec_text (unat n)"
  define a b where ab: "a = bytes ''[SYSCALL] PID=''" "b = bytes '' syscall=''"
  have len: "length ?p \<le> 10" "length ?n \<le> 10" "length a = 14" "length b = 9"
    using assms length_dec_text_le [of "unat n" 10] by (simp_all add: length_dec_text_u32 ab)
  have lm: "log_message p n = a @ ?p @ b @ ?n @ [ch_newline]" by (simp add: log_message_def ab)
  obtain ds where ds: "id_digits (replicate 10 0) (unat p) = Some (ds, ?p)" "length ds = 10"
    using id_digits_ten [OF u32_ten_digits [of p], of "replicate 10 0"] by auto
  obtain es where es: "id_digits ds (unat n) = Some (es, ?n)"
    using id_digits_ten [OF assms ds(2)] by auto
  have "arr_write_below 125 14 ?p (padded 128 a) = (padded 128 (a @ ?p), 14 + length ?p)"
    using arr_write_below_padded [of a ?p 125 128] len by simp
  moreover have "arr_write (14 + length ?p) b (padded 128 (a @ ?p)) = Some (padded 128 (a @ ?p @ b), 23 + length ?p)"
    using arr_write_padded [of "a @ ?p" b 128] len by simp
  moreover have "arr_write_below 125 (23 + length ?p) ?n (padded 128 (a @ ?p @ b)) =
      (padded 128 (a @ ?p @ b @ ?n), 23 + length ?p + length ?n)"
    using arr_write_below_padded [of "a @ ?p @ b" ?n 125 128] len by simp
  moreover have "arr_set (padded 128 (a @ ?p @ b @ ?n)) (23 + length ?p + length ?n) ch_newline =
      Some (padded 128 (log_message p n))"
    using arr_set_padded [of "a @ ?p @ b @ ?n" 128 ch_newline] len by (simp add: lm add.assoc)
  moreover have "arr_set (padded 128 (log_message p n)) (Suc (23 + length ?p + length ?n)) 0 = Some (padded 128 (log_message p n))"
    using arr_set_padded_zero [of "log_message p n" 128] len by (simp add: lm add.assoc)
  moreover have "arr_write 0 a (padded 128 []) = Some (padded 128 a, 14)"
    using arr_write_padded [of "[]" a 128] len by simp
  ultimately have "syscall_log p n = Some (padded 128 (log_message p n))"
    using ds es by (simp add: syscall_log_def padded_start flip: ab)
  moreover have "0 \<notin> set (log_message p n)"
    by (simp add: log_message_def dec_text_nonzero) (simp add: bytes_def)
  ultimately show ?thesis using c_text_padded by blast
qed

lemma id_digits_overflow: "10 ^ 10 \<le> n \<Longrightarrow> length ds = 10 \<Longrightarrow> id_digits ds n = None"
  using length_dec_text_gt [of 10 n] by (simp add: id_digits_def digit_loop_dec_text arr_write_overflows)

lemma syscall_log_overflow:
  assumes "10 ^ 10 \<le> unat n"
  shows "syscall_log p n = None"
proof -
  obtain ds where "id_digits (replicate 10 0) (unat p) = Some (ds, dec_text (unat p))" "length ds = 10"
    using id_digits_ten [OF u32_ten_digits [of p], of "replicate 10 0"] by auto
  moreover have "arr_write 0 (bytes ''[SYSCALL] PID='') (padded 128 []) = Some (padded 128 (bytes ''[SYSCALL] PID=''), 14)"
    using arr_write_padded [of "[]" "bytes ''[SYSCALL] PID=''" 128] by simp
  ultimately show ?thesis using id_digits_overflow [OF assms, of ds]
    by (simp add: syscall_log_def padded_start split: prod.split option.split bind_split)
qed

lemma handler_eq:
  "unat n < 10 ^ 10 \<Longrightarrow> rust_syscall_handler n a b c d e f s =
     syscall_dispatch n a b c (log_line (log_message (rust_process_get_current_pid (k_procs s)) n) s)"
  using syscall_log_exact [of n "rust_process_get_current_pid (k_procs s)"]
  by (auto simp: rust_syscall_handler_def)

lemma log_line_sel [simp]:
  "k_procs (log_line t s) = k_procs s" "k_vfs (log_line t s) = k_vfs s" "k_mem (log_line t s) = k_mem s"
  "k_serial (log_line t s) = k_serial s @ [t]"
  by (simp_all add: log_line_def)

section \<open>What each call can change\<close>

text \<open>A C string at an address: its bytes, then zero.\<close>

fun cstr_at :: "memory \<Rightarrow> usize \<Rightarrow> u8 list \<Rightarrow> bool" where
  "cstr_at m p [] \<longleftrightarrow> m p = 0"
| "cstr_at m p (b # bs) \<longleftrightarrow> b \<noteq> 0 \<and> m p = b \<and> cstr_at m (p + 1) bs"

lemma read_cstr_at: "cstr_at m p t \<Longrightarrow> read_cstr m p = Some t"
  by (induction t arbitrary: p) (simp_all add: read_cstr.simps [of m])

lemmas sys_defs = sys_read_def sys_write_def sys_open_def sys_close_def sys_getpid_def sys_execve_def sys_wait4_def
  sys_access_def sys_brk_def sys_mmap_def sys_munmap_def sys_sched_yield_def

lemmas path_defs = sys_chdir_def sys_mkdir_def sys_rmdir_def sys_unlink_def sys_creat_def

definition memory_calls :: "u64 set" where "memory_calls = {SYS_GETCWD, SYS_UNAME, SYS_GETTIMEOFDAY}"
definition process_calls :: "u64 set" where "process_calls = {SYS_EXIT, SYS_FORK, SYS_KILL}"
definition path_calls :: "u64 set" where "path_calls = {SYS_CHDIR, SYS_MKDIR, SYS_RMDIR, SYS_UNLINK, SYS_CREAT}"

lemma dispatch_memory:
  "syscall_dispatch n a b c s = Some (r, s') \<Longrightarrow> n \<notin> memory_calls \<Longrightarrow> k_mem s' = k_mem s"
  unfolding syscall_dispatch_def memory_calls_def
  by (auto simp: sys_defs path_defs sys_exit_def sys_fork_def sys_kill_def Let_def bind_eq_Some_conv
      case_prod_beta split: if_splits)

lemma dispatch_procs:
  "syscall_dispatch n a b c s = Some (r, s') \<Longrightarrow> n \<notin> process_calls \<Longrightarrow> k_procs s' = k_procs s"
  unfolding syscall_dispatch_def process_calls_def
  by (auto simp: sys_defs path_defs sys_getcwd_def sys_uname_def sys_gettimeofday_def Let_def bind_eq_Some_conv
      case_prod_beta split: if_splits)

lemma dispatch_vfs:
  "syscall_dispatch n a b c s = Some (r, s') \<Longrightarrow> n \<notin> path_calls \<Longrightarrow> k_vfs s' = k_vfs s"
  unfolding syscall_dispatch_def path_calls_def
  by (auto simp: sys_defs sys_getcwd_def sys_uname_def sys_gettimeofday_def sys_exit_def sys_fork_def sys_kill_def
      Let_def bind_eq_Some_conv case_prod_beta split: if_splits)

lemma vfs_reach_steps:
  assumes "vfs_reach fs"
  shows "vfs_reach (snd (rust_vfs_mkdir t fs))" "vfs_reach (snd (rust_vfs_unlink t fs))"
    "vfs_reach (snd (rust_vfs_create_file t fs))" "vfs_reach (snd (rust_vfs_ls t fs))"
  using vfs_reach.mkdir [OF assms prod.collapse [symmetric]] vfs_reach.unlink [OF assms prod.collapse [symmetric]]
    vfs_reach.create [OF assms prod.collapse [symmetric]] vfs_reach.ls [OF assms prod.collapse [symmetric]] .

lemma path_sys_vfs:
  assumes "sys_chdir a s = Some (r, s') \<or> sys_mkdir a s = Some (r, s') \<or> sys_rmdir a s = Some (r, s') \<or>
      sys_unlink a s = Some (r, s') \<or> sys_creat a s = Some (r, s')" "vfs_reach (k_vfs s)"
  shows "vfs_reach (k_vfs s')"
  using assms vfs_reach_steps [OF assms(2)]
  by (auto simp: path_defs bind_eq_Some_conv case_prod_beta split: if_splits)

lemma dispatch_vfs_reach:
  assumes "syscall_dispatch n a b c s = Some (r, s')" "vfs_reach (k_vfs s)"
  shows "vfs_reach (k_vfs s')"
proof (cases "n \<in> path_calls")
  case True
  then have "sys_chdir a s = Some (r, s') \<or> sys_mkdir a s = Some (r, s') \<or> sys_rmdir a s = Some (r, s') \<or>
      sys_unlink a s = Some (r, s') \<or> sys_creat a s = Some (r, s')"
    using assms(1) by (auto simp: path_calls_def sys_numbers syscall_dispatch_def)
  then show ?thesis using assms(2) by (rule path_sys_vfs)
qed (use dispatch_vfs [OF assms(1)] assms(2) in simp)

lemma process_sys_procs:
  assumes "sys_exit st s = Some (r, s') \<or> sys_fork s = Some (r, s') \<or> sys_kill p sig s = Some (r, s')"
    "proc_reach (k_procs s)"
  shows "proc_reach (k_procs s')"
  using assms
  by (auto simp: sys_exit_def sys_fork_def sys_kill_def Let_def bind_eq_Some_conv split: if_splits intro: proc_reach.kill proc_reach.create)

lemma dispatch_proc_reach:
  assumes "syscall_dispatch n a b c s = Some (r, s')" "proc_reach (k_procs s)"
  shows "proc_reach (k_procs s')"
proof (cases "n \<in> process_calls")
  case True
  then have "sys_exit (i32_of a) s = Some (r, s') \<or> sys_fork s = Some (r, s') \<or> sys_kill (i32_of a) (i32_of b) s = Some (r, s')"
    using assms(1) by (auto simp: process_calls_def sys_numbers syscall_dispatch_def)
  then show ?thesis using assms(2) by (rule process_sys_procs)
qed (use dispatch_procs [OF assms(1)] assms(2) in simp)

lemma terminate_total: "\<exists>ps. rust_process_terminate p code s = Some ps"
  by (auto simp: rust_process_terminate_def terminate_process_eq split: option.split)

lemma create_total: "\<exists>p ps. rust_process_create parent k s = Some (p, ps)"
  by (auto simp: rust_process_create_def create_process_eq Let_def split: option.split)

lemma process_sys_total: "sys_exit st s \<noteq> None" "sys_fork s \<noteq> None" "sys_kill p sig s \<noteq> None"
proof -
  show "sys_exit st s \<noteq> None"
    using terminate_total [of "rust_process_get_current_pid (k_procs s)" st "k_procs s"] by (auto simp: sys_exit_def)
  show "sys_fork s \<noteq> None"
    using create_total [of "rust_process_get_current_pid (k_procs s)" False "k_procs s"] by (auto simp: sys_fork_def)
  show "sys_kill p sig s \<noteq> None"
    using terminate_total [of "of_int p" sig "k_procs s"] by (auto simp: sys_kill_def)
qed

definition path_ok :: "u64 \<Rightarrow> u64 \<Rightarrow> kernel \<Rightarrow> bool" where
  "path_ok n p s \<longleftrightarrow> (n \<in> path_calls \<longrightarrow> p = 0 \<or> (\<exists>t. cstr_at (k_mem s) p t))"

lemma path_sys_total:
  assumes "p = 0 \<or> (\<exists>t. cstr_at (k_mem s) p t)"
  shows "sys_chdir p s \<noteq> None" "sys_mkdir p s \<noteq> None" "sys_rmdir p s \<noteq> None" "sys_unlink p s \<noteq> None" "sys_creat p s \<noteq> None"
  using assms read_cstr_at by (auto simp: path_defs case_prod_beta)

lemma if_returns: "(P \<Longrightarrow> x \<noteq> None) \<Longrightarrow> (\<not> P \<Longrightarrow> y \<noteq> None) \<Longrightarrow> (if P then x else y) \<noteq> None"
  by simp

lemma dispatch_total:
  assumes "path_ok n a s"
  shows "syscall_dispatch n a b c s \<noteq> None"
  unfolding syscall_dispatch_def
  by (intro if_returns process_sys_total; (rule path_sys_total, use assms in \<open>simp add: path_ok_def path_calls_def\<close>)?;
      simp add: sys_defs sys_getcwd_def sys_uname_def sys_gettimeofday_def)

section \<open>A small system\<close>

text \<open>The user process 2 runs; a path is stored in its data region.\<close>

definition demo_kernel :: kernel where
  "demo_kernel = \<lparr>k_procs = demo_procs\<lparr>PROCESS_MANAGER := map_option (set_current_process 2) (PROCESS_MANAGER demo_procs)\<rparr>,
     k_vfs = demo_fs, k_mem = store_bytes 0x800000 (bytes ''/b'' @ [0]) (\<lambda>_. 0), k_serial = []\<rparr>"

abbreviation logged :: "u64 \<Rightarrow> kernel \<Rightarrow> kernel" where
  "logged n s \<equiv> log_line (log_message (rust_process_get_current_pid (k_procs s)) n) s"

lemma demo_kernel_mem: "cstr_at (k_mem demo_kernel) 0x800000 (bytes ''/b'')"
  by (simp add: demo_kernel_def bytes_def)

lemma demo_kernel_reach: "proc_reach (k_procs demo_kernel)" "vfs_reach (k_vfs demo_kernel)"
proof -
  obtain pm where pm: "PROCESS_MANAGER demo_procs = Some pm" by (simp add: demo_procs_def)
  with proc_reach.set_current [OF demo_procs_reach this, of 2] show "proc_reach (k_procs demo_kernel)"
    by (simp add: demo_kernel_def)
qed (simp add: demo_kernel_def demo_fs_reach)

lemma demo_kernel_user:
  "process_level (rust_process_get_current_pid (k_procs demo_kernel)) (k_procs demo_kernel) = Some User"
  by (simp add: demo_kernel_def demo_procs_def rust_process_get_current_pid_def set_current_process_def process_level_def
      get_process_def fresh_pcb_ok)

section \<open>Properties\<close>



text \<open>C28: For a user process, \<open>read\<close> is refused with EFAULT unless the buffer starts in its writable regions, and
  \<open>write\<close> and \<open>open\<close> unless the argument starts in its readable ones; a refused call changes nothing
  but the log.\<close>

theorem user_pointer_rejected:
  assumes "proc_reach (k_procs s)" "process_level (rust_process_get_current_pid (k_procs s)) (k_procs s) = Some User"
    "p \<noteq> 0" "len \<noteq> 0"
  shows "(\<not> user_data p \<longrightarrow> rust_syscall_handler SYS_READ fd p len a4 a5 a6 s = Some (EFAULT, logged SYS_READ s)) \<and>
    (\<not> user_code p \<and> \<not> user_data p \<longrightarrow>
       rust_syscall_handler SYS_WRITE fd p len a4 a5 a6 s = Some (EFAULT, logged SYS_WRITE s) \<and>
       rust_syscall_handler SYS_OPEN p a2 a3 a4 a5 a6 s = Some (EFAULT, logged SYS_OPEN s))"
proof -
  have ok: "proc_ok (k_procs s)" using assms(1) by (rule proc_reach_ok)
  have "check_access p 2 (log_line t s) \<longleftrightarrow> user_data p" "check_access p 1 (log_line t s) \<longleftrightarrow> user_code p \<or> user_data p" for t
    using procs.user_allowed [OF ok assms(2), of p] by (simp_all add: check_access_def)
  then show ?thesis using assms(3,4)
    by (simp add: handler_eq sys_numbers syscall_dispatch_def sys_read_def sys_write_def sys_open_def)
qed

theorem user_pointer_rejected_witness:
  "rust_syscall_handler SYS_READ 0 0x1000 8 0 0 0 demo_kernel = Some (EFAULT, logged SYS_READ demo_kernel)"
  using user_pointer_rejected [OF demo_kernel_reach(1) demo_kernel_user, of "0x1000" 8]
  by (simp add: user_data_def in_range_def)

text \<open>C29: A system call number of eleven or more digits panics the kernel before the dispatch: the log message keeps
  the digits of the number in an array of ten.\<close>

theorem syscall_number_panics:
  assumes "10 ^ 10 \<le> unat n"
  shows "rust_syscall_handler n a1 a2 a3 a4 a5 a6 s = None"
  using syscall_log_overflow [OF assms] by (simp add: rust_syscall_handler_def)

theorem syscall_number_panics_witness: "rust_syscall_handler 10000000000 0 0 0 0 0 0 demo_kernel = None"
  by (rule syscall_number_panics) simp

text \<open>\<open>getcwd\<close>, \<open>uname\<close> and \<open>gettimeofday\<close> do not check their pointer: whatever process runs and whatever it may
  access, they store through any non-null address; \<open>getcwd\<close> stores two bytes even when the size is one.\<close>

theorem unchecked_stores:
  assumes "p \<noteq> 0" "len \<noteq> 0"
  shows "rust_syscall_handler SYS_GETCWD p len a3 a4 a5 a6 s =
      Some (sint p, (logged SYS_GETCWD s)\<lparr>k_mem := (k_mem s)(p := ch_slash, p + 1 := 0)\<rparr>) \<and>
    rust_syscall_handler SYS_UNAME p a2 a3 a4 a5 a6 s =
      Some (0, (logged SYS_UNAME s)\<lparr>k_mem := store_bytes p uname_info (k_mem s)\<rparr>) \<and>
    rust_syscall_handler SYS_GETTIMEOFDAY p a2 a3 a4 a5 a6 s =
      Some (0, (logged SYS_GETTIMEOFDAY s)\<lparr>k_mem := store_bytes (p + 8) (le64 0) (store_bytes p (le64 1640995200) (k_mem s))\<rparr>)"
  using assms
  by (simp add: handler_eq sys_numbers syscall_dispatch_def sys_getcwd_def sys_uname_def sys_gettimeofday_def)

theorem unchecked_stores_witness:
  "\<exists>r s'. rust_syscall_handler SYS_GETCWD 0xFFFF800000000000 1 0 0 0 0 demo_kernel = Some (r, s') \<and>
     k_mem s' 0xFFFF800000000000 = ch_slash \<and> \<not> check_access 0xFFFF800000000000 2 demo_kernel"
  using unchecked_stores [of "0xFFFF800000000000" 1] procs.user_allowed [OF proc_reach_ok [OF demo_kernel_reach(1)] demo_kernel_user]
  by (simp add: check_access_def user_data_def in_range_def)

text \<open>C27: The calls that create and remove names act on the file system exactly as the map from paths to entries
  specifies, at the path stored in memory. \<open>mkdir\<close> answers EEXIST for every failure, \<open>creat\<close> takes an
  existing name as success, and \<open>rmdir\<close> and \<open>unlink\<close> both remove whatever the path names.\<close>

theorem path_calls_refine:
  assumes "cstr_at (k_mem s) p t" "p \<noteq> 0"
  shows "\<exists>s1 s2 s3 s4.
    rust_syscall_handler SYS_CREAT p a2 a3 a4 a5 a6 s =
      Some (if fst (spec_create Regular (get_path_components (Some t)) (vfs_map (k_vfs s))) \<in> {0, - 17} then 3 else EACCES, s1) \<and>
    vfs_map (k_vfs s1) = snd (spec_create Regular (get_path_components (Some t)) (vfs_map (k_vfs s))) \<and>
    rust_syscall_handler SYS_MKDIR p a2 a3 a4 a5 a6 s =
      Some (if fst (spec_create Directory (get_path_components (Some t)) (vfs_map (k_vfs s))) = 0 then 0 else EEXIST, s2) \<and>
    vfs_map (k_vfs s2) = snd (spec_create Directory (get_path_components (Some t)) (vfs_map (k_vfs s))) \<and>
    rust_syscall_handler SYS_UNLINK p a2 a3 a4 a5 a6 s =
      Some (if fst (spec_delete (get_path_components (Some t)) (vfs_map (k_vfs s))) = 0 then 0 else ENOENT, s3) \<and>
    rust_syscall_handler SYS_RMDIR p a2 a3 a4 a5 a6 s =
      Some (if fst (spec_delete (get_path_components (Some t)) (vfs_map (k_vfs s))) = 0 then 0 else ENOENT, s4) \<and>
    vfs_map (k_vfs s3) = snd (spec_delete (get_path_components (Some t)) (vfs_map (k_vfs s))) \<and>
    vfs_map (k_vfs s4) = snd (spec_delete (get_path_components (Some t)) (vfs_map (k_vfs s)))"
  using assms read_cstr_at [OF assms(1)]
    vfs_fs.view_create [of "Some t" "k_vfs s", symmetric] vfs_fs.view_mkdir [of "Some t" "k_vfs s", symmetric]
    vfs_fs.view_unlink [of "Some t" "k_vfs s", symmetric]
  by (simp add: handler_eq sys_numbers syscall_dispatch_def path_defs case_prod_beta)

theorem path_calls_refine_witness:
  "\<exists>s1. rust_syscall_handler SYS_CREAT 0x800000 0 0 0 0 0 demo_kernel = Some (3, s1) \<and>
     vfs_map (k_vfs s1) [bytes ''b''] = Some (Regular, [])"
proof -
  have g: "get_path_components (Some (bytes ''/b'')) = [bytes ''b'']"
    by (simp add: get_path_components_def bytes_def)
  have f: "vfs_map (k_vfs demo_kernel) [] \<noteq> None" "vfs_map (k_vfs demo_kernel) [bytes ''b''] = None"
    by (simp_all add: demo_kernel_def demo_fs_tree vfs_map_def tree_map_Cons bytes_def bt_get_def)
  from path_calls_refine [OF demo_kernel_mem, of 0 0 0 0 0] show ?thesis
    by (auto simp: g f spec_create_def)
qed

end
