(* ===== verification/Shell_Text.thy ===== *)
theory Shell_Text
  imports Kernel_Prelude
begin

text \<open>
  The text utilities of the shell (\<^verbatim>\<open>kernel-rs/src/bash.rs\<close>, lines 51 to 145): printing, C strings in
  fixed arrays, and integer parsing.

  \<open>print_str\<close> sends the same C string to the serial port and to the screen; the model records it once,
  as the text both receive. Signed 32-bit arithmetic wraps, as in the release build.
\<close>

section \<open>Definitions\<close>

datatype shell_event =
    Print "u8 list" | Put u8 | Screen_clear | Screen_color u8 | Keyboard_clear | Interrupts_on | Process_list
  | Serial "u8 list" | Cpu_pause | Network_poll | Sock_socket | Sock_connect "u8 list" nat | Sock_send "u8 list"
  | Sock_recv | Sock_close

text \<open>\<^verbatim>\<open>Iterator::position\<close> and \<^verbatim>\<open>rposition\<close>.\<close>

fun position :: "('a \<Rightarrow> bool) \<Rightarrow> 'a list \<Rightarrow> nat option" where
  "position P [] = None"
| "position P (x # xs) = (if P x then Some 0 else map_option Suc (position P xs))"

definition rposition :: "('a \<Rightarrow> bool) \<Rightarrow> 'a list \<Rightarrow> nat option" where
  "rposition P xs = map_option (\<lambda>i. length xs - 1 - i) (position P (rev xs))"

definition print_str :: "u8 list \<Rightarrow> shell_event" where
  "print_str s =
     (let buf = replicate 1024 0;
          len = min (length s) (length buf - 1)
      in Print (c_text (take len s @ drop len buf)))"

definition print_char :: "u8 \<Rightarrow> shell_event" where
  "print_char c = Put c"

definition swap_bytes :: "nat \<Rightarrow> nat \<Rightarrow> u8 list \<Rightarrow> u8 list" where
  "swap_bytes i j buf = buf[i := buf ! j, j := buf ! i]"

definition print_int :: "nat \<Rightarrow> shell_event option" where
  "print_int n = do {
     (buf, i) \<leftarrow> (if n = 0 then Some ((replicate 32 0)[0 := ch_zero], 1) else digit_loop (replicate 32 0) 0 n);
     let buf = fold (\<lambda>j b. swap_bytes j (i - 1 - j) b) [0..<i div 2] buf;
     buf \<leftarrow> arr_set buf i 0;
     Some (print_str (take (i + 1) buf))
   }"

definition get_str :: "u8 list \<Rightarrow> u8 list" where
  "get_str bs = (case position (\<lambda>b. b = 0) bs of Some null_pos \<Rightarrow> take null_pos bs | None \<Rightarrow> bs)"

definition str_eq :: "u8 list \<Rightarrow> u8 list \<Rightarrow> bool" where
  "str_eq a b \<longleftrightarrow> get_str a = get_str b"

definition copy_str :: "u8 list \<Rightarrow> u8 list \<Rightarrow> u8 list" where
  "copy_str dest src =
     (if length dest = 0 then dest
      else let len = min (length dest - 1) (length src)
           in (take len src @ drop len dest)[len := 0])"

definition str_append :: "u8 list \<Rightarrow> u8 list \<Rightarrow> u8 list" where
  "str_append dest src =
     (let dest_len = length (get_str dest);
          remaining = length dest - (dest_len + 1);
          copy_len = min remaining (length src)
      in if dest_len + copy_len < length dest
         then (take dest_len dest @ take copy_len src @ drop (dest_len + copy_len) dest)[dest_len + copy_len := 0]
         else dest)"

definition find_byte :: "u8 list \<Rightarrow> u8 \<Rightarrow> nat option" where
  "find_byte haystack needle = position (\<lambda>b. b = needle) haystack"

definition is_digit :: "u8 \<Rightarrow> bool" where "is_digit b \<longleftrightarrow> ch_zero \<le> b \<and> b \<le> 57"

fun parse_digits :: "u8 list \<Rightarrow> u32 \<Rightarrow> nat \<Rightarrow> u32 \<times> nat" where
  "parse_digits [] result i = (result, i)"
| "parse_digits (b # s) result i =
     (if is_digit b then parse_digits s (result * 10 + ucast (b - ch_zero)) (i + 1) else (result, i))"

definition parse_int :: "u8 list \<Rightarrow> int option" where
  "parse_int s =
     (if length s = 0 then None
      else let negative = (s ! 0 = 45);
               i0 = (if negative then 1 else 0);
               (result, i) = parse_digits (drop i0 s) 0 i0
           in if i = 0 \<or> i = 1 \<and> negative then None
              else Some (sint (if negative then - result else result)))"

section \<open>Strings in arrays\<close>

lemma position_eq_None: "position P xs = None \<longleftrightarrow> (\<forall>x \<in> set xs. \<not> P x)"
  by (induction xs) auto

lemma position_takeWhile: "position P xs = Some i \<Longrightarrow> take i xs = takeWhile (\<lambda>x. \<not> P x) xs \<and> i < length xs \<and> P (xs ! i)"
  by (induction xs arbitrary: i) (auto split: if_splits)

lemma get_str_c_text: "get_str bs = c_text bs"
  using position_takeWhile [of "\<lambda>b. b = 0" bs] position_eq_None [of "\<lambda>b. b = 0" bs]
  by (auto simp: get_str_def c_text_def takeWhile_eq_all_conv [THEN iffD2] split: option.split)

lemma get_str_nonzero: "0 \<notin> set (get_str bs)"
  by (simp add: get_str_c_text c_text_nonzero)

lemma get_str_id: "0 \<notin> set s \<Longrightarrow> get_str s = s"
  by (simp add: get_str_c_text c_text_all)

lemma get_str_pad: "0 \<notin> set s \<Longrightarrow> get_str (s @ 0 # t) = s"
  by (simp add: get_str_c_text c_text_pad)

lemma length_copy_str [simp]: "length (copy_str dest src) = length dest"
  by (auto simp: copy_str_def Let_def)

lemma length_str_append [simp]: "length (str_append dest src) = length dest"
  by (auto simp: str_append_def Let_def get_str_c_text c_text_def intro: order.trans [OF length_takeWhile_le])

lemma list_update_mid: "length xs = n \<Longrightarrow> n < length (xs @ ys) \<Longrightarrow> (xs @ ys)[n := v] = xs @ v # tl ys"
  by (cases ys) auto

lemma copy_str_eq:
  assumes "0 < length dest"
  shows "\<exists>t. copy_str dest src = take (length dest - 1) src @ 0 # t"
proof -
  let ?n = "min (length dest - 1) (length src)"
  have n: "?n < length dest" using assms by linarith
  then have "copy_str dest src = take ?n src @ 0 # tl (drop ?n dest)"
    using assms list_update_mid [of "take ?n src" ?n "drop ?n dest" 0] by (simp add: copy_str_def Let_def)
  moreover have "take ?n src = take (length dest - 1) src" by (simp add: min_def)
  ultimately show ?thesis by metis
qed

lemma take_nonzero: "0 \<notin> set s \<Longrightarrow> 0 \<notin> set (take n s)"
  by (meson in_set_takeD)

lemma get_str_copy_str:
  assumes "0 < length dest" "0 \<notin> set src"
  shows "get_str (copy_str dest src) = take (length dest - 1) src"
  using copy_str_eq [OF assms(1), of src] take_nonzero [OF assms(2)] by (auto simp: get_str_pad)

text \<open>Appending concatenates, cut to what fits below the terminator.\<close>

lemma str_append_eq:
  assumes "0 \<notin> set s"
  shows "\<exists>u. str_append (s @ 0 # t) src = s @ take (length t) src @ 0 # u"
proof -
  let ?d = "s @ 0 # t" and ?c = "min (length t) (length src)"
  have g: "get_str ?d = s" using assms by (simp add: get_str_pad)
  have "str_append ?d src = (s @ take ?c src @ drop (length s + ?c) ?d)[length s + ?c := 0]"
    unfolding str_append_def Let_def g by (simp add: min_less_iff_disj)
  also have "\<dots> = s @ take ?c src @ 0 # tl (drop (length s + ?c) ?d)"
    using list_update_mid [of "s @ take ?c src" "length s + ?c" "drop (length s + ?c) ?d" 0] by simp
  also have "take ?c src = take (length t) src" by (simp add: min_def)
  finally show ?thesis by blast
qed

lemma get_str_append:
  assumes "0 \<in> set dest" "0 \<notin> set src"
  shows "get_str (str_append dest src) = take (length dest - 1) (get_str dest @ src)"
proof -
  obtain s t where st: "dest = s @ 0 # t" "0 \<notin> set s" using split_list_first [OF assms(1)] by blast
  obtain u where "str_append dest src = s @ take (length t) src @ 0 # u" using str_append_eq [OF st(2)] st(1) by blast
  moreover have "0 \<notin> set (s @ take (length t) src)" using st(2) take_nonzero [OF assms(2)] by auto
  ultimately show ?thesis using get_str_pad [of "s @ take (length t) src" u] st by (simp add: get_str_pad)
qed

lemma zero_in_copy_str: "0 < length dest \<Longrightarrow> 0 \<in> set (copy_str dest src)"
  using copy_str_eq [of dest src] by auto

lemma zero_in_str_append: "0 \<in> set dest \<Longrightarrow> 0 \<in> set (str_append dest src)"
proof -
  assume z: "0 \<in> set dest"
  then obtain s t where "dest = s @ 0 # t" "0 \<notin> set s" using split_list_first [OF z] by blast
  then show ?thesis using str_append_eq [of s t src] by auto
qed

lemma print_str_text: "length s < 1024 \<Longrightarrow> print_str s = Print (c_text s)"
  using c_text_zero [of s "replicate (1023 - length s) 0"] Suc_diff_le [of "length s" 1023]
  by (simp add: print_str_def Let_def min_def flip: replicate_Suc)

section \<open>Integers\<close>

text \<open>Swapping the outer pairs reverses a prefix.\<close>

lemma swap_loop:
  assumes "i \<le> length buf" "k \<le> i div 2"
  shows "fold (\<lambda>j b. swap_bytes j (i - Suc j) b) [0..<k] buf =
    map (\<lambda>m. if m < k \<or> i - k \<le> m \<and> m < i then buf ! (i - 1 - m) else buf ! m) [0..<length buf]"
  using assms(2)
proof (induction k)
  case 0
  then show ?case by (auto intro!: nth_equalityI)
next
  case (Suc k)
  then show ?case using assms(1)
    by (auto simp: swap_bytes_def intro!: nth_equalityI) (auto simp: nth_list_update)
qed

lemma reverse_loop:
  assumes "i \<le> length buf"
  shows "fold (\<lambda>j b. swap_bytes j (i - Suc j) b) [0..<i div 2] buf = rev (take i buf) @ drop i buf"
proof (rule nth_equalityI)
  fix m assume "m < length (fold (\<lambda>j b. swap_bytes j (i - Suc j) b) [0..<i div 2] buf)"
  then have m: "m < length buf" using assms by (simp add: swap_loop)
  have "m < i div 2 \<or> i - i div 2 \<le> m \<or> i - 1 - m = m" if "m < i" using that by linarith
  then show "fold (\<lambda>j b. swap_bytes j (i - Suc j) b) [0..<i div 2] buf ! m = (rev (take i buf) @ drop i buf) ! m"
    using m assms by (auto simp: swap_loop nth_append rev_nth min_def)
qed (use assms in \<open>simp add: swap_loop\<close>)

lemma print_int_exact:
  assumes "n < 2 ^ 64"
  shows "print_int n = Some (Print (dec_text n))"
proof -
  have l: "length (dec_text n) \<le> 20" using assms by (intro length_dec_text_le) simp_all
  have "(if n = 0 then Some ((replicate 32 0)[0 := ch_zero], 1) else digit_loop (replicate 32 0) 0 n) =
      Some (rev (dec_text n) @ replicate (32 - length (dec_text n)) 0, length (dec_text n))"
  proof (cases "n = 0")
    case True
    then show ?thesis by (simp add: dec_text.simps [of 0] numeral_eq_Suc)
  next
    case False
    then show ?thesis using l by (simp add: digit_loop_dec_text arr_write_fits)
  qed
  moreover have "arr_set (dec_text n @ replicate (32 - length (dec_text n)) 0) (length (dec_text n)) 0 =
      Some (dec_text n @ replicate (32 - length (dec_text n)) 0)"
    using arr_set_padded_zero [of "dec_text n" 32] l by (simp add: padded_def)
  moreover have "take (Suc (length (dec_text n))) (dec_text n @ replicate (32 - length (dec_text n)) 0) = dec_text n @ [0]"
    using l by (simp add: take_replicate min_def)
  moreover have "print_str (dec_text n @ [0]) = Print (dec_text n)"
    using l by (simp add: print_str_text c_text_pad dec_text_nonzero)
  ultimately show ?thesis
    by (simp add: print_int_def reverse_loop)
qed

lemma parse_digits_app:
  "(\<forall>b \<in> set s. is_digit b) \<Longrightarrow> (t = [] \<or> \<not> is_digit (hd t)) \<Longrightarrow>
   parse_digits (s @ t) r i = (foldl (\<lambda>acc d. acc * 10 + ucast (d - ch_zero)) r s, i + length s)"
proof (induction s arbitrary: r i)
  case Nil
  then show ?case by (cases t) auto
qed auto

lemma foldl_digits:
  "foldl (\<lambda>acc d. acc * 10 + ucast (d - ch_zero)) (of_nat k) s =
     (of_nat (foldl (\<lambda>acc d. acc * 10 + unat (d - ch_zero)) k s) :: u32)"
proof (induction s arbitrary: k)
  case (Cons d s)
  have "(of_nat k * 10 + ucast (d - ch_zero) :: u32) = of_nat (k * 10 + unat (d - ch_zero))"
    by (simp add: of_nat_unat)
  then show ?case using Cons [of "k * 10 + unat (d - ch_zero)"] by simp
qed simp

lemma dec_text_is_digit: "b \<in> set (dec_text n) \<Longrightarrow> is_digit b"
  using dec_text_digits [of b n] by (simp add: is_digit_def)

lemma parse_digits_dec_text:
  "t = [] \<or> \<not> is_digit (hd t) \<Longrightarrow>
   parse_digits (dec_text n @ t) 0 i = (of_nat n, i + length (dec_text n))"
  using parse_digits_app [of "dec_text n" t 0 i] dec_text_is_digit foldl_digits [of 0 "dec_text n"]
    dec_value_dec_text [of n] by (simp add: dec_value_def)

lemma hd_dec_text: "dec_text n ! 0 \<noteq> 45"
  using dec_text_digits [of "dec_text n ! 0" n] nth_mem [of 0 "dec_text n"] by auto

lemma sint_of_int_small: "- (2 ^ 31) \<le> k \<Longrightarrow> k < 2 ^ 31 \<Longrightarrow> sint (of_int k :: u32) = k"
  using signed_take_bit_int_eq_self [of 31 k] by (simp add: signed_of_int)

lemma sint_of_nat_small: "n < 2 ^ 31 \<Longrightarrow> sint (of_nat n :: u32) = int n" "n \<le> 2 ^ 31 \<Longrightarrow> sint (- of_nat n :: u32) = - int n"
  using sint_of_int_small [of "int n"] sint_of_int_small [of "- int n"] by simp_all

text \<open>Printed integers are parsed back, also with a sign and with text behind them.\<close>

lemma parse_int_dec_text:
  assumes "t = [] \<or> \<not> is_digit (hd t)"
  shows "n < 2 ^ 31 \<Longrightarrow> parse_int (dec_text n @ t) = Some (int n)"
    "n \<le> 2 ^ 31 \<Longrightarrow> parse_int (45 # dec_text n @ t) = Some (- int n)"
  using hd_dec_text [of n] parse_digits_dec_text [OF assms, of n] length_dec_text_pos [of n]
  by (auto simp: parse_int_def Let_def nth_append sint_of_nat_small)

text \<open>Everything else is refused: an empty text, a lone sign, and a text that does not start with a digit.\<close>

lemma parse_int_None:
  "parse_int s = None \<longleftrightarrow> s = [] \<or> (hd s \<noteq> 45 \<and> \<not> is_digit (hd s)) \<or> (hd s = 45 \<and> (tl s = [] \<or> \<not> is_digit (hd (tl s))))"
proof -
  have ge: "i \<le> snd (parse_digits u r i)" for u r i
    by (induction u arbitrary: r i) (auto intro: Suc_leD)
  have gt: "i < snd (parse_digits u r i)" if "u \<noteq> []" "is_digit (hd u)" for u r i
    using that ge [of "Suc i"] by (cases u) (auto simp: less_eq_Suc_le)
  have eq: "snd (parse_digits u r i) = i" if "u = [] \<or> \<not> is_digit (hd u)" for u r i
    using that by (cases u) auto
  have d: "\<not> is_digit 45" by (simp add: is_digit_def)
  show ?thesis
  proof (cases s)
    case (Cons b u)
    show ?thesis
    proof (cases "b = 45")
      case True
      then show ?thesis using Cons gt [of u 1 0] eq [of u 0 1]
        by (auto simp: parse_int_def case_prod_beta) 
    next
      case False
      then show ?thesis using Cons gt [of s 0 0] eq [of s 0 0] by (auto simp: parse_int_def case_prod_beta)
    qed
  qed (simp add: parse_int_def)
qed

end
