(* ===== verification/Shell_State.thy ===== *)
theory Shell_State
  imports Shell_Text Heap_Allocator
begin

text \<open>
  The state of the shell (\<^verbatim>\<open>kernel-rs/src/bash.rs\<close>, lines 147 to 415, 456 to 506 and 712 to 808): the tables for
  variables, aliases and history, the prompt, the line editor and the splitting of a command line.

  The tables live in heap blocks; a block is the pointer (0 is null) together with the memory behind
  it as a list of entries. The key presses the line editor reads are the results of the keyboard
  queue in order; \<open>-1\<close> and \<open>0\<close> mean that no key is waiting and the loop halts until the next interrupt.
  When the given key presses are used up before the line ends, the editor is still waiting (\<open>None\<close>).
  The diagnostic lines the shell writes to the serial port only (marked BASH-DEBUG in the source) carry
  no information for the program and are left out.
\<close>

section \<open>Definitions\<close>

definition MAX_CMD_LEN :: nat where "MAX_CMD_LEN = 1024"
definition MAX_PATH_LEN :: nat where "MAX_PATH_LEN = 256"
definition MAX_ENV_VARS :: nat where "MAX_ENV_VARS = 50"
definition MAX_ALIASES :: nat where "MAX_ALIASES = 20"
definition MAX_HISTORY :: nat where "MAX_HISTORY = 10"
definition MAX_ARGS :: nat where "MAX_ARGS = 32"

lemmas shell_limits = MAX_CMD_LEN_def MAX_PATH_LEN_def MAX_ENV_VARS_def MAX_ALIASES_def MAX_HISTORY_def MAX_ARGS_def

record EnvVar =
  ename :: "u8 list"
  evalue :: "u8 list"

record Alias =
  aname :: "u8 list"
  acommand :: "u8 list"

record BashShell =
  cwd :: "u8 list"
  env_vars :: usize
  env_table :: "EnvVar list"
  env_count :: nat
  aliases :: usize
  alias_table :: "Alias list"
  alias_count :: nat
  history :: usize
  history_table :: "u8 list list"
  history_count :: nat
  history_pos :: nat
  last_exit_code :: int
  prompt :: "u8 list"

definition bash_new :: "heap \<Rightarrow> (BashShell \<times> heap) option" where
  "bash_new h = do {
     (env_vars_ptr, h) \<leftarrow> rust_kmalloc (of_nat ((64 + 256) * MAX_ENV_VARS)) h;
     (aliases_ptr, h) \<leftarrow> rust_kmalloc (of_nat ((32 + 256) * MAX_ALIASES)) h;
     (history_ptr, h) \<leftarrow> rust_kmalloc (of_nat (MAX_CMD_LEN * MAX_HISTORY)) h;
     if env_vars_ptr = 0 \<or> aliases_ptr = 0 \<or> history_ptr = 0 then None
     else Some (\<lparr>cwd = (replicate MAX_PATH_LEN 0)[0 := ch_slash, 1 := 0],
       env_vars = env_vars_ptr, env_table = replicate MAX_ENV_VARS \<lparr>ename = replicate 64 0, evalue = replicate 256 0\<rparr>,
       env_count = 0,
       aliases = aliases_ptr, alias_table = replicate MAX_ALIASES \<lparr>aname = replicate 32 0, acommand = replicate 256 0\<rparr>,
       alias_count = 0,
       history = history_ptr, history_table = replicate MAX_HISTORY (replicate MAX_CMD_LEN 0),
       history_count = 0, history_pos = 0, last_exit_code = 0, prompt = replicate 64 0\<rparr>, h)
   }"

definition bash_drop :: "BashShell \<Rightarrow> heap \<Rightarrow> heap" where
  "bash_drop s h =
     (let h1 = (if env_vars s \<noteq> 0 then rust_kfree (env_vars s) h else h);
          h2 = (if aliases s \<noteq> 0 then rust_kfree (aliases s) h1 else h1)
      in if history s \<noteq> 0 then rust_kfree (history s) h2 else h2)"

text \<open>\<^verbatim>\<open>name.get(j).copied().unwrap_or(0)\<close>\<close>

definition get0 :: "u8 list \<Rightarrow> nat \<Rightarrow> u8" where
  "get0 xs j = (if j < length xs then xs ! j else 0)"

function match_from :: "nat \<Rightarrow> u8 list \<Rightarrow> u8 list \<Rightarrow> bool" where
  "match_from j arr name =
     (if j < 64 then
        if arr ! j \<noteq> get0 name j then False
        else if get0 name j = 0 then True
        else match_from (j + 1) arr name
      else True)"
  by pat_completeness auto
termination by (relation "measure (\<lambda>(j, arr, name). 64 - j)") auto

function copy_from :: "nat \<Rightarrow> nat \<Rightarrow> u8 list \<Rightarrow> u8 list \<Rightarrow> u8 list" where
  "copy_from j n src dst =
     (if j < n then
        let dst' = dst[j := get0 src j]
        in if get0 src j = 0 then dst' else copy_from (j + 1) n src dst'
      else dst)"
  by pat_completeness auto
termination by (relation "measure (\<lambda>(j, n, src, dst). n - j)") auto

declare match_from.simps [simp del] copy_from.simps [simp del]

definition set_env :: "u8 list \<Rightarrow> u8 list \<Rightarrow> BashShell \<Rightarrow> BashShell" where
  "set_env name val s =
     (if env_vars s = 0 then s
      else let found = find (\<lambda>i. match_from 0 (ename (env_table s ! i)) name) [0..<env_count s];
               index = (case found of Some i \<Rightarrow> i | None \<Rightarrow> env_count s);
               s1 = (if found = None \<and> env_count s < MAX_ENV_VARS then s\<lparr>env_count := env_count s + 1\<rparr> else s)
           in if index < MAX_ENV_VARS
              then s1\<lparr>env_table := (env_table s1)[index :=
                     (let e = env_table s1 ! index
                      in e\<lparr>ename := copy_from 0 64 name (ename e), evalue := copy_from 0 256 val (evalue e)\<rparr>)]\<rparr>
              else s1)"

definition get_env :: "u8 list \<Rightarrow> BashShell \<Rightarrow> u8 list option" where
  "get_env name s =
     (if env_vars s = 0 then None
      else map_option (\<lambda>i. get_str (evalue (env_table s ! i)))
             (find (\<lambda>i. str_eq (ename (env_table s ! i)) name) [0..<env_count s]))"

definition set_alias :: "u8 list \<Rightarrow> u8 list \<Rightarrow> BashShell \<Rightarrow> BashShell" where
  "set_alias name command s =
     (if aliases s = 0 then s
      else if alias_count s < MAX_ALIASES then
        let a = alias_table s ! alias_count s;
            name_len = min (length name) 31;
            cmd_len = min (length command) 255;
            a' = a\<lparr>aname := (take name_len name @ drop name_len (aname a))[name_len := 0],
                   acommand := (take cmd_len command @ drop cmd_len (acommand a))[cmd_len := 0]\<rparr>
        in s\<lparr>alias_table := (alias_table s)[alias_count s := a'], alias_count := alias_count s + 1\<rparr>
      else s)"

definition get_alias :: "u8 list \<Rightarrow> BashShell \<Rightarrow> u8 list option" where
  "get_alias name s =
     (if aliases s = 0 then None
      else map_option (\<lambda>i. get_str (acommand (alias_table s ! i)))
             (find (\<lambda>i. str_eq (aname (alias_table s ! i)) name) [0..<alias_count s]))"

definition write_entry :: "u8 list \<Rightarrow> u8 list \<Rightarrow> u8 list" where
  "write_entry command entry =
     (let cmd_len = min (length command) (MAX_CMD_LEN - 1)
      in (take cmd_len command @ drop cmd_len entry)[cmd_len := 0])"

definition add_to_history :: "u8 list \<Rightarrow> BashShell \<Rightarrow> BashShell" where
  "add_to_history command s =
     (if history s = 0 then s
      else let s1 =
             (if history_count s < MAX_HISTORY then
                s\<lparr>history_table := (history_table s)[history_count s := write_entry command (history_table s ! history_count s)],
                  history_count := history_count s + 1\<rparr>
              else
                let t = fold (\<lambda>i t. t[i := t ! (i + 1)]) [0..<MAX_HISTORY - 1] (history_table s)
                in s\<lparr>history_table := t[MAX_HISTORY - 1 := write_entry command (t ! (MAX_HISTORY - 1))]\<rparr>)
           in s1\<lparr>history_pos := history_count s1\<rparr>)"

definition update_prompt :: "BashShell \<Rightarrow> BashShell option" where
  "update_prompt s = do {
     let (p, pos) = arr_write_below 63 0 (bytes ''root@shadeos:'') (replicate 64 0);
     let (p, pos) = arr_write_below 63 pos (get_str (cwd s)) p;
     let (p, pos) = arr_write_below 63 pos (bytes ''$ '') p;
     p \<leftarrow> arr_set p pos 0;
     Some (s\<lparr>prompt := p\<rparr>)
   }"

fun read_loop :: "int list \<Rightarrow> u8 list \<Rightarrow> nat \<Rightarrow> shell_event list \<Rightarrow> (u8 list \<times> shell_event list \<times> int list) option" where
  "read_loop [] buffer pos out = None"
| "read_loop (c # cs) buffer pos out =
     (if c = -1 \<or> c = 0 then read_loop cs buffer pos out
      else let ch = of_int c :: u8 in
        if ch = 10 \<or> ch = 13 then do {
          buffer \<leftarrow> arr_set buffer pos 0;
          Some (buffer, out @ [print_str [10]], cs)
        }
        else if ch = 8 \<or> ch = 127 then
          if 0 < pos then do {
            buffer \<leftarrow> arr_set buffer (pos - 1) 0;
            read_loop cs buffer (pos - 1) (out @ [print_char 8, print_char 32, print_char 8])
          }
          else read_loop cs buffer pos out
        else if 32 \<le> ch \<and> ch < 127 \<and> pos < length buffer - 1 then do {
          buffer \<leftarrow> arr_set buffer pos ch;
          read_loop cs buffer (pos + 1) (out @ [print_char ch])
        }
        else read_loop cs buffer pos out)"

definition read_line :: "int list \<Rightarrow> nat \<Rightarrow> (u8 list \<times> shell_event list \<times> int list) option" where
  "read_line keys len = read_loop keys (replicate len 0) 0 []"

definition tab_complete :: shell_event where
  "tab_complete = print_str [7]"

record parse_state =
  argc :: nat
  arg_start :: nat
  in_quotes :: bool
  quote_char :: u8
  buffer_pos :: nat
  args_buffer :: "u8 list"

definition is_blank :: "u8 \<Rightarrow> bool" where "is_blank ch \<longleftrightarrow> ch = 32 \<or> ch = 9"

definition end_argument :: "parse_state \<Rightarrow> parse_state option" where
  "end_argument p =
     (if arg_start p < buffer_pos p then do {
        b \<leftarrow> arr_set (args_buffer p) (buffer_pos p) 0;
        Some (p\<lparr>args_buffer := b, buffer_pos := buffer_pos p + 1, argc := argc p + 1, arg_start := buffer_pos p + 1\<rparr>)
      }
      else Some p)"

definition toggle_quotes :: "u8 \<Rightarrow> parse_state \<Rightarrow> parse_state" where
  "toggle_quotes ch p =
     (if \<not> in_quotes p then p\<lparr>in_quotes := True, quote_char := ch\<rparr>
      else if ch = quote_char p then p\<lparr>in_quotes := False\<rparr>
      else p)"

definition push_byte :: "u8 \<Rightarrow> parse_state \<Rightarrow> parse_state option" where
  "push_byte ch p = do {
     b \<leftarrow> arr_set (args_buffer p) (buffer_pos p) ch;
     Some (p\<lparr>args_buffer := b, buffer_pos := buffer_pos p + 1\<rparr>)
   }"

function parse_loop :: "u8 list \<Rightarrow> parse_state \<Rightarrow> parse_state option" where
  "parse_loop [] p = Some p"
| "parse_loop (ch # rest) p =
     (if argc p < MAX_ARGS \<and> buffer_pos p < length (args_buffer p) - 64 then
        if \<not> in_quotes p \<and> is_blank ch
        then (case end_argument p of None \<Rightarrow> None | Some p' \<Rightarrow> parse_loop (dropWhile is_blank rest) p')
        else if ch = 34 \<or> ch = 39 then parse_loop rest (toggle_quotes ch p)
        else (case push_byte ch p of None \<Rightarrow> None | Some p' \<Rightarrow> parse_loop rest p')
      else Some p)"
  by pat_completeness auto
termination
  by (relation "measure (\<lambda>(cs, p). length cs)") (auto simp: le_imp_less_Suc length_dropWhile_le)

definition parse_command_heap :: "u8 list \<Rightarrow> u8 list \<Rightarrow> (nat \<times> u8 list) option" where
  "parse_command_heap command_line buffer = do {
     p \<leftarrow> parse_loop (dropWhile is_blank command_line)
            \<lparr>argc = 0, arg_start = 0, in_quotes = False, quote_char = 0, buffer_pos = 0, args_buffer = buffer\<rparr>;
     if arg_start p < buffer_pos p \<and> argc p < MAX_ARGS then do {
       b \<leftarrow> arr_set (args_buffer p) (buffer_pos p) 0;
       Some (argc p + 1, b)
     }
     else Some (argc p, args_buffer p)
   }"

text \<open>The position of the code is the rest of the buffer from there on.\<close>

fun skip_args :: "nat \<Rightarrow> u8 list \<Rightarrow> u8 list" where
  "skip_args 0 rest = rest"
| "skip_args (Suc n) rest = (if rest = [] then [] else skip_args n (drop 1 (dropWhile (\<lambda>b. b \<noteq> 0) rest)))"

definition get_arg_heap :: "u8 list \<Rightarrow> nat \<Rightarrow> u8 list" where
  "get_arg_heap buffer n = takeWhile (\<lambda>b. b \<noteq> 0) (skip_args n buffer)"

section \<open>Variables\<close>

lemma get0_c_text: "j \<le> length (c_text n) \<Longrightarrow> get0 n j = get0 (c_text n) j"
proof -
  have "c_text n = takeWhile (\<lambda>b. b \<noteq> 0) n" by (simp add: c_text_def)
  then show "j \<le> length (c_text n) \<Longrightarrow> ?thesis"
    using takeWhile_nth [of j "\<lambda>b. b \<noteq> 0" n] nth_length_takeWhile [of "\<lambda>b. b \<noteq> 0" n] length_takeWhile_le [of "\<lambda>b. b \<noteq> 0" n]
    by (auto simp: get0_def le_less)
qed

lemma get0_nth: "j < length (c_text n) \<Longrightarrow> get0 n j = c_text n ! j"
  using get0_c_text [of j n] by (simp add: get0_def)

lemma get0_nonzero: "j < length (c_text n) \<Longrightarrow> get0 n j \<noteq> 0"
  using get0_nth [of j n] c_text_nonzero [of n] nth_mem [of j "c_text n"] by metis

lemma get0_end: "get0 n (length (c_text n)) = 0"
  using get0_c_text [of "length (c_text n)" n] by (simp add: get0_def)

lemma c_text_eqI:
  assumes "take j arr = t" "j < length arr" "arr ! j = 0" "0 \<notin> set t"
  shows "c_text arr = t"
proof -
  have "arr = t @ 0 # drop (Suc j) arr" using assms id_take_nth_drop [OF assms(2)] by simp
  then show ?thesis using c_text_pad [OF assms(4)] by metis
qed

lemma c_text_prefix: "k < length (c_text arr) \<Longrightarrow> c_text arr ! k = arr ! k"
  by (simp add: c_text_def takeWhile_nth)

lemma match_from_iff:
  "j \<le> 64 \<Longrightarrow> length arr = 64 \<Longrightarrow> take j arr = take j (c_text n) \<Longrightarrow> j \<le> length (c_text n) \<Longrightarrow>
   match_from j arr n \<longleftrightarrow> c_text arr = take 64 (c_text n)"
proof (induction j arr n rule: match_from.induct)
  case (1 j arr n)
  let ?t = "c_text n"
  consider (last) "j = 64" | (stop) "j < 64" "j = length ?t" | (go) "j < 64" "j < length ?t"
    using "1.prems" by linarith
  then show ?case
  proof cases
    case last
    then have "arr = take 64 ?t" using "1.prems" by simp
    moreover have "c_text (take 64 ?t) = take 64 ?t"
      using c_text_nonzero [of n] by (intro c_text_all) (meson in_set_takeD)
    ultimately show ?thesis using last by (simp add: match_from.simps [of 64])
  next
    case stop
    have g: "get0 n j = 0" using stop get0_end by simp
    have t: "take 64 ?t = ?t" "take j arr = ?t" using stop "1.prems" by simp_all
    have "arr ! j = 0 \<longleftrightarrow> c_text arr = ?t"
    proof
      assume "arr ! j = 0"
      then show "c_text arr = ?t" using c_text_eqI [OF t(2)] stop "1.prems"(2) c_text_nonzero by simp
    next
      assume "c_text arr = ?t"
      then show "arr ! j = 0" using get0_end [of arr] stop "1.prems"(2) by (simp add: get0_def)
    qed
    then show ?thesis using g stop t by (subst match_from.simps) simp
  next
    case go
    have g: "get0 n j = ?t ! j" "get0 n j \<noteq> 0" using go get0_nth get0_nonzero by simp_all
    show ?thesis
    proof (cases "arr ! j = get0 n j")
      case True
      have "take (Suc j) arr = take (Suc j) ?t"
        using True go "1.prems" g by (simp add: take_Suc_conv_app_nth)
      then have "match_from (j + 1) arr n \<longleftrightarrow> c_text arr = take 64 ?t"
        using "1.IH" True g go "1.prems" by simp
      then show ?thesis using True g go by (simp add: match_from.simps [of j])
    next
      case False
      have "c_text arr \<noteq> take 64 ?t"
      proof
        assume e: "c_text arr = take 64 ?t"
        then have "j < length (c_text arr)" using go by simp
        then have "arr ! j = ?t ! j" using c_text_prefix [of j arr] e go by simp
        then show False using False g by simp
      qed
      then show ?thesis using False go by (simp add: match_from.simps [of j])
    qed
  qed
qed

lemma match_name: "length arr = 64 \<Longrightarrow> match_from 0 arr n \<longleftrightarrow> c_text arr = take 64 (c_text n)"
  by (rule match_from_iff) simp_all

lemma copy_from_text:
  "j \<le> n \<Longrightarrow> length dst = n \<Longrightarrow> take j dst = take j (c_text src) \<Longrightarrow> j \<le> length (c_text src) \<Longrightarrow>
   length (copy_from j n src dst) = n \<and> c_text (copy_from j n src dst) = take n (c_text src)"
proof (induction j n src dst rule: copy_from.induct)
  case (1 j n src dst)
  let ?t = "c_text src"
  consider (last) "j = n" | (stop) "j < n" "j = length ?t" | (go) "j < n" "j < length ?t"
    using "1.prems" by linarith
  then show ?case
  proof cases
    case last
    then have "dst = take n ?t" using "1.prems" by simp
    moreover have "c_text (take n ?t) = take n ?t"
      using c_text_nonzero [of src] by (intro c_text_all) (meson in_set_takeD)
    ultimately show ?thesis using last "1.prems"(2) by (simp add: copy_from.simps [of n])
  next
    case stop
    have g: "get0 src j = 0" using stop get0_end by simp
    have "c_text (dst[j := 0]) = ?t"
      using c_text_eqI [of j "dst[j := 0]" ?t] stop "1.prems" c_text_nonzero by simp
    then show ?thesis using stop g "1.prems" by (subst copy_from.simps, subst copy_from.simps) simp
  next
    case go
    have g: "get0 src j = ?t ! j" "get0 src j \<noteq> 0" using go get0_nth get0_nonzero by simp_all
    have "take (Suc j) (dst[j := get0 src j]) = take (Suc j) ?t"
      using go "1.prems" g by (simp add: take_Suc_conv_app_nth)
    then show ?thesis using "1.IH" [OF go(1) refl g(2)] go "1.prems" g(2) by (simp add: copy_from.simps [of j])
  qed
qed

lemma copy_name: "length dst = n \<Longrightarrow> c_text (copy_from 0 n src dst) = take n (c_text src)"
  and length_copy_name: "length dst = n \<Longrightarrow> length (copy_from 0 n src dst) = n"
  using copy_from_text [of 0 n dst src] by simp_all

text \<open>The shell's tables have their fixed sizes.\<close>

definition shell_ok :: "BashShell \<Rightarrow> bool" where
  "shell_ok s \<longleftrightarrow> length (cwd s) = 256 \<and> 0 \<in> set (cwd s) \<and> length (prompt s) = 64 \<and>
     env_vars s \<noteq> 0 \<and> length (env_table s) = 50 \<and> env_count s \<le> 50 \<and>
     (\<forall>e \<in> set (env_table s). length (ename e) = 64 \<and> length (evalue e) = 256) \<and>
     aliases s \<noteq> 0 \<and> length (alias_table s) = 20 \<and> alias_count s \<le> 20 \<and>
     (\<forall>a \<in> set (alias_table s). length (aname a) = 32 \<and> length (acommand a) = 256) \<and>
     history s \<noteq> 0 \<and> length (history_table s) = 10 \<and> history_count s \<le> 10 \<and>
     (\<forall>e \<in> set (history_table s). length e = 1024)"

text \<open>The table as a list of names and values.\<close>

definition env_list :: "BashShell \<Rightarrow> (u8 list \<times> u8 list) list" where
  "env_list s = map (\<lambda>e. (c_text (ename e), c_text (evalue e))) (take (env_count s) (env_table s))"

lemma find_upt_map_of:
  "n \<le> length xs \<Longrightarrow>
   map_option (\<lambda>i. g (xs ! i)) (find (\<lambda>i. f (xs ! i) = k) [0..<n]) = map_of (map (\<lambda>x. (f x, g x)) (take n xs)) k"
proof (induction n arbitrary: xs)
  case (Suc n)
  then obtain y ys where xs: "xs = y # ys" by (cases xs) auto
  have "[0..<Suc n] = 0 # map Suc [0..<n]" by (simp add: map_Suc_upt upt_conv_Cons del: upt_Suc)
  moreover have "find P (map Suc zs) = map_option Suc (find (P \<circ> Suc) zs)" for P zs by (induction zs) auto
  ultimately show ?case using Suc.IH [of ys] Suc.prems xs
    by (simp add: comp_def option.map_comp del: upt_Suc)
qed simp

lemma get_env_map_of:
  assumes "shell_ok s"
  shows "get_env m s = map_of (env_list s) (c_text m)"
  using assms find_upt_map_of [of "env_count s" "env_table s" "\<lambda>e. c_text (evalue e)" "\<lambda>e. c_text (ename e)" "c_text m"]
  by (simp add: get_env_def env_list_def str_eq_def get_str_c_text shell_ok_def)

lemma find_index_unique:
  assumes "find P [0..<n] = Some i"
  shows "i < n \<and> P i \<and> (\<forall>j < i. \<not> P j)"
  using assms by (auto simp: find_Some_iff)

text \<open>What an assignment does to the list: it replaces the first entry with the name, or appends one while there
  is room.\<close>

fun assoc_put :: "'k \<Rightarrow> 'v \<Rightarrow> ('k \<times> 'v) list \<Rightarrow> ('k \<times> 'v) list" where
  "assoc_put k v [] = [(k, v)]"
| "assoc_put k v ((k', v') # xs) = (if k' = k then (k, v) # xs else (k', v') # assoc_put k v xs)"

lemma map_of_assoc_put: "map_of (assoc_put k v xs) = (map_of xs)(k \<mapsto> v)"
  by (induction k v xs rule: assoc_put.induct) auto

lemma assoc_put_found:
  "i < length xs \<Longrightarrow> fst (xs ! i) = k \<Longrightarrow> \<forall>j < i. fst (xs ! j) \<noteq> k \<Longrightarrow> assoc_put k v xs = xs[i := (k, v)]"
proof (induction xs arbitrary: i)
  case (Cons x xs)
  show ?case
  proof (cases i)
    case 0
    with Cons.prems show ?thesis by (cases x) simp
  next
    case (Suc j)
    have "fst x \<noteq> k" using Cons.prems(3) Suc by force
    moreover have "assoc_put k v xs = xs[j := (k, v)]" using Cons.prems Suc by (intro Cons.IH) auto
    ultimately show ?thesis using Suc by (cases x) simp
  qed
qed simp

lemma assoc_put_absent: "\<forall>x \<in> set xs. fst x \<noteq> k \<Longrightarrow> assoc_put k v xs = xs @ [(k, v)]"
  by (induction xs) auto

abbreviation env_key :: "u8 list \<Rightarrow> u8 list" where "env_key name \<equiv> take 64 (c_text name)"
abbreviation env_val :: "u8 list \<Rightarrow> u8 list" where "env_val val \<equiv> take 256 (c_text val)"

lemma env_list_nth:
  "i < env_count s \<Longrightarrow> env_count s \<le> length (env_table s) \<Longrightarrow>
   env_list s ! i = (c_text (ename (env_table s ! i)), c_text (evalue (env_table s ! i)))"
  by (simp add: env_list_def)

lemma length_env_list: "shell_ok s \<Longrightarrow> length (env_list s) = env_count s"
  by (simp add: env_list_def shell_ok_def)

lemma env_table_update:
  assumes "shell_ok s" "index < 50" "n \<le> 50"
  shows "shell_ok (s\<lparr>env_count := n, env_table := (env_table s)[index :=
     (env_table s ! index)\<lparr>ename := copy_from 0 64 name (ename (env_table s ! index)),
        evalue := copy_from 0 256 val (evalue (env_table s ! index))\<rparr>]\<rparr>)"
proof -
  let ?e = "env_table s ! index"
  have "?e \<in> set (env_table s)" using assms by (simp add: shell_ok_def)
  then have "length (ename ?e) = 64 \<and> length (evalue ?e) = 256" using assms(1) by (simp add: shell_ok_def)
  then show ?thesis using assms
    by (auto simp: shell_ok_def length_copy_name dest!: set_update_subset_insert [THEN subsetD])
qed

lemma set_env_list:
  assumes "shell_ok s"
  shows "shell_ok (set_env name val s)"
    and "env_list (set_env name val s) =
      (if env_key name \<in> fst ` set (env_list s) \<or> env_count s < 50
       then assoc_put (env_key name) (env_val val) (env_list s) else env_list s)"
proof -
  let ?P = "\<lambda>i. match_from 0 (ename (env_table s ! i)) name"
  have n: "env_count s \<le> 50" "length (env_table s) = 50" "env_vars s \<noteq> 0" using assms by (simp_all add: shell_ok_def)
  have len: "length (ename (env_table s ! i)) = 64" "length (evalue (env_table s ! i)) = 256" if "i < 50" for i
    using that assms n(2) by (simp_all add: shell_ok_def)
  have P: "?P i \<longleftrightarrow> fst (env_list s ! i) = env_key name" if "i < env_count s" for i
    using that n len by (simp add: match_name env_list_nth)
  have l: "length (env_list s) = env_count s" using assms by (rule length_env_list)
  have "shell_ok (set_env name val s) \<and> env_list (set_env name val s) =
      (if env_key name \<in> fst ` set (env_list s) \<or> env_count s < 50
       then assoc_put (env_key name) (env_val val) (env_list s) else env_list s)"
  proof (cases "find ?P [0..<env_count s]")
    case (Some i)
    from find_index_unique [OF this] have i: "i < env_count s" "?P i" "\<forall>j < i. \<not> ?P j" by simp_all
    have key: "fst (env_list s ! i) = env_key name" "\<forall>j < i. fst (env_list s ! j) \<noteq> env_key name"
      using P i by auto
    have s': "set_env name val s = s\<lparr>env_count := env_count s, env_table := (env_table s)[i :=
     (env_table s ! i)\<lparr>ename := copy_from 0 64 name (ename (env_table s ! i)),
        evalue := copy_from 0 256 val (evalue (env_table s ! i))\<rparr>]\<rparr>"
      using Some i n by (simp add: set_env_def Let_def MAX_ENV_VARS_def)
    have "env_list (set_env name val s) = (env_list s)[i := (env_key name, env_val val)]"
      using i n len by (simp add: s' env_list_def take_update_swap map_update copy_name)
    also have "\<dots> = assoc_put (env_key name) (env_val val) (env_list s)"
      using key i(1) l by (simp add: assoc_put_found)
    finally have "env_list (set_env name val s) = assoc_put (env_key name) (env_val val) (env_list s)" .
    moreover have "env_key name \<in> fst ` set (env_list s)" using key(1) i(1) l by (metis image_eqI nth_mem)
    moreover have "shell_ok (set_env name val s)" unfolding s' using i(1) n by (intro env_table_update assms) simp_all
    ultimately show ?thesis by simp
  next
    case None
    then have abs: "env_key name \<notin> fst ` set (env_list s)"
      using P l by (fastforce simp: find_None_iff in_set_conv_nth)
    show ?thesis
    proof (cases "env_count s < 50")
      case True
      let ?i = "env_count s"
      have s': "set_env name val s = s\<lparr>env_count := env_count s + 1, env_table := (env_table s)[?i :=
     (env_table s ! ?i)\<lparr>ename := copy_from 0 64 name (ename (env_table s ! ?i)),
        evalue := copy_from 0 256 val (evalue (env_table s ! ?i))\<rparr>]\<rparr>"
        using None True n by (simp add: set_env_def Let_def MAX_ENV_VARS_def)
      have "env_list (set_env name val s) = env_list s @ [(env_key name, env_val val)]"
        using True n len [of ?i] by (simp add: s' env_list_def take_Suc_conv_app_nth copy_name)
      also have "\<dots> = assoc_put (env_key name) (env_val val) (env_list s)"
        using abs by (subst assoc_put_absent) force+
      finally have "env_list (set_env name val s) = assoc_put (env_key name) (env_val val) (env_list s)" .
      moreover have "shell_ok (set_env name val s)" unfolding s' using True by (intro env_table_update assms) simp_all
      ultimately show ?thesis using True by simp
    next
      case False
      then have "set_env name val s = s" using None n by (simp add: set_env_def Let_def MAX_ENV_VARS_def)
      then show ?thesis using abs False assms by simp
    qed
  qed
  then show "shell_ok (set_env name val s)" and "env_list (set_env name val s) =
      (if env_key name \<in> fst ` set (env_list s) \<or> env_count s < 50
       then assoc_put (env_key name) (env_val val) (env_list s) else env_list s)" by blast+
qed

text \<open>What the variables promise to the commands that use them.\<close>

locale variable_store =
  fixes ok :: "'s \<Rightarrow> bool"
    and lookup :: "u8 list \<Rightarrow> 's \<Rightarrow> u8 list option"
    and assign :: "u8 list \<Rightarrow> u8 list \<Rightarrow> 's \<Rightarrow> 's"
    and room :: "u8 list \<Rightarrow> 's \<Rightarrow> bool"
  assumes assign_ok: "ok s \<Longrightarrow> ok (assign n v s)"
    and lookup_assign: "ok s \<Longrightarrow> room n s \<Longrightarrow>
      lookup m (assign n v s) = (if c_text m = env_key n then Some (env_val v) else lookup m s)"
    and no_room: "ok s \<Longrightarrow> \<not> room n s \<Longrightarrow> lookup m (assign n v s) = lookup m s"
    and bound_room: "ok s \<Longrightarrow> lookup n s \<noteq> None \<Longrightarrow> length (c_text n) \<le> 64 \<Longrightarrow> room n s"
begin

lemma assign_own: "ok s \<Longrightarrow> room n s \<Longrightarrow> length (c_text n) \<le> 64 \<Longrightarrow> lookup n (assign n v s) = Some (env_val v)"
  by (simp add: lookup_assign)

lemma last_assignment_wins:
  assumes "ok s" "room n s" "length (c_text n) \<le> 64"
  shows "lookup n (assign n w (assign n v s)) = Some (env_val w)"
proof -
  have "room n (assign n v s)" using assms by (intro bound_room assign_ok) (simp_all add: lookup_assign)
  then show ?thesis using assms by (intro assign_own assign_ok) simp_all
qed

lemma assign_other: "ok s \<Longrightarrow> c_text m \<noteq> env_key n \<Longrightarrow> lookup m (assign n v s) = lookup m s"
  by (cases "room n s") (simp_all add: lookup_assign no_room)

end

definition env_room :: "u8 list \<Rightarrow> BashShell \<Rightarrow> bool" where
  "env_room name s \<longleftrightarrow> env_key name \<in> fst ` set (env_list s) \<or> env_count s < 50"

interpretation shell_env: variable_store shell_ok get_env set_env env_room
proof
  fix s n v m
  assume s: "shell_ok s"
  then show "shell_ok (set_env n v s)" by (rule set_env_list)
  note g = get_env_map_of [OF s] get_env_map_of [OF set_env_list(1) [OF s]] set_env_list(2) [OF s]
  show "get_env m (set_env n v s) = (if c_text m = env_key n then Some (env_val v) else get_env m s)" if "env_room n s"
    using that by (simp add: g env_room_def map_of_assoc_put)
  show "get_env m (set_env n v s) = get_env m s" if "\<not> env_room n s"
    using that by (simp add: g env_room_def)
  show "env_room n s" if "get_env n s \<noteq> None" "length (c_text n) \<le> 64"
  proof -
    have "c_text n \<in> fst ` set (env_list s)" using that(1) by (metis g(1) map_of_eq_None_iff)
    then show ?thesis using that(2) by (simp add: env_room_def)
  qed
qed

section \<open>Aliases\<close>

definition alias_list :: "BashShell \<Rightarrow> (u8 list \<times> u8 list) list" where
  "alias_list s = map (\<lambda>a. (c_text (aname a), c_text (acommand a))) (take (alias_count s) (alias_table s))"

lemma get_alias_map_of:
  assumes "shell_ok s"
  shows "get_alias m s = map_of (alias_list s) (c_text m)"
  using assms find_upt_map_of [of "alias_count s" "alias_table s" "\<lambda>e. c_text (acommand e)" "\<lambda>e. c_text (aname e)" "c_text m"]
  by (simp add: get_alias_def alias_list_def str_eq_def get_str_c_text shell_ok_def)

text \<open>Overwriting the front of an array and putting a terminator behind it.\<close>

lemma write_front:
  assumes "length arr = Suc k" "n = min (length src) k"
  shows "length ((take n src @ drop n arr)[n := 0]) = Suc k" "c_text ((take n src @ drop n arr)[n := 0]) = c_text (take k src)"
proof -
  show "length ((take n src @ drop n arr)[n := 0]) = Suc k" using assms by simp
  have "(take n src @ drop n arr)[n := 0] = take n src @ 0 # tl (drop n arr)"
    using assms by (intro list_update_mid) auto
  moreover have "take n src = take k src" using assms(2) by (simp add: min_def)
  ultimately show "c_text ((take n src @ drop n arr)[n := 0]) = c_text (take k src)" by (simp add: c_text_zero)
qed

lemma set_alias_list:
  assumes "shell_ok s"
  shows "shell_ok (set_alias name command s)"
    and "alias_list (set_alias name command s) =
      (if alias_count s < 20 then alias_list s @ [(c_text (take 31 name), c_text (take 255 command))] else alias_list s)"
proof -
  let ?i = "alias_count s"
  let ?a = "alias_table s ! ?i"
  have n: "?i \<le> 20" "length (alias_table s) = 20" "aliases s \<noteq> 0" using assms by (simp_all add: shell_ok_def)
  have len: "length (aname ?a) = Suc 31" "length (acommand ?a) = Suc 255" if "?i < 20"
    using that assms n(2) by (simp_all add: shell_ok_def)
  show "shell_ok (set_alias name command s)"
    using assms len write_front(1) [OF len(1) refl, of name] write_front(1) [OF len(2) refl, of command]
    by (cases "?i < 20")
      (auto simp: set_alias_def Let_def MAX_ALIASES_def shell_ok_def dest!: set_update_subset_insert [THEN subsetD])
  show "alias_list (set_alias name command s) =
      (if ?i < 20 then alias_list s @ [(c_text (take 31 name), c_text (take 255 command))] else alias_list s)"
    using n len write_front(2) [OF len(1) refl, of name] write_front(2) [OF len(2) refl, of command]
    by (cases "?i < 20")
      (simp_all add: set_alias_def Let_def MAX_ALIASES_def alias_list_def take_Suc_conv_app_nth)
qed

section \<open>History\<close>

definition history_list :: "BashShell \<Rightarrow> u8 list list" where
  "history_list s = map c_text (take (history_count s) (history_table s))"

lemma shift_loop:
  "k < length t \<Longrightarrow> fold (\<lambda>i t. t[i := t ! (i + 1)]) [0..<k] t = take k (tl t) @ drop k t"
proof (induction k)
  case (Suc k)
  then have "fold (\<lambda>i t. t[i := t ! (i + 1)]) [0..<Suc k] t = (take k (tl t) @ drop k t)[k := (take k (tl t) @ drop k t) ! Suc k]"
    by simp
  also have "(take k (tl t) @ drop k t) ! Suc k = tl t ! k" using Suc.prems by (auto simp: nth_append nth_tl min_def)
  also have "(take k (tl t) @ drop k t)[k := tl t ! k] = take k (tl t) @ tl t ! k # tl (drop k t)"
    using Suc.prems by (intro list_update_mid) auto
  also have "\<dots> = take (Suc k) (tl t) @ drop (Suc k) t"
    using Suc.prems by (simp add: take_Suc_conv_app_nth drop_Suc tl_drop)
  finally show ?case .
qed simp

lemma add_to_history_list:
  assumes "shell_ok s"
  shows "shell_ok (add_to_history c s)"
    and "history_list (add_to_history c s) =
      (if history_count s < 10 then history_list s else tl (history_list s)) @ [c_text (take 1023 c)]"
proof -
  have n: "history_count s \<le> 10" "length (history_table s) = 10" "history s \<noteq> 0"
    and e: "\<And>x. x \<in> set (history_table s) \<Longrightarrow> length x = Suc 1023" using assms by (simp_all add: shell_ok_def)
  have w: "length (write_entry c x) = 1024 \<and> c_text (write_entry c x) = c_text (take 1023 c)" if "length x = 1024" for x
    using write_front [of x 1023 _ c] that by (auto simp: write_entry_def MAX_CMD_LEN_def Let_def)
  let ?c = "history_count s" and ?t = "history_table s"
  have "shell_ok (add_to_history c s) \<and> history_list (add_to_history c s) =
      (if ?c < 10 then history_list s else tl (history_list s)) @ [c_text (take 1023 c)]"
  proof (cases "?c < 10")
    case True
    then have "length (?t ! ?c) = 1024" using n e by simp
    note w [OF this]
    then show ?thesis using True n assms
      by (auto simp: add_to_history_def Let_def MAX_HISTORY_def history_list_def take_Suc_conv_app_nth shell_ok_def
          dest!: set_update_subset_insert [THEN subsetD])
  next
    case False
    then have c: "?c = 10" using n by simp
    obtain y ys where t: "?t = y # ys" "length ys = 9" using n(2) by (cases ?t) auto
    let ?u = "ys @ drop 8 ys"
    have u: "fold (\<lambda>i t. t[i := t ! (i + 1)]) [0..<9] ?t = ?u" using shift_loop [of 9 ?t] t by simp
    have "?u ! 9 = ys ! 8" using t(2) by (simp add: nth_append)
    then have "length (?u ! 9) = 1024" using t e by simp
    note w [OF this]
    moreover have "?u[9 := x] = ys @ [x]" for x
      using t(2) list_update_mid [of ys 9 "drop 8 ys" x] by (simp add: tl_drop)
    then have "add_to_history c s = s\<lparr>history_table := ys @ [write_entry c (?u ! 9)], history_pos := 10\<rparr>"
      using c n u by (simp add: add_to_history_def Let_def MAX_HISTORY_def)
    ultimately show ?thesis using c t assms
      by (auto simp: history_list_def shell_ok_def)
  qed
  then show "shell_ok (add_to_history c s)" "history_list (add_to_history c s) =
      (if ?c < 10 then history_list s else tl (history_list s)) @ [c_text (take 1023 c)]" by blast+
qed

section \<open>Prompt and line editor\<close>

lemma arr_write_below_cut:
  "length acc \<le> lim \<Longrightarrow> lim \<le> n \<Longrightarrow>
   arr_write_below lim (length acc) ws (padded n acc) = (padded n (take lim (acc @ ws)), length (take lim (acc @ ws)))"
proof (induction ws arbitrary: acc)
  case (Cons w ws)
  show ?case
  proof (cases "length acc < lim")
    case True
    have "(padded n acc)[length acc := w] = padded n (acc @ [w])"
      using arr_set_padded [of acc n w] True Cons.prems(2) by (simp add: arr_set_Some)
    then show ?thesis using True Cons.IH [of "acc @ [w]"] Cons.prems(2) by simp
  next
    case False
    then have "length acc = lim" using Cons.prems by simp
    then show ?thesis using Cons.IH [of acc] Cons.prems by simp
  qed
qed simp

lemma update_prompt_text:
  assumes "shell_ok s"
  shows "\<exists>s'. update_prompt s = Some s' \<and> shell_ok s' \<and> s' = s\<lparr>prompt := prompt s'\<rparr> \<and>
    c_text (prompt s') = take 63 (bytes ''root@shadeos:'' @ c_text (cwd s) @ bytes ''$ '')"
proof -
  let ?a = "bytes ''root@shadeos:''" and ?b = "bytes ''$ ''" and ?c = "c_text (cwd s)"
  define t where "t = take 63 (?a @ ?c @ ?b)"
  have "arr_write_below 63 0 ?a (replicate 64 0) = (padded 64 ?a, length ?a)"
    using arr_write_below_padded [of "[]" ?a 63 64] by (simp add: padded_start)
  moreover have "arr_write_below 63 (length ?a) ?c (padded 64 ?a) = (padded 64 (take 63 (?a @ ?c)), length (take 63 (?a @ ?c)))"
    by (rule arr_write_below_cut) simp_all
  moreover have "arr_write_below 63 (length (take 63 (?a @ ?c))) ?b (padded 64 (take 63 (?a @ ?c))) = (padded 64 t, length t)"
    using arr_write_below_cut [of "take 63 (?a @ ?c)" 63 64 ?b] by (simp add: t_def take_append min_def)
  moreover have "arr_set (padded 64 t) (length t) 0 = Some (padded 64 t)"
    by (rule arr_set_padded_zero) (simp add: t_def)
  ultimately have u: "update_prompt s = Some (s\<lparr>prompt := padded 64 t\<rparr>)"
    by (simp add: update_prompt_def get_str_c_text)
  have "0 \<notin> set (?a @ ?c @ ?b)" using c_text_nonzero [of "cwd s"] by (simp add: bytes_def)
  then have "0 \<notin> set t" unfolding t_def by (meson in_set_takeD)
  then show ?thesis using u assms by (simp add: c_text_padded t_def shell_ok_def)
qed

text \<open>What the editor means: a stack of characters.\<close>

fun edit_line :: "nat \<Rightarrow> int list \<Rightarrow> u8 list \<Rightarrow> u8 list option" where
  "edit_line room [] line = None"
| "edit_line room (c # cs) line =
     (if c = -1 \<or> c = 0 then edit_line room cs line
      else let ch = of_int c :: u8 in
        if ch = 10 \<or> ch = 13 then Some line
        else if ch = 8 \<or> ch = 127 then edit_line room cs (butlast line)
        else if 32 \<le> ch \<and> ch < 127 \<and> length line < room then edit_line room cs (line @ [ch])
        else edit_line room cs line)"

lemma padded_pop: "acc \<noteq> [] \<Longrightarrow> length acc \<le> n \<Longrightarrow> (padded n acc)[length acc - 1 := 0] = padded n (butlast acc)"
  by (cases acc rule: rev_cases) (simp_all add: padded_def list_update_append Suc_diff_Suc flip: replicate_Suc)

lemma read_loop_edits:
  assumes "length line < n" "0 \<notin> set line"
  shows "map_option (\<lambda>r. get_str (fst r)) (read_loop keys (padded n line) (length line) out) = edit_line (n - 1) keys line"
  using assms
proof (induction keys arbitrary: line out)
  case (Cons c cs)
  let ?ch = "of_int c :: u8"
  consider (idle) "c = -1 \<or> c = 0" | (enter) "c \<noteq> -1" "c \<noteq> 0" "?ch = 10 \<or> ?ch = 13"
    | (erase) "c \<noteq> -1" "c \<noteq> 0" "\<not> (?ch = 10 \<or> ?ch = 13)" "?ch = 8 \<or> ?ch = 127"
    | (push) "c \<noteq> -1" "c \<noteq> 0" "\<not> (?ch = 10 \<or> ?ch = 13)" "\<not> (?ch = 8 \<or> ?ch = 127)" "32 \<le> ?ch \<and> ?ch < 127 \<and> length line < n - 1"
    | (skip) "c \<noteq> -1" "c \<noteq> 0" "\<not> (?ch = 10 \<or> ?ch = 13)" "\<not> (?ch = 8 \<or> ?ch = 127)" "\<not> (32 \<le> ?ch \<and> ?ch < 127 \<and> length line < n - 1)"
    by argo
  then show ?case
  proof cases
    case idle
    then show ?thesis using Cons by auto
  next
    case enter
    have "arr_set (padded n line) (length line) 0 = Some (padded n line)" using Cons.prems(1) by (rule arr_set_padded_zero)
    then show ?thesis using enter Cons.prems(2) by (auto simp: get_str_c_text c_text_padded)
  next
    case erase
    show ?thesis
    proof (cases "line = []")
      case True
      then show ?thesis using erase Cons.IH [of "[]"] Cons.prems by auto
    next
      case False
      have "arr_set (padded n line) (length line - 1) 0 = Some (padded n (butlast line))"
        using padded_pop [OF False] Cons.prems(1) by (simp add: arr_set_Some)
      moreover have "0 \<notin> set (butlast line)" using Cons.prems(2) in_set_butlastD by fastforce
      ultimately show ?thesis using erase False Cons.IH [of "butlast line"] Cons.prems(1) by auto
    qed
  next
    case push
    have "arr_set (padded n line) (length line) ?ch = Some (padded n (line @ [?ch]))"
      using Cons.prems(1) by (rule arr_set_padded)
    moreover have "?ch \<noteq> 0" using push(5) by auto
    ultimately show ?thesis using push Cons.IH [of "line @ [?ch]"] Cons.prems by (auto simp: Let_def)
  next
    case skip
    then show ?thesis using Cons by auto
  qed
qed simp

section \<open>Splitting a command line\<close>

text \<open>The buffer is never overrun, whatever the command line.\<close>

definition parse_ok :: "parse_state \<Rightarrow> bool" where
  "parse_ok p \<longleftrightarrow> length (args_buffer p) = 2048 \<and> buffer_pos p \<le> 1984 \<and> argc p \<le> 32"

lemma parse_loop_total: "parse_ok p \<Longrightarrow> \<exists>p'. parse_loop cs p = Some p' \<and> parse_ok p'"
proof (induction cs p rule: parse_loop.induct)
  case (2 ch rest p)
  show ?case
  proof (cases "argc p < MAX_ARGS \<and> buffer_pos p < length (args_buffer p) - 64")
    case True
    then have room: "buffer_pos p < 1984" "argc p < 32" using "2.prems" by (simp_all add: parse_ok_def MAX_ARGS_def)
    then have e: "\<exists>p'. end_argument p = Some p' \<and> parse_ok p'" and b: "\<exists>p'. push_byte ch p = Some p' \<and> parse_ok p'"
      and t: "parse_ok (toggle_quotes ch p)"
      using "2.prems" by (auto simp: end_argument_def push_byte_def toggle_quotes_def parse_ok_def arr_set_Some)
    obtain pe pb where pe: "end_argument p = Some pe" "parse_ok pe" and pb: "push_byte ch p = Some pb" "parse_ok pb"
      using e b by blast
    show ?thesis using True "2.IH"(1) [OF True _ pe(1)] "2.IH"(2) [OF True] "2.IH"(3) [OF True _ _ pb(1)] pe pb t by auto
  qed (use "2.prems" in auto)
qed simp

lemma parse_command_total:
  assumes "length buffer = 2048"
  shows "\<exists>n b. parse_command_heap cmd buffer = Some (n, b) \<and> n \<le> 32 \<and> length b = 2048"
proof -
  let ?p = "\<lparr>argc = 0, arg_start = 0, in_quotes = False, quote_char = 0, buffer_pos = 0, args_buffer = buffer\<rparr>"
  have "parse_ok ?p" using assms by (simp add: parse_ok_def)
  then obtain p where p: "parse_loop (dropWhile is_blank cmd) ?p = Some p" "parse_ok p" using parse_loop_total by blast
  then show ?thesis
    by (cases "arg_start p < buffer_pos p \<and> argc p < MAX_ARGS")
      (auto simp: parse_command_heap_def parse_ok_def arr_set_Some MAX_ARGS_def)
qed

text \<open>A line of words, each bare or between double quotes, separated by single spaces.\<close>

type_synonym token = "bool \<times> u8 list"

fun render :: "token \<Rightarrow> u8 list" where
  "render (quoted, w) = (if quoted then 34 # w @ [34] else w)"

fun token_ok :: "token \<Rightarrow> bool" where
  "token_ok (quoted, w) \<longleftrightarrow> w \<noteq> [] \<and> (\<forall>b \<in> set w. b \<noteq> 0 \<and> b \<noteq> 34 \<and> b \<noteq> 39 \<and> (quoted \<or> \<not> is_blank b))"

fun join :: "token list \<Rightarrow> u8 list" where
  "join [] = []"
| "join [t] = render t"
| "join (t # u # ts) = render t @ 32 # join (u # ts)"

definition packed :: "u8 list list \<Rightarrow> u8 list" where
  "packed ws = concat (map (\<lambda>w. w @ [0]) ws)"

definition holds :: "u8 list \<Rightarrow> parse_state \<Rightarrow> bool" where
  "holds acc p \<longleftrightarrow> buffer_pos p = length acc \<and> take (length acc) (args_buffer p) = acc \<and> length (args_buffer p) = 2048"

lemma holds_set: "holds acc p \<Longrightarrow> length acc < 2048 \<Longrightarrow> take (Suc (length acc)) ((args_buffer p)[length acc := ch]) = acc @ [ch]"
  by (simp add: holds_def take_Suc_conv_app_nth)

lemma push_byte_holds:
  assumes "holds acc p" "length acc < 2048"
  shows "\<exists>p'. push_byte ch p = Some p' \<and> holds (acc @ [ch]) p' \<and> argc p' = argc p \<and> arg_start p' = arg_start p \<and>
    in_quotes p' = in_quotes p \<and> quote_char p' = quote_char p"
  using assms holds_set [OF assms, of ch] by (auto simp: push_byte_def holds_def arr_set_Some)

lemma parse_word:
  assumes "holds acc p" "argc p < 32" "length acc + length w \<le> 1984"
    and "\<forall>b \<in> set w. b \<noteq> 34 \<and> b \<noteq> 39 \<and> (in_quotes p \<or> \<not> is_blank b)"
  shows "\<exists>p'. parse_loop (w @ rest) p = parse_loop rest p' \<and> holds (acc @ w) p' \<and> argc p' = argc p \<and>
    arg_start p' = arg_start p \<and> in_quotes p' = in_quotes p \<and> quote_char p' = quote_char p"
  using assms
proof (induction w arbitrary: acc p)
  case (Cons b w)
  obtain p1 where p1: "push_byte b p = Some p1" "holds (acc @ [b]) p1" "argc p1 = argc p" "arg_start p1 = arg_start p"
    "in_quotes p1 = in_quotes p" "quote_char p1 = quote_char p"
    using push_byte_holds [OF Cons.prems(1), of b] Cons.prems(3) by auto
  have "parse_loop ((b # w) @ rest) p = parse_loop (w @ rest) p1"
    using Cons.prems p1 by (auto simp: holds_def MAX_ARGS_def)
  moreover obtain p2 where "parse_loop (w @ rest) p1 = parse_loop rest p2" "holds ((acc @ [b]) @ w) p2" "argc p2 = argc p1"
    "arg_start p2 = arg_start p1" "in_quotes p2 = in_quotes p1" "quote_char p2 = quote_char p1"
    using Cons.IH [OF p1(2)] Cons.prems p1 by auto
  ultimately show ?case using p1 by (intro exI [of _ p2]) simp
qed auto

lemma parse_token:
  assumes "holds acc p" "argc p < 32" "length acc + length w < 1984" "token_ok (q, w)" "\<not> in_quotes p"
  shows "\<exists>p'. parse_loop (render (q, w) @ rest) p = parse_loop rest p' \<and> holds (acc @ w) p' \<and> argc p' = argc p \<and>
    arg_start p' = arg_start p \<and> \<not> in_quotes p'"
proof (cases q)
  case False
  then show ?thesis using parse_word [of acc p w rest] assms by auto
next
  case True
  let ?p = "p\<lparr>in_quotes := True, quote_char := 34\<rparr>"
  have "parse_loop (render (q, w) @ rest) p = parse_loop (w @ 34 # rest) ?p"
    using assms True by (simp add: toggle_quotes_def holds_def MAX_ARGS_def is_blank_def)
  moreover have "holds acc ?p" using assms(1) by (simp add: holds_def)
  then obtain p' where p': "parse_loop (w @ 34 # rest) ?p = parse_loop (34 # rest) p'" "holds (acc @ w) p'" "argc p' = argc p"
    "arg_start p' = arg_start p" "in_quotes p'" "quote_char p' = 34"
    using parse_word [of acc ?p w "34 # rest"] assms by auto
  moreover have "parse_loop (34 # rest) p' = parse_loop rest (p'\<lparr>in_quotes := False\<rparr>)"
    using p' assms by (simp add: toggle_quotes_def holds_def MAX_ARGS_def)
  ultimately show ?thesis by (intro exI [of _ "p'\<lparr>in_quotes := False\<rparr>"]) (simp add: holds_def)
qed

lemma join_not_blank: "token_ok t \<Longrightarrow> dropWhile is_blank (join (t # ts)) = join (t # ts)"
proof -
  assume t: "token_ok t"
  obtain q w where qw: "t = (q, w)" by (cases t)
  have "\<exists>c cs. render t = c # cs \<and> \<not> is_blank c"
    using t qw by (cases q; cases w) (auto simp: is_blank_def)
  then obtain c cs where c: "render t = c # cs" "\<not> is_blank c" by blast
  then show ?thesis by (cases ts) simp_all
qed

lemma parse_tokens:
  assumes "holds acc p" "argc p + length (t # ts) \<le> 32" "length acc + length (packed (map snd (t # ts))) \<le> 1984"
    and "\<forall>u \<in> set (t # ts). token_ok u" "\<not> in_quotes p" "arg_start p = length acc"
  shows "\<exists>p' pre. parse_loop (join (t # ts)) p = Some p' \<and> holds pre p' \<and> pre @ [0] = acc @ packed (map snd (t # ts)) \<and>
    argc p' + 1 = argc p + length (t # ts) \<and> arg_start p' < buffer_pos p'"
  using assms
proof (induction ts arbitrary: t acc p)
  case Nil
  obtain q w where t: "t = (q, w)" by (cases t)
  obtain p' where "parse_loop (render (q, w) @ []) p = parse_loop [] p'" "holds (acc @ w) p'" "argc p' = argc p"
    "arg_start p' = arg_start p"
    using parse_token [OF Nil(1), of w q "[]"] Nil t by (auto simp: packed_def)
  then show ?case using Nil t by (intro exI [of _ p'] exI [of _ "acc @ w"]) (auto simp: packed_def holds_def)
next
  case (Cons u ts)
  obtain q w where t: "t = (q, w)" by (cases t)
  have w: "w \<noteq> []" using Cons.prems(4) t by simp
  obtain p1 where p1: "parse_loop (render (q, w) @ 32 # join (u # ts)) p = parse_loop (32 # join (u # ts)) p1"
    "holds (acc @ w) p1" "argc p1 = argc p" "arg_start p1 = arg_start p" "\<not> in_quotes p1"
    using parse_token [OF Cons.prems(1), of w q "32 # join (u # ts)"] Cons.prems t by (auto simp: packed_def)
  let ?p2 = "p1\<lparr>args_buffer := (args_buffer p1)[length (acc @ w) := 0], buffer_pos := length (acc @ w) + 1,
     argc := argc p1 + 1, arg_start := length (acc @ w) + 1\<rparr>"
  have room: "length (acc @ w) < 1984" using Cons.prems(3) t by (simp add: packed_def)
  have e: "end_argument p1 = Some ?p2"
    using p1 w room Cons.prems(6) by (simp add: end_argument_def holds_def arr_set_Some)
  have "parse_loop (32 # join (u # ts)) p1 = parse_loop (dropWhile is_blank (join (u # ts))) ?p2"
    using p1 room e Cons.prems(2) by (simp add: holds_def MAX_ARGS_def is_blank_def)
  then have 1: "parse_loop (join (t # u # ts)) p = parse_loop (join (u # ts)) ?p2"
    using p1(1) t join_not_blank [of u ts] Cons.prems(4) by simp
  have "holds (acc @ w @ [0]) ?p2" using holds_set [OF p1(2), of 0] p1(2) room by (simp add: holds_def)
  then obtain p' pre where "parse_loop (join (u # ts)) ?p2 = Some p'" "holds pre p'"
    "pre @ [0] = (acc @ w @ [0]) @ packed (map snd (u # ts))" "argc p' + 1 = argc ?p2 + length (u # ts)" "arg_start p' < buffer_pos p'"
    using Cons.IH [of "acc @ w @ [0]" ?p2 u] Cons.prems p1 t by (auto simp: packed_def)
  then show ?case using 1 p1(3) t by (intro exI [of _ p'] exI [of _ pre]) (simp add: packed_def)
qed

lemma skip_args_packed: "\<forall>w \<in> set ws. 0 \<notin> set w \<Longrightarrow> i \<le> length ws \<Longrightarrow> skip_args i (packed ws @ rest) = packed (drop i ws) @ rest"
proof (induction ws arbitrary: i)
  case (Cons w ws)
  have d: "dropWhile (\<lambda>b. b \<noteq> 0) (w @ 0 # xs) = 0 # xs" for xs
    using Cons.prems(1) by (subst dropWhile_append2) auto
  show ?case
  proof (cases i)
    case (Suc j)
    then show ?thesis using Cons d [of "packed ws @ rest"] by (simp add: packed_def)
  qed simp
qed (simp add: packed_def)

lemma get_arg_packed:
  assumes "\<forall>w \<in> set ws. 0 \<notin> set w" "i < length ws"
  shows "get_arg_heap (packed ws @ rest) i = ws ! i"
proof -
  have "drop i ws = ws ! i # drop (Suc i) ws" using assms(2) by (simp add: Cons_nth_drop_Suc)
  moreover have "0 \<notin> set (ws ! i)" using assms by simp
  ultimately show ?thesis
    using skip_args_packed [OF assms(1), of i rest] assms(2) c_text_pad [of "ws ! i"]
    by (simp add: get_arg_heap_def packed_def c_text_def)
qed

lemma parse_join:
  assumes "length buffer = 2048" "ts \<noteq> []" "length ts \<le> 32" "length (packed (map snd ts)) \<le> 1984" "\<forall>t \<in> set ts. token_ok t"
  shows "\<exists>b. parse_command_heap (join ts) buffer = Some (length ts, b) \<and> length b = 2048 \<and>
    (\<forall>i < length ts. get_arg_heap b i = snd (ts ! i))"
proof -
  obtain t us where ts: "ts = t # us" using assms(2) by (cases ts) auto
  let ?p = "\<lparr>argc = 0, arg_start = 0, in_quotes = False, quote_char = 0, buffer_pos = 0, args_buffer = buffer\<rparr>"
  have "holds [] ?p" using assms(1) by (simp add: holds_def)
  then obtain p' pre where p': "parse_loop (join ts) ?p = Some p'" "holds pre p'" "pre @ [0] = packed (map snd ts)"
    "argc p' + 1 = length ts" "arg_start p' < buffer_pos p'"
    using parse_tokens [of "[]" ?p t us] assms ts by auto
  have lp: "length pre < 1984" using p'(3) assms(4) by (metis Suc_le_lessD length_append_singleton)
  have d: "dropWhile is_blank (join ts) = join ts" using join_not_blank [of t us] assms(5) ts by simp
  let ?b = "(args_buffer p')[length pre := 0]"
  have 1: "parse_command_heap (join ts) buffer = Some (length ts, ?b)"
    using p' d lp assms(3) by (simp add: parse_command_heap_def holds_def arr_set_Some MAX_ARGS_def)
  have "?b = packed (map snd ts) @ drop (Suc (length pre)) ?b"
    using holds_set [OF p'(2), of 0] lp p'(3) append_take_drop_id [of "Suc (length pre)" ?b] by simp
  moreover have "\<forall>w \<in> set (map snd ts). 0 \<notin> set w" using assms(5) by fastforce
  ultimately have "get_arg_heap ?b i = snd (ts ! i)" if "i < length ts" for i
    using get_arg_packed [of "map snd ts" i] that by (metis length_map nth_map)
  then show ?thesis using 1 p'(2) by (auto simp: holds_def)
qed

section \<open>Properties of the shell's state\<close>

lemma padded_nil: "padded n [] = replicate n 0"
  by (simp add: padded_def)

text \<open>C31: splitting a command line inverts joining the words with blanks. Up to 32 non-empty words, each plain or in
  double quotes, that need at most 1984 bytes with their terminators are returned one by one by
  \<open>get_arg_heap\<close>, whatever the buffer held before.\<close>

theorem parse_command_roundtrip:
  assumes "length buffer = 2048" "ts \<noteq> []" "length ts \<le> 32" "length (packed (map snd ts)) \<le> 1984"
    and "\<forall>t \<in> set ts. token_ok t"
  shows "\<exists>b. parse_command_heap (join ts) buffer = Some (length ts, b) \<and> length b = 2048 \<and>
    map (get_arg_heap b) [0..<length ts] = map snd ts"
proof -
  obtain b where "parse_command_heap (join ts) buffer = Some (length ts, b)" "length b = 2048"
      "\<forall>i < length ts. get_arg_heap b i = snd (ts ! i)"
    using parse_join [OF assms] by blast
  moreover from this(3) have "map (get_arg_heap b) [0..<length ts] = map snd ts"
    by (intro nth_equalityI) simp_all
  ultimately show ?thesis by blast
qed

theorem parse_command_roundtrip_witness:
  "\<exists>b. parse_command_heap (join [(False, bytes ''echo''), (True, bytes ''a b'')]) (replicate 2048 7) = Some (2, b) \<and>
     map (get_arg_heap b) [0..<2] = [bytes ''echo'', bytes ''a b'']"
proof -
  have "\<forall>t \<in> set [(False, bytes ''echo''), (True, bytes ''a b'')]. token_ok t"
    by (simp add: bytes_def of_char_def is_blank_def)
  from parse_command_roundtrip [OF _ _ _ _ this, of "replicate 2048 7"] show ?thesis
    by (auto simp: packed_def upt_rec)
qed

text \<open>C32: the line editor. For every sequence of keys the line that \<open>read_line\<close> returns is the one an
  abstract editor computes on a list of characters: printable characters are appended while fewer than
  1023 are there, backspace removes the last one, Enter ends the line, and without Enter no line is
  returned.\<close>

theorem read_line_edits:
  "map_option (\<lambda>r. get_str (fst r)) (read_line keys MAX_CMD_LEN) = edit_line 1023 keys []"
  using read_loop_edits [of "[]" MAX_CMD_LEN keys "[]"] by (simp add: read_line_def padded_nil MAX_CMD_LEN_def)

text \<open>Assigning a shell variable. While the table has room, looking up a name afterwards gives the new value,
  cut to 256 characters, exactly for the names that equal the first 64 characters of the assigned name,
  and every other name keeps its value; without room nothing changes.\<close>

theorem shell_variables:
  assumes "shell_ok s"
  shows "shell_ok (set_env n v s) \<and> get_env m (set_env n v s) =
      (if env_room n s \<and> c_text m = take 64 (c_text n) then Some (take 256 (c_text v)) else get_env m s)"
  using assms shell_env.lookup_assign [of s n m v] shell_env.no_room [of s n m v] set_env_list(1) [of s n v] by (cases "env_room n s") auto

definition demo_shell :: BashShell where
  "demo_shell = \<lparr>cwd = 47 # replicate 255 0,
     env_vars = 16, env_table = replicate 50 \<lparr>ename = replicate 64 0, evalue = replicate 256 0\<rparr>, env_count = 0,
     aliases = 32, alias_table = replicate 20 \<lparr>aname = replicate 32 0, acommand = replicate 256 0\<rparr>, alias_count = 0,
     history = 48, history_table = replicate 10 (replicate 1024 0), history_count = 0, history_pos = 0,
     last_exit_code = 0, prompt = replicate 64 0\<rparr>"

lemma demo_shell_ok: "shell_ok demo_shell"
  by (simp add: demo_shell_def shell_ok_def)

theorem shell_variables_witness:
  "get_env (bytes ''HOME'') (set_env (bytes ''HOME'') (bytes ''/root'') demo_shell) = Some (bytes ''/root'')"
proof -
  have "env_room (bytes ''HOME'') demo_shell" by (simp add: env_room_def demo_shell_def)
  moreover have "c_text (bytes ''HOME'') = bytes ''HOME''" "c_text (bytes ''/root'') = bytes ''/root''"
    by (simp_all add: bytes_def of_char_def c_text_all)
  ultimately show ?thesis using shell_variables [OF demo_shell_ok, of "bytes ''HOME''" "bytes ''/root''" "bytes ''HOME''"] by simp
qed

lemma length_history_list: "shell_ok s \<Longrightarrow> length (history_list s) = history_count s"
  by (simp add: history_list_def shell_ok_def)

lemma history_fold:
  assumes "shell_ok s" "history_list s = []" "\<forall>c \<in> set cs. 0 \<notin> set c"
  shows "shell_ok (fold add_to_history cs s) \<and>
    history_list (fold add_to_history cs s) = drop (length cs - 10) (map (take 1023) cs)"
  using assms(3)
proof (induction cs rule: rev_induct)
  case Nil
  then show ?case using assms by simp
next
  case (snoc c cs)
  let ?s = "fold add_to_history cs s"
  have ok: "shell_ok ?s" and h: "history_list ?s = drop (length cs - 10) (map (take 1023) cs)" using snoc by auto
  have "history_count ?s = min (length cs) 10" using length_history_list [OF ok] h by simp
  moreover have "c_text (take 1023 c) = take 1023 c" using snoc.prems take_nonzero by (intro c_text_all) auto
  moreover have "tl (map (take 1023) (drop k cs)) = map (take 1023) (drop (Suc k) cs)" for k
    by (metis drop_Suc drop_tl map_tl)
  moreover have "10 \<le> length cs \<Longrightarrow> Suc (length cs - 10) = length cs - 9" by simp
  ultimately show ?case using add_to_history_list [OF ok, of c] h
    by (cases "length cs < 10") (simp_all add: drop_map not_less)
qed

text \<open>The history keeps the last ten command lines, oldest first, each cut to 1023 characters.\<close>

theorem history_keeps_last_ten:
  assumes "shell_ok s" "history_list s = []" "\<forall>c \<in> set cs. 0 \<notin> set c"
  shows "history_list (fold add_to_history cs s) = drop (length cs - 10) (map (take 1023) cs)"
  using history_fold [OF assms] by blast

theorem history_keeps_last_ten_witness:
  "history_list (fold add_to_history (map bytes [''a'', ''b'', ''c'', ''d'', ''e'', ''f'', ''g'', ''h'', ''i'', ''j'', ''k'', ''l'']) demo_shell) =
     map bytes [''c'', ''d'', ''e'', ''f'', ''g'', ''h'', ''i'', ''j'', ''k'', ''l'']"
proof -
  have "history_list demo_shell = []" by (simp add: history_list_def demo_shell_def)
  then show ?thesis using history_keeps_last_ten [OF demo_shell_ok, of "map bytes [''a'', ''b'', ''c'', ''d'', ''e'', ''f'', ''g'', ''h'', ''i'', ''j'', ''k'', ''l'']"]
    by (simp add: bytes_def of_char_def)
qed

end
