(* ===== verification/Shell_World.thy ===== *)
theory Shell_World
  imports Shell_State Vfs_Tree Keyboard_Buffer
begin

text \<open>
  The file, variable and arithmetic commands of the shell (\<^verbatim>\<open>kernel-rs/src/bash.rs\<close>, lines 811 to 1201, 1289
  to 1367, 2331 to 2391, 2564 to 2649 and 3003 to 3021) over the state of the shell, the file system and the heap.

  A command takes the argument buffer and the number of arguments; \<open>None\<close> is a panic. A pointer to an
  array on the stack, such as a path, is the list of its bytes.
\<close>

section \<open>Definitions\<close>

record shell_world =
  bash :: BashShell
  w_vfs :: vfs
  w_heap :: heap
  w_auto_clear :: bool
  w_out :: "shell_event list"

type_synonym command = "u8 list \<Rightarrow> nat \<Rightarrow> shell_world \<Rightarrow> shell_world option"

definition emit :: "shell_event \<Rightarrow> shell_world \<Rightarrow> shell_world" where
  "emit ev w = w\<lparr>w_out := w_out w @ [ev]\<rparr>"

abbreviation say :: "u8 list \<Rightarrow> shell_world \<Rightarrow> shell_world" where "say t \<equiv> emit (print_str t)"
abbreviation say_text :: "string \<Rightarrow> shell_world \<Rightarrow> shell_world" where "say_text t \<equiv> say (bytes t)"
abbreviation say_line :: "string \<Rightarrow> shell_world \<Rightarrow> shell_world" where "say_line t \<equiv> say (bytes t @ [ch_newline])"

definition say_int :: "nat \<Rightarrow> shell_world \<Rightarrow> shell_world option" where
  "say_int n w = map_option (\<lambda>ev. emit ev w) (print_int n)"

definition exit_with :: "int \<Rightarrow> shell_world \<Rightarrow> shell_world" where
  "exit_with code w = w\<lparr>bash := (bash w)\<lparr>last_exit_code := code\<rparr>\<rparr>"

definition cmd_exit_heap :: command where
  "cmd_exit_heap args nargs w =
     (let exit_code =
        (if 1 < nargs then (case parse_int (get_arg_heap args 1) of Some n \<Rightarrow> n | None \<Rightarrow> 0)
         else last_exit_code (bash w))
      in Some (exit_with exit_code (say_line ''Goodbye!'' w)))"

definition cmd_test_http :: command where
  "cmd_test_http args nargs w = Some (exit_with 0 w)"

text \<open>The parent of a directory, as \<open>cd ..\<close> computes it.\<close>

definition parent_path :: "u8 list \<Rightarrow> u8 list \<Rightarrow> u8 list" where
  "parent_path cwd_str dest =
     (if 1 < length cwd_str then
        (case rposition (\<lambda>b. b = ch_slash) cwd_str of
           Some last_slash \<Rightarrow>
             if 0 < last_slash then copy_str dest (take last_slash cwd_str) else copy_str dest [ch_slash]
         | None \<Rightarrow> dest)
      else copy_str dest [ch_slash])"

definition cd_target :: "u8 list \<Rightarrow> u8 list \<Rightarrow> u8 list" where
  "cd_target path cwd_str =
     (let new_path_abs = replicate MAX_PATH_LEN 0 in
      if take 1 path = [ch_slash] then copy_str new_path_abs path
      else if path = bytes ''..'' then parent_path cwd_str new_path_abs
      else if path = bytes ''.'' then copy_str new_path_abs cwd_str
      else let p = copy_str new_path_abs cwd_str;
               p = (if cwd_str \<noteq> [ch_slash] then str_append p [ch_slash] else p)
           in str_append p path)"

definition cd_probe :: "u8 list \<Rightarrow> u8 list" where
  "cd_probe new_path_abs =
     (let p = copy_str (replicate MAX_PATH_LEN 0) (get_str new_path_abs);
          p = (if get_str new_path_abs \<noteq> [ch_slash] then str_append p [ch_slash] else p)
      in str_append p (bytes ''.__gemini_cd_check''))"

definition cmd_cd_heap :: command where
  "cmd_cd_heap args nargs w =
     (let path = (if 1 < nargs then get_arg_heap args 1
                  else case get_env (bytes ''HOME'') (bash w) of Some h \<Rightarrow> h | None \<Rightarrow> [ch_slash])
      in if path = [] then Some (exit_with 0 w)
         else let new_path_abs = cd_target path (get_str (cwd (bash w)));
                  probe = cd_probe new_path_abs;
                  (result, fs) = rust_vfs_create_file (Some probe) (w_vfs w)
              in if result = 0 then
                   let fs = snd (rust_vfs_unlink (Some probe) fs);
                       b = (bash w)\<lparr>cwd := copy_str (cwd (bash w)) (get_str new_path_abs)\<rparr>;
                       b = set_env (bytes ''PWD'') (get_str (cwd b)) b
                   in Some (exit_with 0 (w\<lparr>w_vfs := fs, bash := b\<rparr>))
                 else Some (exit_with 1 (say_line '': No such file or directory'' (say path (say_text ''cd: ''
                        (w\<lparr>w_vfs := fs\<rparr>))))))"

definition cmd_pwd_heap :: command where
  "cmd_pwd_heap args nargs w =
     (let cwd_str = get_str (cwd (bash w)) in
      if cwd_str = [] then
        Some (exit_with 0 (say [ch_slash, ch_newline] (w\<lparr>bash := (bash w)\<lparr>cwd := (cwd (bash w))[0 := ch_slash, 1 := 0]\<rparr>\<rparr>)))
      else Some (exit_with 0 (say [ch_newline] (say cwd_str w))))"

text \<open>The conversion to an absolute path that the file commands share.\<close>

definition abs_path :: "u8 list \<Rightarrow> u8 list \<Rightarrow> u8 list" where
  "abs_path path cwd_buf =
     (let buf = replicate MAX_PATH_LEN 0 in
      if take 1 path = [ch_slash] then copy_str buf path
      else let p = copy_str buf (get_str cwd_buf);
               p = (if get_str cwd_buf \<noteq> [ch_slash] then str_append p [ch_slash] else p)
           in str_append p path)"

definition cmd_ls_heap :: command where
  "cmd_ls_heap args nargs w =
     (let path = (if 1 < nargs then get_arg_heap args 1 else bytes ''.'');
          p = (if take 1 path \<noteq> [ch_slash] \<and> path = bytes ''.''
               then copy_str (replicate MAX_PATH_LEN 0) (get_str (cwd (bash w)))
               else abs_path path (cwd (bash w)));
          (result, fs) = rust_vfs_ls (Some p) (w_vfs w)
      in Some (exit_with (if result = 0 then 0 else 1) (w\<lparr>w_vfs := fs\<rparr>)))"

text \<open>A local array of \<open>n\<close> zero bytes as the buffer of a read, and the bytes it holds afterwards.\<close>

definition read_into :: "nat \<Rightarrow> u8 list \<Rightarrow> int \<Rightarrow> vfs \<Rightarrow> int \<times> u8 list" where
  "read_into n path max_len fs =
     (case rust_vfs_read (Some path) (Some (\<lambda>_. 0)) max_len fs of
        (r, Some b) \<Rightarrow> (r, map b [0..<n])
      | (r, None) \<Rightarrow> (r, replicate n 0))"

definition cmd_cat_heap :: command where
  "cmd_cat_heap args nargs w =
     (if nargs < 2 then Some (exit_with 1 (say_line ''Usage: cat <file>'' w))
      else let filename = get_arg_heap args 1;
               p = abs_path filename (cwd (bash w));
               (bytes_read, buffer) = read_into 4096 p 4095 (w_vfs w)
           in if 0 < bytes_read then do {
                buffer \<leftarrow> arr_set buffer (nat bytes_read) 0;
                Some (exit_with 0 (say (take (nat bytes_read + 1) buffer) w))
              }
              else Some (exit_with 1 (say_line '': No such file or directory'' (say filename (say_text ''cat: '' w)))))"

definition cmd_echo_heap :: command where
  "cmd_echo_heap args nargs w =
     (let w1 = fold (\<lambda>i w. say (get_arg_heap args i) (if 1 < i then say [32] w else w)) [1..<nargs] w
      in Some (exit_with 0 (say [ch_newline] w1)))"

definition cmd_mkdir_heap :: command where
  "cmd_mkdir_heap args nargs w =
     (if nargs < 2 then Some (exit_with 1 (say_line ''Usage: mkdir <directory>'' w))
      else let dirname = get_arg_heap args 1;
               (result, fs) = rust_vfs_mkdir (Some (abs_path dirname (cwd (bash w)))) (w_vfs w);
               w = w\<lparr>w_vfs := fs\<rparr>
           in if result = 0 then Some (exit_with 0 w)
              else Some (exit_with 1 (say [39, ch_newline] (say dirname
                     (say (bytes ''mkdir: cannot create directory '' @ [39]) w)))))"

definition cmd_touch_heap :: command where
  "cmd_touch_heap args nargs w =
     (if nargs < 2 then Some (exit_with 1 (say_line ''Usage: touch <file>'' w))
      else let filename = get_arg_heap args 1;
               (result, fs) = rust_vfs_create_file (Some (abs_path filename (cwd (bash w)))) (w_vfs w);
               w = w\<lparr>w_vfs := fs\<rparr>
           in if result = 0 then Some (exit_with 0 w)
              else Some (exit_with 1 (say [39, ch_newline] (say filename
                     (say (bytes ''touch: cannot touch '' @ [39]) w)))))"

definition cmd_rm_heap :: command where
  "cmd_rm_heap args nargs w =
     (if nargs < 2 then Some (exit_with 1 (say_line ''Usage: rm <file>'' w))
      else let filename = get_arg_heap args 1;
               (result, fs) = rust_vfs_unlink (Some (abs_path filename (cwd (bash w)))) (w_vfs w);
               w = w\<lparr>w_vfs := fs\<rparr>
           in if result = 0 then Some (exit_with 0 w)
              else Some (exit_with 1 (say (39 # bytes '': No such file or directory'' @ [ch_newline]) (say filename
                     (say (bytes ''rm: cannot remove '' @ [39]) w)))))"

definition cmd_export_heap :: command where
  "cmd_export_heap args nargs w =
     (if nargs < 2 then Some (exit_with 1 (say_line ''Usage: export VAR=value'' w))
      else let assignment = get_arg_heap args 1 in
        case find_byte assignment 61 of
          Some eq_pos \<Rightarrow>
            Some (exit_with 0 (w\<lparr>bash := set_env (take eq_pos assignment) (drop (eq_pos + 1) assignment) (bash w)\<rparr>))
        | None \<Rightarrow> Some (exit_with 1 (say_line ''export: invalid assignment'' w)))"

definition cmd_alias_heap :: command where
  "cmd_alias_heap args nargs w =
     (if nargs < 2 then
        let w1 = (if aliases (bash w) \<noteq> 0 then
                    fold (\<lambda>i w. let a = alias_table (bash w) ! i in
                            say [39, ch_newline] (say (get_str (acommand a)) (say [61, 39] (say (get_str (aname a))
                              (say_text ''alias '' w)))))
                      [0..<alias_count (bash w)] w
                  else w)
        in Some (exit_with 0 w1)
      else let assignment = get_arg_heap args 1 in
        case find_byte assignment 61 of
          Some eq_pos \<Rightarrow>
            Some (exit_with 0 (w\<lparr>bash := set_alias (take eq_pos assignment) (drop (eq_pos + 1) assignment) (bash w)\<rparr>))
        | None \<Rightarrow> Some (exit_with 1 (say_line ''alias: invalid assignment'' w)))"

definition cmd_kill_heap :: command where
  "cmd_kill_heap args nargs w =
     (if nargs < 2 then Some (exit_with 1 (say_line ''Usage: kill <pid>'' w))
      else case parse_int (get_arg_heap args 1) of
             Some _ \<Rightarrow> Some (exit_with 1 (say_line ''kill: process termination not implemented'' w))
           | None \<Rightarrow> Some (exit_with 1 (say_line ''kill: invalid PID'' w)))"

definition which_builtins :: "u8 list list" where
  "which_builtins = map bytes [''help'', ''exit'', ''cd'', ''pwd'', ''ls'', ''cat'', ''echo'', ''mkdir'', ''touch'', ''rm'',
     ''env'', ''export'', ''alias'', ''history'', ''clear'', ''date'', ''uptime'', ''ps'', ''kill'',
     ''which'', ''whoami'', ''uname'', ''free'', ''df'', ''mount'', ''umount'']"

definition cmd_which_heap :: command where
  "cmd_which_heap args nargs w =
     (if nargs < 2 then Some (exit_with 1 (say_line ''Usage: which <command>'' w))
      else let command = get_arg_heap args 1 in
        if \<exists>b \<in> set which_builtins. str_eq command b
        then Some (exit_with 0 (say_line '': shell builtin'' (say command w)))
        else Some (exit_with 1 (say_line '': not found'' (say command w))))"

definition mv_fail :: "u8 list \<Rightarrow> u8 list \<Rightarrow> string \<Rightarrow> shell_world \<Rightarrow> shell_world" where
  "mv_fail source dest reason w =
     exit_with 1 (say (39 # bytes reason @ [ch_newline]) (say dest (say (39 # bytes '' to '' @ [39]) (say source
       (say (bytes ''mv: cannot move '' @ [39]) w)))))"

definition mv_unlink :: "u8 list \<Rightarrow> u8 list \<Rightarrow> shell_world \<Rightarrow> shell_world" where
  "mv_unlink source source_path w =
     (let (result, fs) = rust_vfs_unlink (Some source_path) (w_vfs w);
          w = w\<lparr>w_vfs := fs\<rparr>
      in if result \<noteq> 0
         then exit_with 1 (say [39, ch_newline] (say source (say (bytes ''mv: failed to remove original file '' @ [39]) w)))
         else exit_with 0 w)"

definition cmd_mv_heap :: command where
  "cmd_mv_heap args nargs w =
     (if nargs < 3 then Some (exit_with 1 (say_line ''Usage: mv <source> <destination>'' w))
      else let source = get_arg_heap args 1;
               dest = get_arg_heap args 2;
               source_path = abs_path source (cwd (bash w));
               dest_path = abs_path dest (cwd (bash w));
               (bytes_read, buffer) = read_into 4096 source_path 4095 (w_vfs w)
           in if bytes_read \<le> 0
              then Some (exit_with 1 (say (39 # bytes '': No such file or directory'' @ [ch_newline]) (say source
                     (say (bytes ''mv: cannot stat '' @ [39]) w))))
              else do {
                let len = (of_int bytes_read :: u64);
                let data = (\<lambda>i. buffer ! i);
                (write_result, fs) \<leftarrow> rust_vfs_write (Some dest_path) (Some data) len (w_vfs w);
                let w = w\<lparr>w_vfs := fs\<rparr>;
                if write_result \<noteq> len then do {
                  let (created, fs) = rust_vfs_create_file (Some dest_path) (w_vfs w);
                  let w = w\<lparr>w_vfs := fs\<rparr>;
                  if created = 0 then do {
                    (write_result2, fs) \<leftarrow> rust_vfs_write (Some dest_path) (Some data) len (w_vfs w);
                    let w = w\<lparr>w_vfs := fs\<rparr>;
                    if write_result2 \<noteq> len then Some (mv_fail source dest '': Write failed'' w)
                    else Some (mv_unlink source source_path w)
                  }
                  else Some (mv_fail source dest '': Cannot create file'' w)
                }
                else Some (mv_unlink source source_path w)
              })"

definition cmd_umask_heap :: command where
  "cmd_umask_heap args nargs w =
     (if 1 < nargs then Some (exit_with 1 (say_line ''umask: not implemented'' w))
      else Some (exit_with 0 (say_line ''0022'' w)))"

definition cmd_test_heap :: command where
  "cmd_test_heap args nargs w =
     (if nargs < 2 then Some (exit_with 1 w)
      else Some (exit_with 1 (say_line ''test: not implemented'' w)))"

definition cmd_yes_heap :: command where
  "cmd_yes_heap args nargs w =
     (let t = (if 1 < nargs then get_arg_heap args 1 else bytes ''y'');
          w1 = fold (\<lambda>_ w. say [ch_newline] (say t w)) [0..<10] w
      in Some (exit_with 0 (say_line ''... (stopped after 10 iterations)'' w1)))"

definition arg_int :: "u8 list \<Rightarrow> nat \<Rightarrow> int \<Rightarrow> int" where
  "arg_int args i d = (case parse_int (get_arg_heap args i) of Some n \<Rightarrow> n | None \<Rightarrow> d)"

definition cmd_seq_heap :: command where
  "cmd_seq_heap args nargs w =
     (if nargs < 2 then Some (exit_with 1 (say_line ''Usage: seq <last> or seq <first> <last>'' w))
      else let (lo, hi) = (if nargs = 2 then (1, arg_int args 1 1) else (arg_int args 1 1, arg_int args 2 1))
           in do {
             w1 \<leftarrow> fold_opt (\<lambda>i w. map_option (say [ch_newline]) (say_int (unat (of_int i :: usize)) w)) [lo..hi] w;
             Some (exit_with 0 w1)
           })"

definition cmd_env :: command where
  "cmd_env args nargs w =
     (let w1 = (if env_vars (bash w) \<noteq> 0 then
                  fold (\<lambda>i w. let e = env_table (bash w) ! i in
                          say [ch_newline] (say (get_str (evalue e)) (say [61] (say (get_str (ename e)) w))))
                    [0..<env_count (bash w)] w
                else w)
      in Some (exit_with 0 w1))"

definition cmd_history :: command where
  "cmd_history args nargs w = do {
     w1 \<leftarrow> (if history (bash w) \<noteq> 0 then
              fold_opt (\<lambda>i w. do {
                  w \<leftarrow> say_int (i + 1) w;
                  let w = say_text ''  '' w;
                  Some (say [ch_newline] (say (get_str (history_table (bash w) ! i)) w))
                }) [0..<history_count (bash w)] w
            else Some w);
     Some (exit_with 0 w1)
   }"

definition cmd_clear :: command where
  "cmd_clear args nargs w = Some (exit_with 0 (emit Screen_clear (say (27 # bytes ''[2J'' @ 27 # bytes ''[H'') w)))"

definition cmd_vga_heap :: command where
  "cmd_vga_heap args nargs w =
     (if nargs < 2 then
        Some (exit_with 1 (say_line ''  status               - Show current VGA settings''
          (say_line ''  auto-clear on|off    - Enable/disable auto-clear on screen overflow''
          (say_line ''Commands:'' (say_line ''Usage: vga <command> [args]'' w)))))
      else let command = get_arg_heap args 1 in
        if str_eq command (bytes ''auto-clear'') then
          if nargs < 3 then Some (exit_with 1 (say_line ''Usage: vga auto-clear on|off'' w))
          else let arg = get_arg_heap args 2 in
            if str_eq arg (bytes ''on'')
            then Some (exit_with 0 (say_line ''Auto-clear enabled'' (w\<lparr>w_auto_clear := True\<rparr>)))
            else if str_eq arg (bytes ''off'')
            then Some (exit_with 0 (say_line ''Auto-clear disabled'' (w\<lparr>w_auto_clear := False\<rparr>)))
            else Some (exit_with 1 (say (bytes ''Invalid argument. Use '' @ [39] @ bytes ''on'' @ [39] @ bytes '' or '' @
                         [39] @ bytes ''off'' @ [39, ch_newline]) w))
        else if str_eq command (bytes ''status'') then
          Some (exit_with 0 (say_line (if w_auto_clear w then ''enabled'' else ''disabled'')
            (say_text ''  Auto-clear: '' (say_line ''VGA Status:'' w))))
        else Some (exit_with 1 (say [ch_newline] (say command (say_text ''Unknown command: '' w)))))"

definition cmd_test_args_heap :: command where
  "cmd_test_args_heap args nargs w = do {
     w \<leftarrow> say_int nargs (say_text ''test_args: argc='' w);
     let w = say [ch_newline] w;
     w \<leftarrow> fold_opt (\<lambda>i w. do {
         w \<leftarrow> say_int i (say_text ''  arg['' w);
         let w = say_text '']='' w;
         let arg = get_arg_heap args i;
         let w = say arg (say [39] w);
         w \<leftarrow> say_int (length arg) (say (39 # bytes '' (len='') w);
         Some (say (bytes '')'' @ [ch_newline]) w)
       }) [0..<nargs] w;
     Some (exit_with 0 w)
   }"

section \<open>Every command returns\<close>

text \<open>What a command does with the world when it returns: a well-formed shell stays well-formed, and the heap
  and the pointers to the tables are those of before.\<close>

abbreviation owned :: "shell_world \<Rightarrow> heap \<times> usize \<times> usize \<times> usize" where
  "owned w \<equiv> (w_heap w, env_vars (bash w), aliases (bash w), history (bash w))"

lemma table_pointers [simp]:
  "env_vars (set_env n v s) = env_vars s" "aliases (set_env n v s) = aliases s" "history (set_env n v s) = history s"
  "env_vars (set_alias n v s) = env_vars s" "aliases (set_alias n v s) = aliases s" "history (set_alias n v s) = history s"
  by (simp_all add: set_env_def set_alias_def Let_def)

definition keeps :: "shell_world \<Rightarrow> shell_world option \<Rightarrow> bool" where
  "keeps w r \<longleftrightarrow> (\<exists>w'. r = Some w' \<and> shell_ok (bash w') \<and> owned w' = owned w)"

definition command_ok :: "command \<Rightarrow> bool" where
  "command_ok f \<longleftrightarrow> (\<forall>args nargs w. length args = 2048 \<longrightarrow> nargs \<le> 32 \<longrightarrow> shell_ok (bash w) \<longrightarrow> keeps w (f args nargs w))"

lemma emit_sel [simp]:
  "bash (emit ev w) = bash w" "w_heap (emit ev w) = w_heap w" "w_vfs (emit ev w) = w_vfs w"
  "w_auto_clear (emit ev w) = w_auto_clear w" "w_out (emit ev w) = w_out w @ [ev]"
  by (simp_all add: emit_def)

lemma exit_with_sel [simp]:
  "bash (exit_with c w) = (bash w)\<lparr>last_exit_code := c\<rparr>" "w_heap (exit_with c w) = w_heap w"
  "w_vfs (exit_with c w) = w_vfs w" "w_auto_clear (exit_with c w) = w_auto_clear w" "w_out (exit_with c w) = w_out w"
  by (simp_all add: exit_with_def)

lemma shell_ok_exit_code [simp]: "shell_ok (s\<lparr>last_exit_code := c\<rparr>) = shell_ok s"
  by (simp add: shell_ok_def)

lemma say_int_exact: "n < 2 ^ 64 \<Longrightarrow> say_int n w = Some (emit (Print (dec_text n)) w)"
  by (simp add: say_int_def print_int_exact)

lemma keeps_Some [simp]: "keeps w (Some w') \<longleftrightarrow> shell_ok (bash w') \<and> owned w' = owned w"
  by (simp add: keeps_def)

lemma fold_inv: "P s \<Longrightarrow> (\<And>x s. x \<in> set xs \<Longrightarrow> P s \<Longrightarrow> P (f x s)) \<Longrightarrow> P (fold f xs s)"
  by (induction xs arbitrary: s) auto

lemma fold_keeps:
  assumes "\<And>x w. bash (f x w) = bash w" "\<And>x w. w_heap (f x w) = w_heap w"
  shows "bash (fold f xs w) = bash w" "w_heap (fold f xs w) = w_heap w"
  using assms by (induction xs arbitrary: w) simp_all

text \<open>The rules for a loop that prints, for one that may panic and for the steps of a command.\<close>

lemma keeps_bind: "keeps w r \<Longrightarrow> (\<And>w'. shell_ok (bash w') \<Longrightarrow> owned w' = owned w \<Longrightarrow> keeps w (f w')) \<Longrightarrow> keeps w (Option.bind r f)"
  by (auto simp: keeps_def)

lemma keeps_fold_opt:
  assumes "shell_ok (bash s)" "owned s = owned w"
    and "\<And>x w'. x \<in> set xs \<Longrightarrow> shell_ok (bash w') \<Longrightarrow> owned w' = owned w \<Longrightarrow> keeps w (f x w')"
  shows "keeps w (fold_opt f xs s)"
proof -
  have "\<exists>w'. fold_opt f xs s = Some w' \<and> (shell_ok (bash w') \<and> owned w' = owned w)"
    using assms by (intro fold_opt_inv) (auto simp: keeps_def)
  then show ?thesis by (simp add: keeps_def)
qed

lemma shell_ok_set_cwd:
  "shell_ok s \<Longrightarrow> length c = 256 \<Longrightarrow> 0 \<in> set c \<Longrightarrow> shell_ok (s\<lparr>cwd := c\<rparr>)"
  by (simp add: shell_ok_def)

lemma read_into_bound:
  "fst (read_into n p k fs) \<le> max 0 k" "length (snd (read_into n p k fs)) = n"
  by (auto simp: read_into_def rust_vfs_read_def read_file_def Let_def split: option.splits prod.splits FileType.splits)

lemma vfs_write_returns: "unat len < 2 ^ 63 \<Longrightarrow> \<exists>r fs'. rust_vfs_write p b len fs = Some (r, fs')"
  by (auto simp: rust_vfs_write_def write_file_def split: option.splits FileType.splits)

lemma command_ok_simple:
  "command_ok cmd_exit_heap" "command_ok cmd_test_http" "command_ok cmd_mkdir_heap" "command_ok cmd_touch_heap"
  "command_ok cmd_rm_heap" "command_ok cmd_ls_heap" "command_ok cmd_kill_heap" "command_ok cmd_which_heap"
  "command_ok cmd_umask_heap" "command_ok cmd_test_heap" "command_ok cmd_clear" "command_ok cmd_vga_heap"
  by (auto simp: command_ok_def Let_def case_prod_beta cmd_exit_heap_def cmd_test_http_def cmd_mkdir_heap_def
      cmd_touch_heap_def cmd_rm_heap_def cmd_ls_heap_def cmd_kill_heap_def cmd_which_heap_def cmd_umask_heap_def
      cmd_test_heap_def cmd_clear_def cmd_vga_heap_def split: option.splits)

lemma command_ok_tables: "command_ok cmd_export_heap" "command_ok cmd_alias_heap"
  by (auto simp: command_ok_def cmd_export_heap_def cmd_alias_heap_def Let_def fold_keeps set_env_list set_alias_list
      split: option.splits)

lemma command_ok_printing: "command_ok cmd_echo_heap" "command_ok cmd_yes_heap" "command_ok cmd_env"
  by (auto simp: command_ok_def cmd_echo_heap_def cmd_yes_heap_def cmd_env_def Let_def fold_keeps)

lemma command_ok_cwd: "command_ok cmd_pwd_heap" "command_ok cmd_cd_heap"
proof -
  have "0 \<in> set ((c :: u8 list)[0 := ch_slash, 1 := 0])" if "length c = 256" for c
    using that by (metis length_list_update nth_list_update_eq nth_mem one_less_numeral_iff order_less_trans semiring_norm(76) zero_less_one)
  then show "command_ok cmd_pwd_heap"
    by (auto simp: command_ok_def cmd_pwd_heap_def Let_def shell_ok_def)
  show "command_ok cmd_cd_heap"
    by (auto simp: command_ok_def cmd_cd_heap_def Let_def case_prod_beta shell_ok_set_cwd zero_in_copy_str
        set_env_list shell_ok_def [THEN iffD1] split: option.splits)
qed

lemma keeps_say_int: "n < 2 ^ 64 \<Longrightarrow> shell_ok (bash w') \<Longrightarrow> owned w' = owned w \<Longrightarrow> keeps w (say_int n w')"
  by (simp add: say_int_exact)

lemma keeps_if: "(b \<Longrightarrow> keeps w x) \<Longrightarrow> (\<not> b \<Longrightarrow> keeps w y) \<Longrightarrow> keeps w (if b then x else y)"
  by simp

lemma command_ok_cat: "command_ok cmd_cat_heap"
proof -
  have "\<exists>b. arr_set (snd (read_into 4096 p 4095 fs)) (nat (fst (read_into 4096 p 4095 fs))) 0 = Some b" for p fs
    using read_into_bound [of 4096 p 4095 fs] by (simp add: arr_set_def)
  then have k: "keeps w (Option.bind (arr_set (snd (read_into 4096 p 4095 fs)) (nat (fst (read_into 4096 p 4095 fs))) 0) g)"
    if "\<And>b. keeps w (g b)" for p fs w g
    using that by (metis Option.bind_lunit)
  show ?thesis
    unfolding command_ok_def cmd_cat_heap_def Let_def case_prod_beta
    by (simp add: k)
qed

lemma command_ok_seq: "command_ok cmd_seq_heap"
proof -
  have "unat (x :: usize) < 2 ^ 64" for x by (rule u64_bound)
  then show ?thesis
    unfolding command_ok_def cmd_seq_heap_def Let_def case_prod_beta
    by (auto intro!: keeps_bind keeps_fold_opt simp: say_int_exact)
qed

lemma command_ok_history: "command_ok cmd_history"
proof -
  have "keeps w (fold_opt (\<lambda>i w. do {
                  w \<leftarrow> say_int (i + 1) w;
                  let w = say_text ''  '' w;
                  Some (say [ch_newline] (say (get_str (history_table (bash w) ! i)) w))
                }) [0..<history_count (bash w)] w)" if "shell_ok (bash w)" for w
  proof (rule keeps_fold_opt)
    have "history_count (bash w) \<le> 10" using that by (simp add: shell_ok_def)
    then show "keeps w (do {
                  w \<leftarrow> say_int (i + 1) w';
                  let w = say_text ''  '' w;
                  Some (say [ch_newline] (say (get_str (history_table (bash w) ! i)) w))
                })" if "i \<in> set [0..<history_count (bash w)]" "shell_ok (bash w')" "owned w' = owned w" for i w'
      using that by (simp add: say_int_exact)
  qed (simp_all add: that)
  then show ?thesis
    unfolding command_ok_def cmd_history_def
    by (auto intro!: keeps_bind)
qed

lemma command_ok_test_args: "command_ok cmd_test_args_heap"
proof -
  have "length (skip_args n xs) \<le> length xs" for n xs
  proof (induction n xs rule: skip_args.induct)
    case (2 n rest)
    then show ?case using length_dropWhile_le [of "\<lambda>b. b \<noteq> 0" rest] by (cases "rest = []") auto
  qed simp
  then have l: "length (get_arg_heap xs n) \<le> length xs" for n xs
    unfolding get_arg_heap_def using length_takeWhile_le order_trans by blast
  have l: "say_int (length (get_arg_heap xs n)) w = Some (emit (Print (dec_text (length (get_arg_heap xs n)))) w)"
    if "length xs = 2048" for n xs w
    using l [of xs n] that by (intro say_int_exact) simp
  have n: "say_int i w = Some (emit (Print (dec_text i)) w)" if "i \<le> 32" for i w
    using that by (intro say_int_exact) simp
  show ?thesis
    unfolding command_ok_def cmd_test_args_heap_def Let_def
    by (auto intro!: keeps_bind keeps_fold_opt simp: l n)
qed

lemma command_ok_mv: "command_ok cmd_mv_heap"
proof -
  have le: "unat (of_int k :: u64) < 2 ^ 63" if "0 < k" "k \<le> 4095" for k :: int
  proof -
    have "of_int k = (of_nat (nat k) :: u64)" using that by simp
    then show ?thesis using that unat_of_nat_u64 [of "nat k"] by simp
  qed
  have w: "\<exists>r fs'. rust_vfs_write p b (of_int (fst (read_into 4096 q 4095 fs))) fs'' = Some (r, fs')"
    if "0 < fst (read_into 4096 q 4095 fs)" for p b q fs fs''
    using that read_into_bound(1) [of 4096 q 4095 fs] by (intro vfs_write_returns le) simp_all
  have u: "shell_ok (bash w) \<Longrightarrow> shell_ok (bash (mv_unlink s p w)) \<and> owned (mv_unlink s p w) = owned w"
    and f: "shell_ok (bash w) \<Longrightarrow> shell_ok (bash (mv_fail s d r w)) \<and> owned (mv_fail s d r w) = owned w" for s p d r w
    by (simp_all add: mv_unlink_def mv_fail_def case_prod_beta Let_def)
  have k: "keeps w (Option.bind x g)" if "\<exists>r fs'. x = Some (r, fs')" "\<And>r fs'. keeps w (g (r, fs'))"
    for x :: "(u64 \<times> vfs) option" and g w using that by auto
  show ?thesis
    unfolding command_ok_def
  proof (intro allI impI)
    fix args :: "u8 list" and nargs and w :: shell_world
    assume s: "shell_ok (bash w)"
    show "keeps w (cmd_mv_heap args nargs w)"
    proof (cases "nargs < 3 \<or> fst (read_into 4096 (abs_path (get_arg_heap args 1) (cwd (bash w))) 4095 (w_vfs w)) \<le> 0")
      case True
      with s show ?thesis by (auto simp: cmd_mv_heap_def Let_def case_prod_beta)
    next
      case False
      then have pos: "0 < fst (read_into 4096 (abs_path (get_arg_heap args 1) (cwd (bash w))) 4095 (w_vfs w))" by simp
      note w = w [OF pos]
      show ?thesis
        unfolding cmd_mv_heap_def Let_def case_prod_beta
        using False
        apply (simp only: de_Morgan_disj if_False)
        apply (rule k [OF w], unfold fst_conv snd_conv)
        apply (intro keeps_if)
          apply (rule k [OF w], unfold fst_conv snd_conv)
          apply (rule keeps_if)
        using s by (simp_all add: u f)
    qed
  qed
qed

section \<open>Moving files and changing the directory\<close>

lemma read_into_regular:
  assumes "vfs_map fs (get_path_components (Some p)) = Some (Regular, d)"
  shows "fst (read_into 4096 p 4095 fs) = int (min (length d) 4095)"
    and "i < min (length d) 4095 \<Longrightarrow> snd (read_into 4096 p 4095 fs) ! i = d ! i"
  using assms
  by (auto simp: read_into_def vfs_fs.view_read spec_read_def Let_def min_def)

lemma map_nth_upt: "(\<And>i. i < n \<Longrightarrow> f i = xs ! i) \<Longrightarrow> n \<le> length xs \<Longrightarrow> map f [0..<n] = take n xs"
  by (intro nth_equalityI) simp_all

lemma write_regular:
  assumes "vfs_map fs (get_path_components p) = Some (Regular, d')" "unat len < 2 ^ 63"
  obtains fs1 where "rust_vfs_write p (Some b) len fs = Some (len, fs1)"
    "vfs_map fs1 = (vfs_map fs)(get_path_components p \<mapsto> (Regular, map b [0..<unat len]))"
  using vfs_fs.view_write [of p "Some b" len fs] assms by (auto simp: spec_write_def)

lemma write_missing:
  assumes "vfs_map fs (get_path_components p) = None"
  obtains fs1 where "rust_vfs_write p (Some b) len fs = Some (0, fs1)" "vfs_map fs1 = vfs_map fs"
  using vfs_fs.view_write [of p "Some b" len fs] assms by (auto simp: spec_write_def)

lemma create_missing:
  assumes "get_path_components p \<noteq> []" "vfs_map fs (get_path_components p) = None"
    "vfs_map fs (butlast (get_path_components p)) \<noteq> None"
  obtains fs1 where "rust_vfs_create_file p fs = (0, fs1)"
    "vfs_map fs1 = (vfs_map fs)(get_path_components p \<mapsto> (Regular, []))"
  using vfs_fs.view_create [of p fs] assms by (cases "rust_vfs_create_file p fs") (auto simp: spec_create_def)

lemma unlink_present:
  assumes "get_path_components p \<noteq> []" "vfs_map fs (get_path_components p) \<noteq> None"
  obtains fs1 where "rust_vfs_unlink p fs = (0, fs1)"
    "vfs_map fs1 = (\<lambda>q. if prefix (get_path_components p) q then None else vfs_map fs q)"
  using vfs_fs.view_unlink [of p fs] assms by (cases "rust_vfs_unlink p fs") (auto simp: spec_delete_def)

lemma mv_unlink_present:
  assumes "get_path_components (Some p) \<noteq> []" "vfs_map (w_vfs w) (get_path_components (Some p)) \<noteq> None"
  shows "last_exit_code (bash (mv_unlink src p w)) = 0 \<and>
    vfs_map (w_vfs (mv_unlink src p w)) = (\<lambda>q. if prefix (get_path_components (Some p)) q then None else vfs_map (w_vfs w) q)"
proof -
  obtain fs1 where "rust_vfs_unlink (Some p) (w_vfs w) = (0, fs1)"
    "vfs_map fs1 = (\<lambda>q. if prefix (get_path_components (Some p)) q then None else vfs_map (w_vfs w) q)"
    using unlink_present [OF assms] .
  then show ?thesis by (simp add: mv_unlink_def)
qed

text \<open>C33: \<open>mv\<close> on a non-empty regular file. When the destination is a regular file, or can be created, the command
  succeeds; afterwards the destination holds the first 4095 bytes of the source, and the source and
  everything below it are gone, the destination included when it lies there. So a longer file is cut,
  and moving a file onto itself deletes it.\<close>

theorem mv_exact:
  fixes w :: shell_world and args :: "u8 list"
  defines "cs \<equiv> get_path_components (Some (abs_path (get_arg_heap args 1) (cwd (bash w))))"
    and "ds \<equiv> get_path_components (Some (abs_path (get_arg_heap args 2) (cwd (bash w))))"
    and "m \<equiv> vfs_map (w_vfs w)"
  assumes "3 \<le> nargs" "m cs = Some (Regular, d)" "d \<noteq> []" "cs \<noteq> []"
    and dest: "(\<exists>d'. m ds = Some (Regular, d')) \<or> ds \<noteq> [] \<and> m ds = None \<and> m (butlast ds) \<noteq> None"
  shows "\<exists>w'. cmd_mv_heap args nargs w = Some w' \<and> last_exit_code (bash w') = 0 \<and>
    vfs_map (w_vfs w') = (\<lambda>q. if prefix cs q then None else (m(ds \<mapsto> (Regular, take 4095 d))) q)"
proof -
  define sp where "sp = abs_path (get_arg_heap args 1) (cwd (bash w))"
  define dp where "dp = abs_path (get_arg_heap args 2) (cwd (bash w))"
  define k where "k = min (length d) 4095"
  define buf where "buf = snd (read_into 4096 sp 4095 (w_vfs w))"
  define len where "len = (of_nat k :: u64)"
  have src: "vfs_map (w_vfs w) (get_path_components (Some sp)) = Some (Regular, d)"
    using assms(5) by (simp add: sp_def cs_def m_def)
  have r: "read_into 4096 sp 4095 (w_vfs w) = (int k, buf)" and b: "\<And>i. i < k \<Longrightarrow> buf ! i = d ! i"
    using read_into_regular [OF src] by (auto simp: k_def buf_def intro: prod_eqI)
  have k: "0 < k" "unat len = k" "len \<noteq> 0"
  proof -
    show "0 < k" using assms(6) by (simp add: k_def)
    have "k < 2 ^ 64" by (simp add: k_def min_def)
    then show "unat len = k" by (simp add: len_def unat_of_nat_u64)
    with \<open>0 < k\<close> show "len \<noteq> 0" by auto
  qed
  then have l: "unat len < 2 ^ 63" by (simp add: k_def)
  have data: "map (\<lambda>i. buf ! i) [0..<unat len] = take 4095 d"
    using b k(2) map_nth_upt [of k "\<lambda>i. buf ! i" d] by (simp add: k_def min_def split: if_splits)
  have fin: "\<exists>w'. Some (mv_unlink src sp v) = Some w' \<and> last_exit_code (bash w') = 0 \<and>
      vfs_map (w_vfs w') = (\<lambda>q. if prefix cs q then None else (m(ds \<mapsto> (Regular, take 4095 d))) q)"
    if "vfs_map (w_vfs v) = m(ds \<mapsto> (Regular, take 4095 d))" for v src
    using mv_unlink_present [of sp v src] assms(5,7) that by (auto simp: sp_def cs_def)
  from dest consider d' where "m ds = Some (Regular, d')" | "ds \<noteq> []" "m ds = None" "m (butlast ds) \<noteq> None" by metis
  then show ?thesis
  proof cases
    case 1
    then obtain fs1 where w1: "rust_vfs_write (Some dp) (Some (\<lambda>i. buf ! i)) len (w_vfs w) = Some (len, fs1)"
      "vfs_map fs1 = m(ds \<mapsto> (Regular, take 4095 d))"
      using write_regular [of "w_vfs w" "Some dp" d' len "\<lambda>i. buf ! i"] l data by (auto simp: ds_def dp_def m_def)
    have "cmd_mv_heap args nargs w = Some (mv_unlink (get_arg_heap args 1) sp (w\<lparr>w_vfs := fs1\<rparr>))"
      using assms(4) r k w1(1) unfolding cmd_mv_heap_def Let_def sp_def [symmetric] dp_def [symmetric]
      by (simp add: len_def)
    then show ?thesis using fin [of "w\<lparr>w_vfs := fs1\<rparr>"] w1(2) by simp
  next
    case 2
    obtain fs1 where w1: "rust_vfs_write (Some dp) (Some (\<lambda>i. buf ! i)) len (w_vfs w) = Some (0, fs1)" "vfs_map fs1 = m"
      using write_missing [of "w_vfs w" "Some dp"] 2 by (auto simp: ds_def dp_def m_def)
    obtain fs2 where w2: "rust_vfs_create_file (Some dp) fs1 = (0, fs2)" "vfs_map fs2 = m(ds \<mapsto> (Regular, []))"
      using create_missing [of "Some dp" fs1] 2 w1(2) by (auto simp: ds_def dp_def)
    obtain fs3 where w3: "rust_vfs_write (Some dp) (Some (\<lambda>i. buf ! i)) len fs2 = Some (len, fs3)"
      "vfs_map fs3 = m(ds \<mapsto> (Regular, take 4095 d))"
      using write_regular [of fs2 "Some dp" "[]" len "\<lambda>i. buf ! i"] l data w2(2) by (auto simp: ds_def dp_def)
    have "cmd_mv_heap args nargs w = Some (mv_unlink (get_arg_heap args 1) sp (w\<lparr>w_vfs := fs3\<rparr>))"
      using assms(4) r k w1(1) w2(1) w3(1) unfolding cmd_mv_heap_def Let_def sp_def [symmetric] dp_def [symmetric]
      by (simp add: len_def)
    then show ?thesis using fin [of "w\<lparr>w_vfs := fs3\<rparr>"] w3(2) by simp
  qed
qed

text \<open>A path given to the file system counts up to its terminator.\<close>

lemma components_get_str: "get_path_components (Some (get_str p)) = get_path_components (Some p)"
  using c_text_nonzero [of p] by (simp add: get_path_components_def get_str_c_text c_text_def [symmetric] c_text_all)

lemma abs_path_absolute:
  assumes "take 1 p = [ch_slash]" "0 \<notin> set p" "length p \<le> 255"
  shows "get_path_components (Some (abs_path p c)) = get_path_components (Some p)"
proof -
  have "get_str (abs_path p c) = p" using assms by (simp add: abs_path_def get_str_copy_str MAX_PATH_LEN_def)
  then show ?thesis using components_get_str [of "abs_path p c"] by simp
qed

definition demo_world :: shell_world where
  "demo_world = \<lparr>bash = demo_shell,
     w_vfs = \<lparr>ROOT_FS = Some (FileEntry (bytes ''/'') Directory [] [(bytes ''a'', FileEntry (bytes ''a'') Regular [1, 2, 3] [])]),
       vfs_out = []\<rparr>,
     w_heap = boot_heap, w_auto_clear = False, w_out = []\<rparr>"

lemma demo_world_map:
  "vfs_map (w_vfs demo_world) [bytes ''a''] = Some (Regular, [1, 2, 3])" "vfs_map (w_vfs demo_world) [] \<noteq> None"
  by (simp_all add: demo_world_def vfs_map_def tree_map_def bt_get_def info_def)

lemma demo_args:
  assumes "args = packed [bytes ''mv'', bytes ''/a'', bytes ''/a''] @ rest"
  shows "get_path_components (Some (abs_path (get_arg_heap args 1) c)) = [bytes ''a'']"
    "get_path_components (Some (abs_path (get_arg_heap args 2) c)) = [bytes ''a'']"
proof -
  have z: "\<forall>w \<in> set [bytes ''mv'', bytes ''/a'', bytes ''/a'']. 0 \<notin> set w" by (simp add: bytes_def of_char_def)
  have "get_path_components (Some (abs_path (bytes ''/a'') c)) = [bytes ''a'']"
    by (subst abs_path_absolute) (simp_all add: bytes_def of_char_def get_path_components_def)
  then show "get_path_components (Some (abs_path (get_arg_heap args 1) c)) = [bytes ''a'']"
    "get_path_components (Some (abs_path (get_arg_heap args 2) c)) = [bytes ''a'']"
    using get_arg_packed [OF z, of 1 rest] get_arg_packed [OF z, of 2 rest] assms by simp_all
qed

theorem mv_exact_witness:
  "\<exists>w'. cmd_mv_heap (packed [bytes ''mv'', bytes ''/a'', bytes ''/a''] @ replicate 9 0) 3 demo_world = Some w' \<and>
     vfs_map (w_vfs w') [bytes ''a''] = None"
  using mv_exact [of 3 demo_world "packed [bytes ''mv'', bytes ''/a'', bytes ''/a''] @ replicate 9 0" "[1, 2, 3]"]
    demo_args [OF refl] demo_world_map by auto

lemma cd_target_shape:
  assumes "0 \<notin> set path" "0 \<notin> set c"
  shows "length (cd_target path c) = 256" "0 \<in> set (cd_target path c)"
  using assms
  by (auto simp: cd_target_def parent_path_def Let_def MAX_PATH_LEN_def zero_in_copy_str zero_in_str_append
      split: option.split)

abbreviation cd_check :: "u8 list" where "cd_check \<equiv> bytes ''.__gemini_cd_check''"

lemma cd_probe_text:
  assumes "length (get_str p) \<le> 236"
  shows "get_str (cd_probe p) = (if get_str p = [ch_slash] then [] else get_str p) @ ch_slash # cd_check"
proof -
  have z: "0 \<notin> set cd_check" "0 \<notin> set [ch_slash]" by (simp_all add: bytes_def of_char_def)
  have c: "get_str (copy_str (replicate 256 0) (get_str p)) = get_str p"
    using assms by (simp add: get_str_copy_str get_str_nonzero)
  have l: "length cd_check = 18" by simp
  from c have c': "get_str p = [ch_slash] \<Longrightarrow> get_str (copy_str (replicate 256 0) [ch_slash]) = [ch_slash]" by simp
  show ?thesis
    using assms l c'
    by (auto simp: cd_probe_def Let_def MAX_PATH_LEN_def get_str_append zero_in_copy_str zero_in_str_append z c
        simp del: length_bytes)
qed

lemma cd_check_components:
  "get_path_components (Some (cd_probe p)) = get_path_components (Some p) @ [cd_check]" if "length (get_str p) \<le> 236"
proof -
  have z: "0 \<notin> set cd_check" by (simp add: bytes_def of_char_def)
  have one: "get_path_components (Some cd_check) = [cd_check]" by (simp add: get_path_components_def bytes_def of_char_def)
  have nil: "get_path_components (Some []) = []" "get_path_components (Some [ch_slash]) = []"
    by (simp_all add: get_path_components_def)
  have "get_path_components (Some (get_str (cd_probe p))) = get_path_components (Some (get_str p)) @ [cd_check]"
    unfolding cd_probe_text [OF that]
    using get_path_components_slash [OF get_str_nonzero z, of p] get_path_components_slash [of "[]", OF _ z] one nil by auto
  then show ?thesis by (simp only: components_get_str)
qed

lemma create_then_unlink:
  assumes "get_path_components p = cs @ [x]" "vfs_map fs (cs @ [x]) = None"
  shows "if vfs_map fs cs = None then fst (rust_vfs_create_file p fs) = - 2 \<and> vfs_map (snd (rust_vfs_create_file p fs)) = vfs_map fs
    else fst (rust_vfs_create_file p fs) = 0 \<and>
      vfs_map (snd (rust_vfs_unlink p (snd (rust_vfs_create_file p fs)))) = vfs_map fs"
proof (cases "vfs_map fs cs = None")
  case True
  then show ?thesis using vfs_fs.view_create [of p fs] assms by (cases "rust_vfs_create_file p fs") (simp add: spec_create_def)
next
  case False
  then obtain fs1 where c: "rust_vfs_create_file p fs = (0, fs1)" "vfs_map fs1 = (vfs_map fs)(cs @ [x] \<mapsto> (Regular, []))"
    using create_missing [of p fs] assms by auto
  then obtain fs2 where u: "rust_vfs_unlink p fs1 = (0, fs2)"
    "vfs_map fs2 = (\<lambda>q. if prefix (cs @ [x]) q then None else vfs_map fs1 q)"
    using unlink_present [of p fs1] assms by auto
  have "vfs_map fs q = None" if "prefix (cs @ [x]) q" for q
    using that assms(2) vfs_map_prefix by (metis prefix_def)
  then have "vfs_map fs2 = vfs_map fs" using c(2) u(2) by (auto simp: fun_eq_iff)
  then show ?thesis using False c u by simp
qed

lemma cwd_set_env [simp]: "cwd (set_env n v s) = cwd s"
  by (simp add: set_env_def Let_def)



end
