(* ===== verification/Shell_Stubs.thy ===== *)
theory Shell_Stubs
  imports Shell_World
begin

text \<open>
  The commands that the shell recognises and answers with a fixed text (\<^verbatim>\<open>kernel-rs/src/bash.rs\<close>, lines 1203 to
  2522 and 2715 to 2988). Three shapes occur: a usage line when there are too few arguments and a fixed
  line otherwise, a fixed line whatever the arguments, and a fixed line without arguments. The
  arguments that such a command fetches are not used.
\<close>

section \<open>Definitions\<close>

definition usage_or_line :: "nat \<Rightarrow> string \<Rightarrow> string \<Rightarrow> command" where
  "usage_or_line min_args usage msg args nargs w =
     (if nargs < min_args then Some (exit_with 1 (say_line usage w)) else Some (exit_with 1 (say_line msg w)))"

definition fixed_line :: "string \<Rightarrow> int \<Rightarrow> command" where
  "fixed_line msg code args nargs w = Some (exit_with code (say_line msg w))"

definition cmd_umount_heap :: command where
  "cmd_umount_heap = usage_or_line 2 ''Usage: umount <mountpoint>'' ''umount: not implemented''"

definition cmd_grep_heap :: command where
  "cmd_grep_heap = usage_or_line 3 ''Usage: grep <pattern> <file>'' ''grep: not implemented''"

definition cmd_find_heap :: command where
  "cmd_find_heap = usage_or_line 2 ''Usage: find <path> [options]'' ''find: not implemented''"

definition cmd_wc_heap :: command where
  "cmd_wc_heap = usage_or_line 2 ''Usage: wc <file>'' ''wc: not implemented''"

definition cmd_head_heap :: command where
  "cmd_head_heap = usage_or_line 2 ''Usage: head <file>'' ''head: not implemented''"

definition cmd_tail_heap :: command where
  "cmd_tail_heap = usage_or_line 2 ''Usage: tail <file>'' ''tail: not implemented''"

definition cmd_cp_heap :: command where
  "cmd_cp_heap = usage_or_line 3 ''Usage: cp <source> <destination>'' ''cp: not implemented''"

definition cmd_chmod_heap :: command where
  "cmd_chmod_heap = usage_or_line 3 ''Usage: chmod <mode> <file>'' ''chmod: not implemented''"

definition cmd_chown_heap :: command where
  "cmd_chown_heap = usage_or_line 3 ''Usage: chown <owner> <file>'' ''chown: not implemented''"

definition cmd_ln_heap :: command where
  "cmd_ln_heap = usage_or_line 3 ''Usage: ln <target> <link>'' ''ln: not implemented''"

definition cmd_du_heap :: command where
  "cmd_du_heap = fixed_line ''du: not implemented'' 1"

definition cmd_sort_heap :: command where
  "cmd_sort_heap = usage_or_line 2 ''Usage: sort <file>'' ''sort: not implemented''"

definition cmd_uniq_heap :: command where
  "cmd_uniq_heap = usage_or_line 2 ''Usage: uniq <file>'' ''uniq: not implemented''"

definition cmd_cut_heap :: command where
  "cmd_cut_heap = usage_or_line 2 ''Usage: cut [options] <file>'' ''cut: not implemented''"

definition cmd_tr_heap :: command where
  "cmd_tr_heap = usage_or_line 3 ''Usage: tr <set1> <set2>'' ''tr: not implemented''"

definition cmd_sed_heap :: command where
  "cmd_sed_heap = usage_or_line 2 ''Usage: sed <script> [file]'' ''sed: not implemented''"

definition cmd_awk_heap :: command where
  "cmd_awk_heap = usage_or_line 2 ''Usage: awk <program> [file]'' ''awk: not implemented''"

definition cmd_tar_heap :: command where
  "cmd_tar_heap = usage_or_line 2 ''Usage: tar [options] <archive> [files...]'' ''tar: not implemented''"

definition cmd_gzip_heap :: command where
  "cmd_gzip_heap = usage_or_line 2 ''Usage: gzip <file>'' ''gzip: not implemented''"

definition cmd_gunzip_heap :: command where
  "cmd_gunzip_heap = usage_or_line 2 ''Usage: gunzip <file>'' ''gunzip: not implemented''"

definition cmd_wget_heap :: command where
  "cmd_wget_heap = usage_or_line 2 ''Usage: wget <url>'' ''wget: not implemented''"

definition cmd_curl_heap :: command where
  "cmd_curl_heap = fixed_line ''curl: not implemented, use httpget <ip> [path]'' 1"

definition cmd_ssh_heap :: command where
  "cmd_ssh_heap = usage_or_line 2 ''Usage: ssh <host>'' ''ssh: not implemented''"

definition cmd_scp_heap :: command where
  "cmd_scp_heap = usage_or_line 3 ''Usage: scp <source> <destination>'' ''scp: not implemented''"

definition cmd_rsync_heap :: command where
  "cmd_rsync_heap = usage_or_line 3 ''Usage: rsync <source> <destination>'' ''rsync: not implemented''"

definition cmd_strace_heap :: command where
  "cmd_strace_heap = usage_or_line 2 ''Usage: strace <command>'' ''strace: not implemented''"

definition cmd_gdb_heap :: command where
  "cmd_gdb_heap = usage_or_line 2 ''Usage: gdb <program>'' ''gdb: not implemented''"

definition cmd_valgrind_heap :: command where
  "cmd_valgrind_heap = usage_or_line 2 ''Usage: valgrind <program>'' ''valgrind: not implemented''"

definition cmd_make_heap :: command where
  "cmd_make_heap = fixed_line ''make: not implemented'' 1"

definition cmd_gcc_heap :: command where
  "cmd_gcc_heap = usage_or_line 2 ''Usage: gcc <source>'' ''gcc: not implemented''"

definition cmd_gpp_heap :: command where
  "cmd_gpp_heap = usage_or_line 2 ''Usage: g++ <source>'' ''g++: not implemented''"

definition cmd_ld_heap :: command where
  "cmd_ld_heap = usage_or_line 2 ''Usage: ld <object>'' ''ld: not implemented''"

definition cmd_ar_heap :: command where
  "cmd_ar_heap = usage_or_line 3 ''Usage: ar <options> <archive> <files...>'' ''ar: not implemented''"

definition cmd_nm_heap :: command where
  "cmd_nm_heap = usage_or_line 2 ''Usage: nm <object>'' ''nm: not implemented''"

definition cmd_objdump_heap :: command where
  "cmd_objdump_heap = usage_or_line 2 ''Usage: objdump <object>'' ''objdump: not implemented''"

definition cmd_readelf_heap :: command where
  "cmd_readelf_heap = usage_or_line 2 ''Usage: readelf <elf>'' ''readelf: not implemented''"

definition cmd_strings_heap :: command where
  "cmd_strings_heap = usage_or_line 2 ''Usage: strings <file>'' ''strings: not implemented''"

definition cmd_hexdump_heap :: command where
  "cmd_hexdump_heap = usage_or_line 2 ''Usage: hexdump <file>'' ''hexdump: not implemented''"

definition cmd_od_heap :: command where
  "cmd_od_heap = usage_or_line 2 ''Usage: od <file>'' ''od: not implemented''"

definition cmd_xxd_heap :: command where
  "cmd_xxd_heap = usage_or_line 2 ''Usage: xxd <file>'' ''xxd: not implemented''"

definition cmd_base64_heap :: command where
  "cmd_base64_heap = usage_or_line 2 ''Usage: base64 <file>'' ''base64: not implemented''"

definition cmd_md5sum_heap :: command where
  "cmd_md5sum_heap = usage_or_line 2 ''Usage: md5sum <file>'' ''md5sum: not implemented''"

definition cmd_sha1sum_heap :: command where
  "cmd_sha1sum_heap = usage_or_line 2 ''Usage: sha1sum <file>'' ''sha1sum: not implemented''"

definition cmd_sha256sum_heap :: command where
  "cmd_sha256sum_heap = usage_or_line 2 ''Usage: sha256sum <file>'' ''sha256sum: not implemented''"

definition cmd_openssl_heap :: command where
  "cmd_openssl_heap = usage_or_line 2 ''Usage: openssl <command> [args...]'' ''openssl: not implemented''"

definition cmd_gpg_heap :: command where
  "cmd_gpg_heap = usage_or_line 2 ''Usage: gpg [options] <file>'' ''gpg: not implemented''"

definition cmd_vim_heap :: command where
  "cmd_vim_heap = fixed_line ''vim: not implemented'' 1"

definition cmd_nano_heap :: command where
  "cmd_nano_heap = fixed_line ''nano: not implemented'' 1"

definition cmd_emacs_heap :: command where
  "cmd_emacs_heap = fixed_line ''emacs: not implemented'' 1"

definition cmd_less_heap :: command where
  "cmd_less_heap = usage_or_line 2 ''Usage: less <file>'' ''less: not implemented''"

definition cmd_more_heap :: command where
  "cmd_more_heap = usage_or_line 2 ''Usage: more <file>'' ''more: not implemented''"

definition cmd_man_heap :: command where
  "cmd_man_heap = usage_or_line 2 ''Usage: man <command>'' ''man: not implemented''"

definition cmd_info_heap :: command where
  "cmd_info_heap = usage_or_line 2 ''Usage: info <topic>'' ''info: not implemented''"

definition cmd_apropos_heap :: command where
  "cmd_apropos_heap = usage_or_line 2 ''Usage: apropos <keyword>'' ''apropos: not implemented''"

definition cmd_whatis_heap :: command where
  "cmd_whatis_heap = usage_or_line 2 ''Usage: whatis <command>'' ''whatis: not implemented''"

definition cmd_locate_heap :: command where
  "cmd_locate_heap = usage_or_line 2 ''Usage: locate <pattern>'' ''locate: not implemented''"

definition cmd_crontab_heap :: command where
  "cmd_crontab_heap = fixed_line ''crontab: not implemented'' 1"

definition cmd_at_heap :: command where
  "cmd_at_heap = usage_or_line 2 ''Usage: at <time>'' ''at: not implemented''"

definition cmd_batch_heap :: command where
  "cmd_batch_heap = fixed_line ''batch: not implemented'' 1"

definition cmd_nohup_heap :: command where
  "cmd_nohup_heap = usage_or_line 2 ''Usage: nohup <command>'' ''nohup: not implemented''"

definition cmd_screen_heap :: command where
  "cmd_screen_heap = fixed_line ''screen: not implemented'' 1"

definition cmd_tmux_heap :: command where
  "cmd_tmux_heap = fixed_line ''tmux: not implemented'' 1"

definition cmd_bg_heap :: command where
  "cmd_bg_heap = fixed_line ''bg: not implemented'' 1"

definition cmd_fg_heap :: command where
  "cmd_fg_heap = fixed_line ''fg: not implemented'' 1"

definition cmd_disown_heap :: command where
  "cmd_disown_heap = fixed_line ''disown: not implemented'' 1"

definition cmd_su_heap :: command where
  "cmd_su_heap = fixed_line ''su: not implemented'' 1"

definition cmd_sudo_heap :: command where
  "cmd_sudo_heap = usage_or_line 2 ''Usage: sudo <command>'' ''sudo: not implemented''"

definition cmd_passwd_heap :: command where
  "cmd_passwd_heap = fixed_line ''passwd: not implemented'' 1"

definition cmd_useradd_heap :: command where
  "cmd_useradd_heap = usage_or_line 2 ''Usage: useradd <username>'' ''useradd: not implemented''"

definition cmd_userdel_heap :: command where
  "cmd_userdel_heap = usage_or_line 2 ''Usage: userdel <username>'' ''userdel: not implemented''"

definition cmd_usermod_heap :: command where
  "cmd_usermod_heap = usage_or_line 2 ''Usage: usermod [options] <username>'' ''usermod: not implemented''"

definition cmd_groupadd_heap :: command where
  "cmd_groupadd_heap = usage_or_line 2 ''Usage: groupadd <groupname>'' ''groupadd: not implemented''"

definition cmd_groupdel_heap :: command where
  "cmd_groupdel_heap = usage_or_line 2 ''Usage: groupdel <groupname>'' ''groupdel: not implemented''"

definition cmd_groupmod_heap :: command where
  "cmd_groupmod_heap = usage_or_line 2 ''Usage: groupmod [options] <groupname>'' ''groupmod: not implemented''"

definition cmd_id_heap :: command where
  "cmd_id_heap = fixed_line ''uid=0(root) gid=0(root) groups=0(root)'' 0"

definition cmd_groups_heap :: command where
  "cmd_groups_heap = fixed_line ''root'' 0"

definition cmd_newgrp_heap :: command where
  "cmd_newgrp_heap = usage_or_line 2 ''Usage: newgrp <group>'' ''newgrp: not implemented''"

definition cmd_chgrp_heap :: command where
  "cmd_chgrp_heap = usage_or_line 3 ''Usage: chgrp <group> <file>'' ''chgrp: not implemented''"

definition cmd_expr_heap :: command where
  "cmd_expr_heap = usage_or_line 2 ''Usage: expr <expression>'' ''expr: not implemented''"

definition cmd_bc_heap :: command where
  "cmd_bc_heap = fixed_line ''bc: not implemented'' 1"

definition cmd_dc_heap :: command where
  "cmd_dc_heap = fixed_line ''dc: not implemented'' 1"

definition cmd_factor_heap :: command where
  "cmd_factor_heap = usage_or_line 2 ''Usage: factor <number>'' ''factor: not implemented''"

definition cmd_sleep_heap :: command where
  "cmd_sleep_heap = usage_or_line 2 ''Usage: sleep <seconds>'' ''sleep: not implemented''"

definition cmd_timeout_heap :: command where
  "cmd_timeout_heap = usage_or_line 3 ''Usage: timeout <duration> <command>'' ''timeout: not implemented''"

definition cmd_watch_heap :: command where
  "cmd_watch_heap = usage_or_line 2 ''Usage: watch <command>'' ''watch: not implemented''"

definition cmd_time_heap :: command where
  "cmd_time_heap = usage_or_line 2 ''Usage: time <command>'' ''time: not implemented''"

definition cmd_tee_heap :: command where
  "cmd_tee_heap = usage_or_line 2 ''Usage: tee <file>'' ''tee: not implemented''"

definition cmd_xargs_heap :: command where
  "cmd_xargs_heap = usage_or_line 2 ''Usage: xargs <command>'' ''xargs: not implemented''"

definition cmd_parallel_heap :: command where
  "cmd_parallel_heap = usage_or_line 2 ''Usage: parallel <command>'' ''parallel: not implemented''"

definition cmd_whoami :: command where
  "cmd_whoami = fixed_line ''root'' 0"

definition cmd_uname :: command where
  "cmd_uname = fixed_line ''ShadeOS'' 0"

definition cmd_mount :: command where
  "cmd_mount = fixed_line ''ramfs on / type ramfs (rw,relatime)'' 0"

definition cmd_netstat :: command where
  "cmd_netstat = fixed_line ''Active Internet connections (w/o servers)'' 0"

definition cmd_htop :: command where
  "cmd_htop = fixed_line ''htop: not implemented'' 1"

definition cmd_iotop :: command where
  "cmd_iotop = fixed_line ''iotop: not implemented'' 1"

definition cmd_lsof :: command where
  "cmd_lsof = fixed_line ''lsof: not implemented'' 1"

definition cmd_updatedb :: command where
  "cmd_updatedb = fixed_line ''updatedb: not implemented'' 1"

definition cmd_jobs :: command where
  "cmd_jobs = fixed_line ''No active jobs'' 0"

lemmas stub_defs = cmd_umount_heap_def cmd_grep_heap_def cmd_find_heap_def cmd_wc_heap_def cmd_head_heap_def
  cmd_tail_heap_def cmd_cp_heap_def cmd_chmod_heap_def cmd_chown_heap_def cmd_ln_heap_def cmd_du_heap_def
  cmd_sort_heap_def cmd_uniq_heap_def cmd_cut_heap_def cmd_tr_heap_def cmd_sed_heap_def cmd_awk_heap_def
  cmd_tar_heap_def cmd_gzip_heap_def cmd_gunzip_heap_def cmd_wget_heap_def cmd_curl_heap_def cmd_ssh_heap_def
  cmd_scp_heap_def cmd_rsync_heap_def cmd_strace_heap_def cmd_gdb_heap_def cmd_valgrind_heap_def
  cmd_make_heap_def cmd_gcc_heap_def cmd_gpp_heap_def cmd_ld_heap_def cmd_ar_heap_def cmd_nm_heap_def
  cmd_objdump_heap_def cmd_readelf_heap_def cmd_strings_heap_def cmd_hexdump_heap_def cmd_od_heap_def
  cmd_xxd_heap_def cmd_base64_heap_def cmd_md5sum_heap_def cmd_sha1sum_heap_def cmd_sha256sum_heap_def
  cmd_openssl_heap_def cmd_gpg_heap_def cmd_vim_heap_def cmd_nano_heap_def cmd_emacs_heap_def cmd_less_heap_def
  cmd_more_heap_def cmd_man_heap_def cmd_info_heap_def cmd_apropos_heap_def cmd_whatis_heap_def
  cmd_locate_heap_def cmd_crontab_heap_def cmd_at_heap_def cmd_batch_heap_def cmd_nohup_heap_def
  cmd_screen_heap_def cmd_tmux_heap_def cmd_bg_heap_def cmd_fg_heap_def cmd_disown_heap_def cmd_su_heap_def
  cmd_sudo_heap_def cmd_passwd_heap_def cmd_useradd_heap_def cmd_userdel_heap_def cmd_usermod_heap_def
  cmd_groupadd_heap_def cmd_groupdel_heap_def cmd_groupmod_heap_def cmd_id_heap_def cmd_groups_heap_def
  cmd_newgrp_heap_def cmd_chgrp_heap_def cmd_expr_heap_def cmd_bc_heap_def cmd_dc_heap_def cmd_factor_heap_def
  cmd_sleep_heap_def cmd_timeout_heap_def cmd_watch_heap_def cmd_time_heap_def cmd_tee_heap_def
  cmd_xargs_heap_def cmd_parallel_heap_def cmd_whoami_def cmd_uname_def cmd_mount_def cmd_netstat_def
  cmd_htop_def cmd_iotop_def cmd_lsof_def cmd_updatedb_def cmd_jobs_def

section \<open>What they have in common\<close>

text \<open>Such a command always returns, prints one line and changes nothing of the shell but the exit code.\<close>

definition answers :: "command \<Rightarrow> bool" where
  "answers f \<longleftrightarrow> (\<forall>args nargs w. \<exists>t code. f args nargs w = Some (exit_with code (say t w)))"

lemma answers_shapes: "answers (usage_or_line n u m)" "answers (fixed_line m c)"
  unfolding answers_def usage_or_line_def fixed_line_def by (auto split: if_splits)

lemma answers_stubs:
  "answers cmd_umount_heap" "answers cmd_grep_heap" "answers cmd_find_heap" "answers cmd_wc_heap" "answers cmd_head_heap"
  "answers cmd_tail_heap" "answers cmd_cp_heap" "answers cmd_chmod_heap" "answers cmd_chown_heap" "answers cmd_ln_heap"
  "answers cmd_du_heap" "answers cmd_sort_heap" "answers cmd_uniq_heap" "answers cmd_cut_heap" "answers cmd_tr_heap"
  "answers cmd_sed_heap" "answers cmd_awk_heap" "answers cmd_tar_heap" "answers cmd_gzip_heap" "answers cmd_gunzip_heap"
  "answers cmd_wget_heap" "answers cmd_curl_heap" "answers cmd_ssh_heap" "answers cmd_scp_heap" "answers cmd_rsync_heap"
  "answers cmd_strace_heap" "answers cmd_gdb_heap" "answers cmd_valgrind_heap" "answers cmd_make_heap" "answers cmd_gcc_heap"
  "answers cmd_gpp_heap" "answers cmd_ld_heap" "answers cmd_ar_heap" "answers cmd_nm_heap" "answers cmd_objdump_heap"
  "answers cmd_readelf_heap" "answers cmd_strings_heap" "answers cmd_hexdump_heap" "answers cmd_od_heap" "answers cmd_xxd_heap"
  "answers cmd_base64_heap" "answers cmd_md5sum_heap" "answers cmd_sha1sum_heap" "answers cmd_sha256sum_heap" "answers cmd_openssl_heap"
  "answers cmd_gpg_heap" "answers cmd_vim_heap" "answers cmd_nano_heap" "answers cmd_emacs_heap" "answers cmd_less_heap"
  "answers cmd_more_heap" "answers cmd_man_heap" "answers cmd_info_heap" "answers cmd_apropos_heap" "answers cmd_whatis_heap"
  "answers cmd_locate_heap" "answers cmd_crontab_heap" "answers cmd_at_heap" "answers cmd_batch_heap" "answers cmd_nohup_heap"
  "answers cmd_screen_heap" "answers cmd_tmux_heap" "answers cmd_bg_heap" "answers cmd_fg_heap" "answers cmd_disown_heap"
  "answers cmd_su_heap" "answers cmd_sudo_heap" "answers cmd_passwd_heap" "answers cmd_useradd_heap" "answers cmd_userdel_heap"
  "answers cmd_usermod_heap" "answers cmd_groupadd_heap" "answers cmd_groupdel_heap" "answers cmd_groupmod_heap" "answers cmd_id_heap"
  "answers cmd_groups_heap" "answers cmd_newgrp_heap" "answers cmd_chgrp_heap" "answers cmd_expr_heap" "answers cmd_bc_heap"
  "answers cmd_dc_heap" "answers cmd_factor_heap" "answers cmd_sleep_heap" "answers cmd_timeout_heap" "answers cmd_watch_heap"
  "answers cmd_time_heap" "answers cmd_tee_heap" "answers cmd_xargs_heap" "answers cmd_parallel_heap" "answers cmd_whoami"
  "answers cmd_uname" "answers cmd_mount" "answers cmd_netstat" "answers cmd_htop" "answers cmd_iotop"
  "answers cmd_lsof" "answers cmd_updatedb" "answers cmd_jobs"
  by (simp_all only: stub_defs answers_shapes)

lemma answers_command_ok:
  assumes "answers f"
  shows "command_ok f"
  unfolding command_ok_def
proof (intro allI impI)
  fix args nargs and w :: shell_world
  assume "shell_ok (bash w)"
  moreover obtain t code where "f args nargs w = Some (exit_with code (say t w))"
    using assms unfolding answers_def by blast
  ultimately show "keeps w (f args nargs w)" by simp
qed

end
