(* ===== verification/Shell_Info.thy ===== *)
theory Shell_Info
  imports Shell_World
begin

text \<open>
  The commands that report about the system and the network (\<^verbatim>\<open>kernel-rs/src/bash.rs\<close>, lines 1542 to 1688,
  2524 to 2561, 2651 to 2967, 2995 to 3001 and 3072 to 3111).

  The answers of the other parts of the kernel these commands call (the clock, the memory manager, the
  network configuration, the echo request, the sockets) are the record \<open>machine\<close>, an argument of the
  commands; what a socket call changes is the network's, and the call itself is recorded in the output.
  The load averages are floating-point numbers that the standard library prints with two digits, so
  the record has them as text.
\<close>

section \<open>Definitions\<close>

record machine =
  rtc_date :: "int \<times> int \<times> int \<times> int \<times> int \<times> int"
  timer_seconds :: u64
  timer_ticks :: u64
  load_text :: "u8 list \<times> u8 list \<times> u8 list"
  pmm_total :: u64
  pmm_free :: u64
  net_config :: "int \<times> u8 list \<times> u8 list \<times> u8 list \<times> u8 list"
  icmp_ping :: "u8 list \<Rightarrow> int \<Rightarrow> int"
  socket_id :: int
  connect_result :: "u8 list \<Rightarrow> int"
  send_result :: "u8 list \<Rightarrow> int"
  received :: "nat \<Rightarrow> u8 list"

text \<open>The forms \<^verbatim>\<open>{}\<close> and \<^verbatim>\<open>{:02}\<close> of the format macro.\<close>

definition fmt_int :: "int \<Rightarrow> u8 list" where
  "fmt_int i = (if i < 0 then 45 # dec_text (nat (- i)) else dec_text (nat i))"

definition fmt_02 :: "int \<Rightarrow> u8 list" where
  "fmt_02 i = (if 0 \<le> i \<and> i < 10 then ch_zero # dec_text (nat i) else fmt_int i)"

text \<open>
  The dotted-quad parser that \<open>ping\<close> and \<open>httpget\<close> both contain: the address, the number of the part, its
  value and whether it has a digit.
\<close>

fun ip_loop :: "u8 list \<Rightarrow> u8 list \<Rightarrow> nat \<Rightarrow> u32 \<Rightarrow> bool \<Rightarrow> (u8 list \<times> nat \<times> u32 \<times> bool) option" where
  "ip_loop [] ip part val saw_digit = Some (ip, part, val, saw_digit)"
| "ip_loop (b # host) ip part val saw_digit =
     (if is_digit b then
        let val' = val * 10 + ucast (b - ch_zero)
        in if 255 < val' then None else ip_loop host ip part val' True
      else if b = 46 then
        if 4 \<le> part \<or> \<not> saw_digit then None
        else ip_loop host (ip[part := ucast val]) (part + 1) 0 False
      else None)"

definition parse_ipv4 :: "u8 list \<Rightarrow> u8 list option" where
  "parse_ipv4 host = do {
     (ip, part, val, saw_digit) \<leftarrow> ip_loop host (replicate 4 0) 0 0 False;
     if part \<noteq> 3 \<or> \<not> saw_digit then None else Some (ip[3 := ucast val])
   }"

definition cmd_ping_heap :: "machine \<Rightarrow> command" where
  "cmd_ping_heap m args nargs w =
     (if nargs < 2 then Some (exit_with 1 (say_line ''Usage: ping <ipv4> [timeout_ms]'' w))
      else let host = get_arg_heap args 1 in
        case parse_ipv4 host of
          None \<Rightarrow> Some (exit_with 1 (say_line ''ping: invalid ip'' w))
        | Some ip \<Rightarrow>
            let timeout_ms = (if 2 < nargs then arg_int args 2 1000 else 1000);
                rtt = icmp_ping m ip timeout_ms
            in if 0 \<le> rtt then do {
                 w \<leftarrow> say_int (nat rtt) (say_text '': icmp_seq=0 ttl=64 time='' (say host (say_text ''64 bytes from '' w)));
                 Some (exit_with 0 (say_line '' ms'' w))
               }
               else Some (exit_with 1 (say_line ''Request timeout for icmp_seq 0'' w)))"

definition is_letter :: "u8 \<Rightarrow> bool" where
  "is_letter b \<longleftrightarrow> 97 \<le> b \<and> b \<le> 122 \<or> 65 \<le> b \<and> b \<le> 90"

definition http_request :: "u8 list \<Rightarrow> u8 list \<Rightarrow> u8 list" where
  "http_request path host =
     (let (req, pos) = arr_write_below 256 0 (bytes ''GET '') (replicate 256 0);
          (req, pos) = arr_write_below 256 pos (filter (\<lambda>b. b \<noteq> 0) path) req;
          (req, pos) = arr_write_below 256 pos (bytes '' HTTP/1.0'' @ [13, 10] @ bytes ''Host: '') req;
          (req, pos) = arr_write_below 256 pos (filter (\<lambda>b. b \<noteq> 0) host) req;
          (req, pos) = arr_write_below 256 pos ([13, 10] @ bytes ''Connection: close'' @ [13, 10, 13, 10]) req
      in take pos req)"

definition http_poll :: "machine \<Rightarrow> nat \<Rightarrow> shell_world \<Rightarrow> shell_world" where
  "http_poll m i w =
     (let w1 = emit Sock_recv (emit Network_poll w)
      in if received m i \<noteq> [] then say (received m i) w1 else emit Cpu_pause w1)"

definition cmd_httpget_heap :: "machine \<Rightarrow> command" where
  "cmd_httpget_heap m args nargs w =
     (if nargs < 2 then Some (exit_with 1 (say_line ''usage: httpget <ipv4|hostname> [path]'' w))
      else let host = get_arg_heap args 1;
               path = (if 2 < nargs then get_arg_heap args 2 else [ch_slash])
           in if \<exists>b \<in> set host. is_letter b then
                Some (exit_with 1 (fold say [bytes ''httpget: DNS resolution not yet implemented'' @ [10],
                  bytes ''Common public DNS servers to try:'' @ [10],
                  bytes ''  Google DNS:     8.8.8.8 or 8.8.4.4'' @ [10],
                  bytes ''  Cloudflare DNS: 1.1.1.1 or 1.0.0.1'' @ [10],
                  bytes ''  Quad9 DNS:      9.9.9.9'' @ [10],
                  [10] @ bytes ''For now, please use: httpget <ip_address> [path]'' @ [10],
                  bytes ''Example: httpget 142.250.185.46 /'' @ [10]] w))
              else case parse_ipv4 host of
                None \<Rightarrow> Some (exit_with 1 (say_line ''httpget: invalid ip'' w))
              | Some ip \<Rightarrow>
                  let w = emit Sock_socket w in
                  if socket_id m < 0 then Some (exit_with 1 (say_line ''httpget: socket failed'' w))
                  else let w = emit (Sock_connect ip 80) w in
                  if connect_result m ip \<noteq> 0
                  then Some (exit_with 1 (emit Sock_close (say_line ''httpget: connect failed'' w)))
                  else let req = http_request path host;
                           w = emit (Sock_send req) w in
                  if send_result m req \<le> 0
                  then Some (exit_with 1 (emit Sock_close (say_line ''httpget: send failed'' w)))
                  else let w = fold (http_poll m) [0..<50] w;
                           total = sum_list (map (\<lambda>i. length (received m i)) [0..<50])
                       in Some (exit_with (if 0 < total then 0 else 1) (emit Sock_close (say [ch_newline] w))))"

definition help_lines :: "u8 list list" where
  "help_lines = [
     bytes ''ShadeOS Bash-compatible Shell - Available Commands:'' @ [10] @ [10],
     bytes ''File Operations:'' @ [10],
     bytes ''  ls [path]          - List directory contents'' @ [10],
     bytes ''  cat <file>         - Display file contents'' @ [10],
     bytes ''  mkdir <dir>        - Create directory'' @ [10],
     bytes ''  touch <file>       - Create empty file'' @ [10],
     bytes ''  rm <file>          - Remove file'' @ [10],
     bytes ''  cp <src> <dst>     - Copy file (not implemented)'' @ [10],
     bytes ''  mv <src> <dst>     - Move file (not implemented)'' @ [10],
     [10] @ bytes ''Navigation:'' @ [10],
     bytes ''  cd [path]          - Change directory'' @ [10],
     bytes ''  pwd                - Print working directory'' @ [10],
     bytes ''...'' @ [10],
     [10] @ bytes ''System:'' @ [10],
     bytes ''  ps                 - List processes'' @ [10],
     bytes ''  kill <pid>         - Terminate process'' @ [10],
     bytes ''  free               - Show memory usage'' @ [10],
     bytes ''  df                 - Show disk usage'' @ [10],
     bytes ''  mount              - Show mounted filesystems'' @ [10],
     bytes ''  uname              - System information'' @ [10],
     [10] @ bytes ''Environment:'' @ [10],
     bytes ''  env                - Show environment variables'' @ [10],
     bytes ''  export VAR=val     - Set environment variable'' @ [10],
     bytes ''  alias name=cmd     - Create command alias'' @ [10],
     bytes ''  history            - Show command history'' @ [10],
     [10] @ bytes ''Utilities:'' @ [10],
     bytes ''  echo <text>        - Print text'' @ [10],
     bytes ''  clear              - Clear screen'' @ [10],
     bytes ''  date               - Show current date/time'' @ [10],
     bytes ''  uptime             - Show system uptime'' @ [10],
     bytes ''  which <cmd>        - Locate command'' @ [10],
     bytes ''  whoami             - Show current user'' @ [10],
     bytes ''  help               - Show this help'' @ [10],
     bytes ''  exit [code]        - Exit shell'' @ [10],
     [10] @ bytes ''Note: Many advanced commands are recognized but not yet implemented.'' @ [10]]"

definition cmd_help :: command where
  "cmd_help args nargs w = Some (exit_with 0 (fold say help_lines w))"

definition cmd_date :: "machine \<Rightarrow> command" where
  "cmd_date m args nargs w =
     (case rtc_date m of (year, month, day, hour, minute, second) \<Rightarrow>
        Some (exit_with 0 (say (fmt_int day @ bytes ''-'' @ fmt_int month @ bytes ''-'' @ fmt_int year @ bytes '' '' @
          fmt_02 hour @ bytes '':'' @ fmt_02 minute @ bytes '':'' @ fmt_02 second @ [10]) w)))"

definition uptime_text :: "nat \<Rightarrow> u8 list" where
  "uptime_text secs =
     (let days = secs div 86400;
          hours = (secs mod 86400) div 3600;
          minutes = (secs mod 3600) div 60;
          seconds = secs mod 60
      in if 0 < days then
           dec_text days @ bytes '' day'' @ (if 1 < days then bytes ''s'' else []) @ bytes '', '' @
           fmt_02 (int hours) @ bytes '':'' @ fmt_02 (int minutes)
         else if 0 < hours then fmt_02 (int hours) @ bytes '':'' @ fmt_02 (int minutes)
         else if 0 < minutes then dec_text minutes @ bytes '' min''
         else dec_text seconds @ bytes '' sec'')"

definition cmd_uptime :: "machine \<Rightarrow> command" where
  "cmd_uptime m args nargs w =
     (case load_text m of (load1, load5, load15) \<Rightarrow>
        Some (say (bytes '' up '' @ uptime_text (unat (timer_seconds m)) @ bytes '',  1 user,  load average: '' @
          load1 @ bytes '', '' @ load5 @ bytes '', '' @ load15 @ [10]) w))"

definition cmd_ps :: command where
  "cmd_ps args nargs w = Some (exit_with 0 (emit Process_list (say_line ''  PID TTY          TIME CMD'' w)))"

definition cmd_free :: "machine \<Rightarrow> command" where
  "cmd_free m args nargs w = do {
     let total_mem = pmm_total m;
     let free_mem = pmm_free m;
     let used_mem = total_mem - free_mem;
     let w = say_line ''              total        used        free      shared  buff/cache   available'' w;
     w \<leftarrow> say_int (unat (total_mem div 1024)) (say_text ''Mem:        '' w);
     w \<leftarrow> say_int (unat (used_mem div 1024)) (say_text ''      '' w);
     w \<leftarrow> say_int (unat (free_mem div 1024)) (say_text ''      '' w);
     w \<leftarrow> say_int (unat (free_mem div 1024)) (say_text ''           0           0      '' w);
     Some (exit_with 0 (say [ch_newline] w))
   }"

definition cmd_df :: command where
  "cmd_df args nargs w =
     Some (exit_with 0 (say_line ''ramfs             16384     0     16384   0% /''
       (say_line ''Filesystem     1K-blocks  Used Available Use% Mounted on'' w)))"

definition cmd_device :: command where
  "cmd_device args nargs w = Some (exit_with 0 (say_line ''will tell next time'' w))"

text \<open>The decimal digits of an address byte, as both printers of addresses write them.\<close>

definition octet :: "u8 \<Rightarrow> u8 list" where
  "octet num =
     (if 100 \<le> num then [ch_zero + num div 100, ch_zero + (num div 10) mod 10, ch_zero + num mod 10]
      else if 10 \<le> num then [ch_zero + num div 10, ch_zero + num mod 10]
      else [ch_zero + num])"

definition print_ip :: "u8 list \<Rightarrow> shell_world \<Rightarrow> shell_world" where
  "print_ip ip w =
     fold (\<lambda>i w. let w = say (octet (ip ! i) @ [0]) w in if i < 3 then say_text ''.'' w else w) [0..<4] w"

definition print_mac :: "u8 list \<Rightarrow> shell_world \<Rightarrow> shell_world" where
  "print_mac mac w =
     fold (\<lambda>i w. let byte = mac ! i;
                     hi = (if drop_bit 4 byte < 10 then ch_zero + drop_bit 4 byte else 97 + drop_bit 4 byte - 10);
                     lo = (if byte AND 0xF < 10 then ch_zero + (byte AND 0xF) else 97 + (byte AND 0xF) - 10)
                 in if i < 5 then say [hi, lo, 58, 0] w else say [hi, lo, 0] w) [0..<6] w"

definition print_ip_padded :: "u8 list \<Rightarrow> nat \<Rightarrow> shell_world \<Rightarrow> shell_world option" where
  "print_ip_padded ip width w = do {
     (buf, pos) \<leftarrow> fold_opt (\<lambda>i (buf, pos). arr_write pos (octet (ip ! i) @ (if i < 3 then bytes ''.'' else [])) buf)
                    [0..<4] (replicate 32 32, 0);
     (buf, pos) \<leftarrow> arr_write pos (replicate (width - pos) 32) buf;
     buf \<leftarrow> arr_set buf pos 0;
     Some (say (take (pos + 1) buf) w)
   }"

abbreviation configured :: "u8 list \<Rightarrow> bool" where
  "configured gateway \<equiv> gateway ! 0 \<noteq> 0 \<or> gateway ! 1 \<noteq> 0 \<or> gateway ! 2 \<noteq> 0 \<or> gateway ! 3 \<noteq> 0"

definition cmd_ifconfig :: "machine \<Rightarrow> command" where
  "cmd_ifconfig m args nargs w =
     (case net_config m of (result, ip, netmask, gateway, mac) \<Rightarrow>
        let w = (if result = 1 then
               let w = print_ip ip (say_text ''        inet ''
                         (say_line ''eth0: flags=4163<UP,BROADCAST,RUNNING,MULTICAST>  mtu 1500'' w));
                   w = say [ch_newline] (print_ip netmask (say_text ''  netmask '' w));
                   w = say_line ''  txqueuelen 1000  (Ethernet)'' (print_mac mac (say_text ''        ether '' w));
                   w = (if configured gateway
                        then say [ch_newline] (print_ip gateway (say_text ''        gateway '' w)) else w)
               in say [ch_newline] w
             else if result = 0 then say (bytes ''eth0: network not configured'' @ [10, 10]) w
             else say (bytes ''eth0: error reading network configuration'' @ [10, 10]) w)
        in Some (exit_with 0 (say_line ''        loop  txqueuelen 1000  (Local Loopback)''
             (say_line ''        inet 127.0.0.1  netmask 255.0.0.0''
             (say_line ''lo: flags=73<UP,LOOPBACK,RUNNING>  mtu 65536'' w)))))"

definition cmd_route :: "machine \<Rightarrow> command" where
  "cmd_route m args nargs w =
     (case net_config m of (result, ip, netmask, gateway, mac) \<Rightarrow> do {
        let w = say_line ''Destination     Gateway         Genmask         Flags Metric Ref    Use Iface''
                  (say_line ''Kernel IP routing table'' w);
        w \<leftarrow> (if result = 1 \<and> configured gateway then do {
            w \<leftarrow> print_ip_padded gateway 16 (say_text ''0.0.0.0         '' w);
            let w = say_line ''0.0.0.0         UG    0      0        0 eth0'' w;
            let network = map (\<lambda>i. ip ! i AND netmask ! i) [0..<4];
            w \<leftarrow> print_ip_padded network 16 w;
            w \<leftarrow> print_ip_padded netmask 16 (say_text ''0.0.0.0         '' w);
            Some (say_line ''U     0      0        0 eth0'' w)
          } else Some w);
        Some (exit_with 0 (say_line ''127.0.0.0       0.0.0.0         255.0.0.0       U     0      0        0 lo'' w))
      })"

definition nslookup_lines :: "u8 list list" where
  "nslookup_lines = [
     bytes ''nslookup: DNS resolution not yet implemented in ShadeOS'' @ [10],
     [10] @ bytes ''DNS feature is planned for a future release.'' @ [10],
     bytes ''For now, use IP addresses directly:'' @ [10],
     bytes ''  - Google DNS: 8.8.8.8, 8.8.4.4'' @ [10],
     bytes ''  - Cloudflare: 1.1.1.1, 1.0.0.1'' @ [10],
     bytes ''  - Quad9:      9.9.9.9'' @ [10],
     [10] @ bytes ''Example: ping 8.8.8.8'' @ [10],
     bytes ''Example: httpget 142.250.185.46 /'' @ [10]]"

definition cmd_nslookup_heap :: command where
  "cmd_nslookup_heap args nargs w =
     (if nargs < 2 then Some (exit_with 1 (say_line ''usage: nslookup <hostname>'' w))
      else Some (exit_with 1 (fold say nslookup_lines w)))"

text \<open>Minutes and seconds with a leading zero, as \<open>format_uptime\<close> prints them.\<close>

definition say_two :: "nat \<Rightarrow> shell_world \<Rightarrow> shell_world option" where
  "say_two n w = say_int n (if n < 10 then say_text ''0'' w else w)"

definition format_uptime :: "u64 \<Rightarrow> shell_world \<Rightarrow> shell_world option" where
  "format_uptime ticks w =
     (let seconds = unat ticks div 100;
          days = seconds div 86400;
          hours = (seconds mod 86400) div 3600;
          minutes = (seconds mod 3600) div 60;
          secs = seconds mod 60
      in if 0 < days then do {
           w \<leftarrow> say_int days (say_text ''up '' w);
           w \<leftarrow> say_int hours (say_text '' days, '' w);
           w \<leftarrow> say_two minutes (say_text '':'' w);
           say_two secs (say_text '':'' w)
         }
         else if 0 < hours then do {
           w \<leftarrow> say_int hours (say_text ''up '' w);
           w \<leftarrow> say_two minutes (say_text '':'' w);
           say_two secs (say_text '':'' w)
         }
         else if 0 < minutes then do {
           w \<leftarrow> say_int minutes (say_text ''up '' w);
           say_two secs (say_text '':'' w)
         }
         else map_option (say_text '' seconds'') (say_int secs (say_text ''up '' w)))"

definition cmd_top :: "machine \<Rightarrow> command" where
  "cmd_top m args nargs w = do {
     w \<leftarrow> format_uptime (timer_ticks m) (say_text ''top - '' w);
     Some (exit_with 0 (say_line '',  1 user,  load average: 0.00, 0.00, 0.00'' w))
   }"

definition cmd_true :: command where "cmd_true args nargs w = Some (exit_with 0 w)"

definition cmd_false :: command where "cmd_false args nargs w = Some (exit_with 1 w)"

section \<open>Every reporting command returns\<close>

text \<open>The echo request returns a 32-bit time.\<close>

definition machine_ok :: "machine \<Rightarrow> bool" where
  "machine_ok m \<longleftrightarrow> (\<forall>ip t. icmp_ping m ip t < 2 ^ 31)"

lemma command_ok_info:
  "command_ok cmd_help" "command_ok cmd_ps" "command_ok cmd_df" "command_ok cmd_device" "command_ok cmd_nslookup_heap"
  "command_ok cmd_true" "command_ok cmd_false" "command_ok (cmd_date m)" "command_ok (cmd_uptime m)"
  by (auto simp: command_ok_def cmd_help_def cmd_ps_def cmd_df_def cmd_device_def cmd_nslookup_heap_def cmd_true_def
      cmd_false_def cmd_date_def cmd_uptime_def fold_keeps split: prod.splits)

lemma print_ip_keeps [simp]: "bash (print_ip ip w) = bash w" "w_heap (print_ip ip w) = w_heap w"
  by (simp_all add: print_ip_def fold_keeps Let_def)

lemma print_mac_keeps [simp]: "bash (print_mac ip w) = bash w" "w_heap (print_mac ip w) = w_heap w"
  by (simp_all add: print_mac_def fold_keeps Let_def)

lemma command_ok_ifconfig: "command_ok (cmd_ifconfig m)"
  by (auto simp: command_ok_def cmd_ifconfig_def Let_def split: prod.splits)

lemma command_ok_free: "command_ok (cmd_free m)"
  using u64_bound by (auto simp: command_ok_def cmd_free_def Let_def say_int_exact)

lemma command_ok_top: "command_ok (cmd_top m)"
proof -
  have "keeps w (format_uptime t w')" if "shell_ok (bash w')" "owned w' = owned w" for t w w'
  proof -
    define N where "N = unat t div 100"
    have "N < 2 ^ 64" using u64_bound [of t] by (simp add: N_def)
    then have s: "say_int n v = Some (emit (Print (dec_text n)) v)" if "n \<le> N" for n v
      using that by (intro say_int_exact) simp
    have le: "N div a \<le> N" "N mod a \<le> N" "N mod a div b \<le> N" for a b
      using order_trans [OF div_le_dividend mod_less_eq_dividend] by simp_all
    from that show ?thesis
      unfolding format_uptime_def Let_def N_def [symmetric] by (simp add: say_two_def s le)
  qed
  then show ?thesis
    unfolding command_ok_def cmd_top_def by (auto intro!: keeps_bind)
qed

lemma length_octet: "length (octet n) \<le> 3"
  by (simp add: octet_def)

lemma octet_written:
  "length buf = 32 \<Longrightarrow> pos \<le> 12 \<Longrightarrow>
   \<exists>buf' pos'. arr_write pos (octet n @ (if b then bytes ''.'' else [])) buf = Some (buf', pos') \<and> length buf' = 32 \<and> pos' \<le> pos + 4"
  using length_octet [of n] by (subst arr_write_fits) (auto simp: bytes_def)

lemma print_ip_padded_keeps:
  assumes "shell_ok (bash w')" "owned w' = owned w"
  shows "keeps w (print_ip_padded ip 16 w')"
proof -
  define f where "f = (\<lambda>i (buf, pos). arr_write pos (octet (ip ! i) @ (if i < 3 then bytes ''.'' else [])) buf)"
  have f: "\<exists>buf' pos'. f i (buf, pos) = Some (buf', pos') \<and> length buf' = 32 \<and> pos' \<le> pos + 4"
    if "length buf = 32" "pos \<le> 12" for i buf pos
    using octet_written [OF that] by (simp add: f_def)
  obtain b1 p1 where 1: "f 0 (replicate 32 32, 0) = Some (b1, p1)" "length b1 = 32" "p1 \<le> 4"
    using f [of "replicate 32 32" 0 0] by auto
  obtain b2 p2 where 2: "f 1 (b1, p1) = Some (b2, p2)" "length b2 = 32" "p2 \<le> 8" using f [of b1 p1 1] 1 by auto
  obtain b3 p3 where 3: "f 2 (b2, p2) = Some (b3, p3)" "length b3 = 32" "p3 \<le> 12" using f [of b2 p2 2] 2 by auto
  obtain b4 p4 where 4: "f 3 (b3, p3) = Some (b4, p4)" "length b4 = 32" "p4 \<le> 16" using f [of b3 p3 3] 3 by auto
  have "fold_opt f [0..<4] (replicate 32 32, 0) = Some (b4, p4)"
    using 1 2 3 4 by (simp add: upt_rec numeral_2_eq_2 numeral_3_eq_3)
  then show ?thesis
    using assms 4 unfolding print_ip_padded_def f_def [symmetric]
    by (simp add: arr_write_fits arr_set_def)
qed

lemma command_ok_route: "command_ok (cmd_route m)"
  unfolding command_ok_def cmd_route_def Let_def
  by (auto split: prod.split intro!: keeps_bind print_ip_padded_keeps)

lemma command_ok_ping: "machine_ok m \<Longrightarrow> command_ok (cmd_ping_heap m)"
proof -
  assume m: "machine_ok m"
  have "nat (icmp_ping m ip t) < 2 ^ 64" for ip t
  proof -
    have "icmp_ping m ip t < 2 ^ 31" using m by (simp add: machine_ok_def)
    then show ?thesis by simp
  qed
  then show ?thesis by (auto simp: command_ok_def cmd_ping_heap_def Let_def say_int_exact split: option.splits)
qed

lemma command_ok_httpget: "command_ok (cmd_httpget_heap m)"
  by (auto simp: command_ok_def cmd_httpget_heap_def Let_def fold_keeps http_poll_def split: option.splits)

section \<open>Internet addresses\<close>

text \<open>The value of a text of decimal digits that continues a number.\<close>

definition dec_cont :: "nat \<Rightarrow> u8 list \<Rightarrow> nat" where
  "dec_cont v ds = foldl (\<lambda>acc d. acc * 10 + unat (d - ch_zero)) v ds"

lemma dec_cont_simps [simp]:
  "dec_cont v [] = v" "dec_cont v (d # ds) = dec_cont (v * 10 + unat (d - ch_zero)) ds"
  by (simp_all add: dec_cont_def)

lemma dec_cont_ge: "v \<le> dec_cont v ds"
proof (induction ds arbitrary: v)
  case (Cons d ds)
  show ?case using Cons.IH [of "v * 10 + unat (d - ch_zero)"] by simp
qed simp

lemma dec_cont_0: "dec_cont 0 ds = dec_value ds"
  by (simp add: dec_cont_def dec_value_def)

text \<open>One part of an address: a non-empty text of digits with a value of at most 255.\<close>

definition part_ok :: "u8 list \<Rightarrow> bool" where
  "part_ok p \<longleftrightarrow> p \<noteq> [] \<and> (\<forall>d \<in> set p. is_digit d) \<and> dec_value p \<le> 255"

lemma u8_of_u32:
  assumes "v \<le> 255"
  shows "ucast (of_nat v :: u32) = (of_nat v :: u8)"
proof -
  have "(of_nat (unat (of_nat v :: u32)) :: u8) = of_nat v" using assms unat_of_nat_u32 [of v] by simp
  then show ?thesis by simp
qed

definition finish_ip :: "(u8 list \<times> nat \<times> u32 \<times> bool) option \<Rightarrow> u8 list option" where
  "finish_ip r = do { (ip, part, val, saw_digit) \<leftarrow> r; if part \<noteq> 3 \<or> \<not> saw_digit then None else Some (ip[3 := ucast val]) }"

lemma ip_loop_end:
  assumes "v \<le> 255" "length ip = 4"
  shows "finish_ip (ip_loop [] ip part (of_nat v) saw) =
    (if part = 3 \<and> saw then Some (take part ip @ [of_nat v]) else None)"
proof -
  have "ip[3 := of_nat v] = take 3 ip @ [of_nat v]"
    using take_Suc_conv_app_nth [of 3 "ip[3 := of_nat v]"] assms(2) by simp
  then show ?thesis using assms(1) by (simp add: finish_ip_def u8_of_u32)
qed

lemma ip_loop_split:
  assumes "length ip = 4" "part \<le> 4" "v \<le> 255" "split_on 46 host = p # ps"
  shows "finish_ip (ip_loop host ip part (of_nat v) saw) =
    (if part + length ps = 3 \<and> (saw \<or> p \<noteq> []) \<and> (\<forall>d \<in> set p. is_digit d) \<and> dec_cont v p \<le> 255 \<and> (\<forall>q \<in> set ps. part_ok q)
     then Some (take part ip @ of_nat (dec_cont v p) # map (\<lambda>q. of_nat (dec_value q)) ps) else None)"
  using assms
proof (induction host arbitrary: ip part v saw p ps)
  case Nil
  have "p = []" "ps = []" using Nil.prems(4) by simp_all
  then show ?case unfolding ip_loop_end [OF Nil.prems(3,1)] using Nil.prems(3) by (simp del: ip_loop.simps)
next
  case (Cons b host)
  obtain p' ps' where sp: "split_on 46 host = p' # ps'" by (cases "split_on 46 host") auto
  consider (digit) "is_digit b" | (dot) "b = 46" "\<not> is_digit b" | (other) "\<not> is_digit b" "b \<noteq> 46" by blast
  then show ?case
  proof cases
    case digit
    then have ne: "b \<noteq> 46" by (auto simp: is_digit_def)
    then have p: "p = b # p'" "ps = ps'" using Cons.prems(4) sp by auto
    define v' where "v' = v * 10 + unat (b - ch_zero)"
    have v: "(of_nat v :: u32) * 10 + ucast (b - ch_zero) = of_nat v'" "unat (of_nat v' :: u32) = v'"
    proof -
      have "unat (b - ch_zero) < 256" using unsigned_less [of "b - ch_zero"] by simp
      then show "unat (of_nat v' :: u32) = v'" using Cons.prems(3) by (intro unat_of_nat_u32) (simp add: v'_def)
    qed (simp add: v'_def)
    have gt: "(255 :: u32) < of_nat v' \<longleftrightarrow> 255 < v'" using v(2) by (simp add: word_less_nat_alt)
    show ?thesis
    proof (cases "255 < v'")
      case True
      then have "\<not> dec_cont v' p' \<le> 255" using dec_cont_ge [of v' p'] by simp
      then show ?thesis using True digit p gt v(1) by (simp add: finish_ip_def v'_def [symmetric] Let_def)
    next
      case False
      then show ?thesis
        using Cons.IH [OF Cons.prems(1,2) _ sp, of v' True] digit p gt v(1) by (simp add: Let_def v'_def [symmetric])
    qed
  next
    case dot
    then have p: "p = []" "ps = p' # ps'" using Cons.prems(4) sp by auto
    show ?thesis
    proof (cases "4 \<le> part \<or> \<not> saw")
      case True
      then show ?thesis using dot p by (auto simp: finish_ip_def)
    next
      case False
      have t: "take (Suc part) (ip[part := x]) = take part ip @ [x]" for x
        using False Cons.prems(1) by (intro list_update_splice) simp
      have "ip_loop (b # host) ip part (of_nat v) saw = ip_loop host (ip[part := of_nat v]) (Suc part) 0 False"
        using False dot u8_of_u32 [OF Cons.prems(3)] by simp
      moreover have "finish_ip (ip_loop host (ip[part := of_nat v]) (Suc part) (of_nat 0) False) =
          (if Suc part + length ps' = 3 \<and> (False \<or> p' \<noteq> []) \<and> (\<forall>d \<in> set p'. is_digit d) \<and> dec_cont 0 p' \<le> 255 \<and>
              (\<forall>q \<in> set ps'. part_ok q)
           then Some (take (Suc part) (ip[part := of_nat v]) @ of_nat (dec_cont 0 p') # map (\<lambda>q. of_nat (dec_value q)) ps')
           else None)"
        by (rule Cons.IH) (use Cons.prems False sp in simp_all)
      ultimately show ?thesis
        using False Cons.prems(3) p t by (simp add: part_ok_def dec_cont_0 del: ip_loop.simps)
    qed
  next
    case other
    then have "p = b # p'" using Cons.prems(4) sp by auto
    then show ?thesis using other by (simp add: finish_ip_def)
  qed
qed

lemma parse_ipv4_finish: "parse_ipv4 host = finish_ip (ip_loop host (replicate 4 0) 0 0 False)"
  by (simp add: parse_ipv4_def finish_ip_def)

lemma split_on_dots:
  "46 \<notin> set a \<Longrightarrow> split_on 46 (a @ 46 # r) = a # split_on (46 :: u8) r" "46 \<notin> set a \<Longrightarrow> split_on (46 :: u8) a = [a]"
  by (induction a) auto

lemma octet_dec_text: "octet n = dec_text (unat n)"
proof -
  define k where "k = unat n"
  have k: "k < 256" using unsigned_less [of n] by (simp add: k_def)
  have n: "n div 100 = of_nat (k div 100)" "of_nat (k div 10) mod 10 = (of_nat (k div 10 mod 10) :: u8)" "n mod 10 = of_nat (k mod 10)"
    "n div 10 = of_nat (k div 10)" "n = of_nat k" "100 \<le> n \<longleftrightarrow> 100 \<le> k" "10 \<le> n \<longleftrightarrow> 10 \<le> k"
    using unat_of_nat_u8 [of "k div 10"] k
    unfolding k_def by (simp_all add: word_le_nat_alt word_arith_nat_div word_arith_nat_mod)
  have d: "k div 10 div 10 = k div 100" "k div 100 < 10" using k by (simp_all flip: div_mult2_eq)
  show ?thesis
  proof (cases "k < 10")
    case True
    then have t: "dec_text k = [ch_zero + of_nat k]" by (subst dec_text.simps) simp
    show ?thesis using True n(6,7) by (simp add: octet_def t flip: k_def n(5))
  next
    case False
    then have t: "dec_text k = dec_text (k div 10) @ [ch_zero + of_nat (k mod 10)]" by (subst dec_text.simps) simp
    have u: "dec_text (k div 10) = (if k < 100 then [ch_zero + of_nat (k div 10)]
        else [ch_zero + of_nat (k div 100), ch_zero + of_nat (k div 10 mod 10)])"
      using d by (subst dec_text.simps, subst dec_text.simps) auto
    show ?thesis unfolding octet_def n(1-4) n(6,7) t u k_def [symmetric] using False by auto
  qed
qed

lemma octet_part: "part_ok (octet n)" "46 \<notin> set (octet n)" "of_nat (dec_value (octet n)) = n"
proof -
  have "unat n < 256" using unsigned_less [of n] by simp
  then show "part_ok (octet n)"
    using dec_text_digits [of _ "unat n"] by (auto simp: part_ok_def octet_dec_text dec_value_dec_text is_digit_def)
  show "46 \<notin> set (octet n)" using dec_text_digits [of 46 "unat n"] by (auto simp: octet_dec_text)
  show "of_nat (dec_value (octet n)) = n" by (simp add: octet_dec_text dec_value_dec_text)
qed

text \<open>C35: the address parser of ping and httpget accepts exactly four dot-separated, non-empty texts of decimal
  digits with values up to 255, and returns these values in order.\<close>

theorem parse_ipv4_exact:
  "parse_ipv4 host =
     (let ps = split_on 46 host
      in if length ps = 4 \<and> (\<forall>p \<in> set ps. p \<noteq> [] \<and> (\<forall>d \<in> set p. 48 \<le> d \<and> d \<le> 57) \<and> dec_value p \<le> 255)
         then Some (map (\<lambda>p. of_nat (dec_value p)) ps) else None)"
proof -
  obtain p ps where sp: "split_on 46 host = p # ps" by (cases "split_on 46 host") auto
  show ?thesis
    using ip_loop_split [of "replicate 4 0" 0 0 host p ps False] sp
    by (auto simp: parse_ipv4_finish dec_cont_0 part_ok_def is_digit_def Let_def)
qed

theorem parse_ipv4_exact_witness:
  "parse_ipv4 (bytes ''10.0.2.15'') = Some [10, 0, 2, 15] \<and> parse_ipv4 (bytes ''1.2.3'') = None \<and>
   parse_ipv4 (bytes ''1.2.3.256'') = None"
  unfolding parse_ipv4_exact by code_simp

end
