(* ===== verification/Shell_Exec.thy ===== *)
theory Shell_Exec
  imports Shell_Stubs Shell_Info
begin

text \<open>
  The dispatch of command lines and the exported functions of the shell (\<^verbatim>\<open>kernel-rs/src/bash.rs\<close>, lines 181 to
  191, 402 to 454, 507 to 710 and 3040 to 3068).

  \<open>mem\<close> is the memory behind freshly allocated blocks, which the shell reads before it has written all
  of it. A command line that expands an alias runs \<open>execute_command\<close> again, so the function is a partial
  function; \<open>None\<close> is a panic or no return. Blocks that a command allocates and releases itself (the
  strings of the format macro, the lookups of the file system) do not appear in the heap of the model.
\<close>

section \<open>Definitions\<close>

definition builtins :: "machine \<Rightarrow> (u8 list \<times> command) list" where
  "builtins m = [
     (bytes ''help'', cmd_help), (bytes ''exit'', cmd_exit_heap), (bytes ''cd'', cmd_cd_heap),
     (bytes ''pwd'', cmd_pwd_heap), (bytes ''ls'', cmd_ls_heap), (bytes ''cat'', cmd_cat_heap),
     (bytes ''echo'', cmd_echo_heap), (bytes ''mkdir'', cmd_mkdir_heap), (bytes ''touch'', cmd_touch_heap),
     (bytes ''rm'', cmd_rm_heap), (bytes ''env'', cmd_env), (bytes ''export'', cmd_export_heap),
     (bytes ''alias'', cmd_alias_heap), (bytes ''history'', cmd_history), (bytes ''clear'', cmd_clear),
     (bytes ''date'', cmd_date m), (bytes ''uptime'', cmd_uptime m), (bytes ''ps'', cmd_ps),
     (bytes ''kill'', cmd_kill_heap), (bytes ''which'', cmd_which_heap), (bytes ''whoami'', cmd_whoami),
     (bytes ''uname'', cmd_uname), (bytes ''free'', cmd_free m), (bytes ''df'', cmd_df),
     (bytes ''mv'', cmd_mv_heap), (bytes ''ifconfig'', cmd_ifconfig m), (bytes ''ipconfig'', cmd_ifconfig m),
     (bytes ''route'', cmd_route m), (bytes ''nslookup'', cmd_nslookup_heap), (bytes ''dig'', cmd_nslookup_heap),
     (bytes ''host'', cmd_nslookup_heap), (bytes ''htop'', cmd_htop), (bytes ''lspci'', cmd_device),
     (bytes ''mount'', cmd_mount), (bytes ''ssh'', cmd_ssh_heap), (bytes ''scp'', cmd_scp_heap),
     (bytes ''rsync'', cmd_rsync_heap), (bytes ''top'', cmd_top m), (bytes ''iotop'', cmd_iotop),
     (bytes ''lsof'', cmd_lsof), (bytes ''chmod'', cmd_chmod_heap), (bytes ''chown'', cmd_chown_heap),
     (bytes ''ln'', cmd_ln_heap), (bytes ''du'', cmd_du_heap), (bytes ''sort'', cmd_sort_heap),
     (bytes ''uniq'', cmd_uniq_heap), (bytes ''cut'', cmd_cut_heap), (bytes ''tr'', cmd_tr_heap),
     (bytes ''sed'', cmd_sed_heap), (bytes ''awk'', cmd_awk_heap), (bytes ''tar'', cmd_tar_heap),
     (bytes ''gzip'', cmd_gzip_heap), (bytes ''gunzip'', cmd_gunzip_heap), (bytes ''wget'', cmd_wget_heap),
     (bytes ''curl'', cmd_curl_heap), (bytes ''ping'', cmd_ping_heap m), (bytes ''httpget'', cmd_httpget_heap m),
     (bytes ''netstat'', cmd_netstat), (bytes ''strace'', cmd_strace_heap), (bytes ''gdb'', cmd_gdb_heap),
     (bytes ''valgrind'', cmd_valgrind_heap), (bytes ''make'', cmd_make_heap), (bytes ''gcc'', cmd_gcc_heap),
     (bytes ''g++'', cmd_gpp_heap), (bytes ''ld'', cmd_ld_heap), (bytes ''ar'', cmd_ar_heap),
     (bytes ''nm'', cmd_nm_heap), (bytes ''objdump'', cmd_objdump_heap), (bytes ''readelf'', cmd_readelf_heap),
     (bytes ''strings'', cmd_strings_heap), (bytes ''hexdump'', cmd_hexdump_heap), (bytes ''od'', cmd_od_heap),
     (bytes ''xxd'', cmd_xxd_heap), (bytes ''base64'', cmd_base64_heap), (bytes ''md5sum'', cmd_md5sum_heap),
     (bytes ''sha1sum'', cmd_sha1sum_heap), (bytes ''sha256sum'', cmd_sha256sum_heap),
     (bytes ''openssl'', cmd_openssl_heap), (bytes ''gpg'', cmd_gpg_heap), (bytes ''vim'', cmd_vim_heap),
     (bytes ''nano'', cmd_nano_heap), (bytes ''emacs'', cmd_emacs_heap), (bytes ''less'', cmd_less_heap),
     (bytes ''more'', cmd_more_heap), (bytes ''man'', cmd_man_heap), (bytes ''info'', cmd_info_heap),
     (bytes ''apropos'', cmd_apropos_heap), (bytes ''whatis'', cmd_whatis_heap),
     (bytes ''locate'', cmd_locate_heap), (bytes ''updatedb'', cmd_updatedb),
     (bytes ''crontab'', cmd_crontab_heap), (bytes ''at'', cmd_at_heap), (bytes ''batch'', cmd_batch_heap),
     (bytes ''nohup'', cmd_nohup_heap), (bytes ''screen'', cmd_screen_heap), (bytes ''tmux'', cmd_tmux_heap),
     (bytes ''jobs'', cmd_jobs), (bytes ''bg'', cmd_bg_heap), (bytes ''fg'', cmd_fg_heap),
     (bytes ''disown'', cmd_disown_heap), (bytes ''su'', cmd_su_heap), (bytes ''sudo'', cmd_sudo_heap),
     (bytes ''passwd'', cmd_passwd_heap), (bytes ''useradd'', cmd_useradd_heap),
     (bytes ''userdel'', cmd_userdel_heap), (bytes ''usermod'', cmd_usermod_heap),
     (bytes ''groupadd'', cmd_groupadd_heap), (bytes ''groupdel'', cmd_groupdel_heap),
     (bytes ''groupmod'', cmd_groupmod_heap), (bytes ''id'', cmd_id_heap), (bytes ''groups'', cmd_groups_heap),
     (bytes ''newgrp'', cmd_newgrp_heap), (bytes ''chgrp'', cmd_chgrp_heap), (bytes ''umask'', cmd_umask_heap),
     (bytes ''test'', cmd_test_http), (bytes ''['', cmd_test_heap), (bytes ''true'', cmd_true),
     (bytes ''false'', cmd_false), (bytes ''yes'', cmd_yes_heap), (bytes ''seq'', cmd_seq_heap),
     (bytes ''expr'', cmd_expr_heap), (bytes ''bc'', cmd_bc_heap), (bytes ''dc'', cmd_dc_heap),
     (bytes ''factor'', cmd_factor_heap), (bytes ''sleep'', cmd_sleep_heap),
     (bytes ''timeout'', cmd_timeout_heap), (bytes ''watch'', cmd_watch_heap), (bytes ''time'', cmd_time_heap),
     (bytes ''tee'', cmd_tee_heap), (bytes ''xargs'', cmd_xargs_heap), (bytes ''parallel'', cmd_parallel_heap),
     (bytes ''test_args'', cmd_test_args_heap), (bytes ''vga'', cmd_vga_heap)]"
definition run_builtin :: "machine \<Rightarrow> u8 list \<Rightarrow> command" where
  "run_builtin m cmd args nargs w =
     (case map_of (builtins m) cmd of
        Some f \<Rightarrow> f args nargs w
      | None \<Rightarrow> Some (exit_with 127 (say_line '': command not found'' (say cmd (say_text ''bash: '' w)))))"

definition block_at :: "(usize \<Rightarrow> u8) \<Rightarrow> usize \<Rightarrow> nat \<Rightarrow> u8 list" where
  "block_at mem p n = map (\<lambda>i. mem (p + of_nat i)) [0..<n]"

definition not_blank :: "u8 \<Rightarrow> bool" where "not_blank c \<longleftrightarrow> c \<noteq> 32 \<and> c \<noteq> 9"

definition first_nonblank :: "u8 list \<Rightarrow> nat" where
  "first_nonblank s = (case position not_blank s of Some i \<Rightarrow> i | None \<Rightarrow> 0)"

definition last_nonblank :: "u8 list \<Rightarrow> nat" where
  "last_nonblank s = (case rposition not_blank s of Some i \<Rightarrow> i | None \<Rightarrow> 0)"

text \<open>\<^verbatim>\<open>&s[i..=j]\<close>, which panics when \<open>j\<close> is out of range.\<close>

definition slice_incl :: "u8 list \<Rightarrow> nat \<Rightarrow> nat \<Rightarrow> u8 list option" where
  "slice_incl s i j = (if j < length s \<and> i \<le> j + 1 then Some (take (j + 1 - i) (drop i s)) else None)"

definition alias_slice :: "u8 list \<Rightarrow> u8 list \<Rightarrow> u8 list" where
  "alias_slice alias_cmd buf =
     (let alias_len = min (length alias_cmd) 255
      in (take alias_len alias_cmd @ drop alias_len buf)[alias_len := 0])"

definition w_free :: "usize \<Rightarrow> shell_world \<Rightarrow> shell_world" where
  "w_free p w = w\<lparr>w_heap := rust_kfree p (w_heap w)\<rparr>"

partial_function (option) execute_command ::
  "machine \<Rightarrow> (usize \<Rightarrow> u8) \<Rightarrow> u8 list \<Rightarrow> shell_world \<Rightarrow> shell_world option" where
  "execute_command m mem line w =
     (if last_nonblank line < first_nonblank line then Some w
      else do {
        trimmed_command \<leftarrow> slice_incl line (first_nonblank line) (last_nonblank line);
        (args_ptr, h) \<leftarrow> rust_kmalloc (of_nat (64 * MAX_ARGS)) (w_heap w);
        let w = w\<lparr>w_heap := h\<rparr>;
        if args_ptr = 0
        then Some (emit (Serial (bytes ''[BASH-ERROR] Failed to allocate args buffer'' @ [10])) w)
        else do {
          (nargs, args) \<leftarrow> parse_command_heap trimmed_command (block_at mem args_ptr (64 * MAX_ARGS));
          if nargs = 0 then Some (w_free args_ptr w)
          else do {
            let cmd = get_arg_heap args 0;
            (alias_buf_ptr, h) \<leftarrow> rust_kmalloc 256 (w_heap w);
            let w = w\<lparr>w_heap := h\<rparr>;
            case (if alias_buf_ptr \<noteq> 0 then get_alias cmd (bash w) else None) of
              Some alias_cmd \<Rightarrow> do {
                w \<leftarrow> execute_command m mem (get_str (alias_slice alias_cmd (block_at mem alias_buf_ptr 256))) w;
                Some (w_free args_ptr (w_free alias_buf_ptr w))
              }
            | None \<Rightarrow> do {
                let w = (if alias_buf_ptr \<noteq> 0 then w_free alias_buf_ptr w else w);
                w \<leftarrow> run_builtin m cmd args nargs w;
                Some (w_free args_ptr w)
              }
          }
        }
      })"

text \<open>What \<open>run\<close> does before its loop, and one round of the loop. The round returns the keys that are left;
  \<open>None\<close> inside is a shell that still waits for keys.\<close>

definition run_start :: "shell_world \<Rightarrow> shell_world" where
  "run_start w =
     emit Interrupts_on (emit (Screen_color 0x0F) (say_line ''ShadeOS boot complete. Welcome!''
       (emit (Screen_color 0x0E) (emit Keyboard_clear (emit Screen_clear w)))))"

definition trimmed_input :: "u8 list \<Rightarrow> u8 list option" where
  "trimmed_input input_str =
     (case position not_blank input_str of
        Some i \<Rightarrow> slice_incl input_str i (case rposition not_blank input_str of Some j \<Rightarrow> j | None \<Rightarrow> i)
      | None \<Rightarrow> Some [])"

definition run_round :: "machine \<Rightarrow> (usize \<Rightarrow> u8) \<Rightarrow> int list \<Rightarrow> shell_world \<Rightarrow> (shell_world \<times> int list) option option" where
  "run_round m mem keys w = do {
     b \<leftarrow> update_prompt (bash w);
     let w = say (get_str (prompt b)) (w\<lparr>bash := b\<rparr>);
     case read_line keys MAX_CMD_LEN of
       None \<Rightarrow> Some None
     | Some (input, out, rest) \<Rightarrow> do {
         let w = fold emit out w;
         trimmed \<leftarrow> trimmed_input (get_str input);
         if trimmed \<noteq> [] then do {
           w \<leftarrow> execute_command m mem trimmed (w\<lparr>bash := add_to_history trimmed (bash w)\<rparr>);
           Some (Some (w, rest))
         }
         else Some (Some (w, rest))
       }
   }"

partial_function (option) drain_keyboard :: "keyboard \<Rightarrow> keyboard option" where
  "drain_keyboard k = (case rust_keyboard_get_char k of (c, k') \<Rightarrow> if c \<noteq> - 1 then drain_keyboard k' else Some k')"

text \<open>The global \<^verbatim>\<open>BASH_SHELL\<close>; storing a new shell drops the one that was there.\<close>

definition rust_bash_init :: "BashShell option \<Rightarrow> keyboard \<Rightarrow> heap \<Rightarrow> (BashShell option \<times> keyboard \<times> heap) option" where
  "rust_bash_init old k h = do {
     k \<leftarrow> drain_keyboard k;
     (shell, h) \<leftarrow> bash_new h;
     let h = (case old of Some s \<Rightarrow> bash_drop s h | None \<Rightarrow> h);
     Some (Some shell, k, h)
   }"

text \<open>\<open>rust_bash_run\<close> up to the loop of \<open>run\<close>, and \<open>rust_bash_execute\<close>, on a world whose shell may be missing.\<close>

definition rust_bash_run :: "bool \<Rightarrow> shell_world \<Rightarrow> shell_world" where
  "rust_bash_run present w =
     (if present then run_start w else emit (Serial (bytes ''[BASH-ERROR] Shell not initialized'' @ [10])) w)"

definition rust_bash_execute :: "machine \<Rightarrow> (usize \<Rightarrow> u8) \<Rightarrow> u8 list option \<Rightarrow> bool \<Rightarrow> shell_world \<Rightarrow> shell_world option" where
  "rust_bash_execute m mem command present w =
     (case command of
        None \<Rightarrow> Some w
      | Some c \<Rightarrow> if present then execute_command m mem (c_text c) w else Some w)"

section \<open>The built-in commands\<close>

lemma builtins_ok: "machine_ok m \<Longrightarrow> (k, f) \<in> set (builtins m) \<Longrightarrow> command_ok f"
  using answers_stubs [THEN answers_command_ok]
    command_ok_simple command_ok_tables command_ok_printing command_ok_cwd command_ok_cat command_ok_seq
    command_ok_history command_ok_test_args command_ok_mv command_ok_info command_ok_ifconfig command_ok_free
    command_ok_top command_ok_route command_ok_ping command_ok_httpget
  unfolding builtins_def by (simp only: set_simps insert_iff prod.inject empty_iff) blast

lemma run_builtin_ok: "machine_ok m \<Longrightarrow> command_ok (run_builtin m cmd)"
  using builtins_ok [of m cmd]
  by (auto simp: command_ok_def run_builtin_def dest!: map_of_SomeD split: option.splits)

text \<open>The heap has room for at most 87381 blocks, since each has a header of 48 bytes.\<close>

lemma heap_live_bound:
  assumes "heap_inv base h"
  shows "finite (heap_live base h)" "card (heap_live base h) \<le> 87381"
proof -
  obtain bs where bs: "heap_rel base h bs" using assms by (auto simp: heap_inv_def)
  have eq: "heap_live base h = (\<lambda>(p, s). (haddr base p, s)) ` set (allocs 0 bs)"
    using heap_live_eq [OF bs] by auto
  have "length (allocs off cs) * 48 \<le> span cs" for off cs
  proof (induction cs arbitrary: off rule: span.induct)
    case (2 s f bs)
    show ?case using "2.IH" [of "off + 48 + s"] by simp
  qed simp
  then have "length (allocs 0 bs) * 48 \<le> 4194304"
    using bs by (metis ablocks_ok_def heap_rel_def unat_HEAP_SIZE)
  then have "length (allocs 0 bs) \<le> 87381" by simp
  then show "card (heap_live base h) \<le> 87381"
    unfolding eq using card_image_le [of "set (allocs 0 bs)"] card_length [of "allocs 0 bs"]
    by (meson List.finite_set order_trans)
  show "finite (heap_live base h)" unfolding eq by simp
qed

lemma heap_live_grows:
  assumes "heap_inv base h" "rust_kmalloc n h = Some (p, h')" "p \<noteq> 0"
  shows "card (heap_live base h') = Suc (card (heap_live base h))"
proof -
  obtain s where "heap_live base h' = insert (p, s) (heap_live base h)" "p \<notin> fst ` heap_live base h"
    using kernel_heap.malloc_live [OF assms] by blast
  moreover from this have "(p, s) \<notin> heap_live base h" by force
  ultimately show ?thesis using heap_live_bound(1) [OF assms(1)] by simp
qed

lemma position_less: "position P xs = Some i \<Longrightarrow> i < length xs"
  by (induction xs arbitrary: i) (auto split: if_splits)

lemma rposition_less: "rposition P xs = Some i \<Longrightarrow> i < length xs"
  by (auto simp: rposition_def dest: position_less)

lemma last_nonblank_less: "line \<noteq> [] \<Longrightarrow> last_nonblank line < length line"
  by (auto simp: last_nonblank_def rposition_less split: option.split)

lemma slice_command:
  assumes "line \<noteq> []" "first_nonblank line \<le> last_nonblank line"
  shows "\<exists>s. slice_incl line (first_nonblank line) (last_nonblank line) = Some s"
  using assms last_nonblank_less by (simp add: slice_incl_def)

lemma alias_text:
  assumes "0 \<notin> set c" "length buf = 256"
  shows "get_str (alias_slice c buf) = take 255 c"
proof -
  have l: "min (length c) 255 < length buf" using assms by simp
  have "(take (min (length c) 255) c @ drop (min (length c) 255) buf)[min (length c) 255 := 0] =
      take (min (length c) 255) c @ 0 # drop (Suc (min (length c) 255)) buf"
    using l by (simp add: list_update_append Cons_nth_drop_Suc [symmetric])
  then have "alias_slice c buf = take 255 c @ 0 # drop (Suc (min (length c) 255)) buf"
    by (simp add: alias_slice_def Let_def min_def)
  then show ?thesis using take_nonzero [OF assms(1)] by (simp add: get_str_pad)
qed

definition aliases_nonempty :: "BashShell \<Rightarrow> bool" where
  "aliases_nonempty s \<longleftrightarrow> (\<forall>(n, c) \<in> set (alias_list s). c \<noteq> [])"

lemma alias_expands:
  assumes "shell_ok s" "aliases_nonempty s" "get_alias n s = Some c" "length buf = 256"
  shows "get_str (alias_slice c buf) \<noteq> []"
proof -
  have "(c_text n, c) \<in> set (alias_list s)"
    using assms(1,3) by (auto simp: get_alias_map_of dest: map_of_SomeD)
  then have "c \<noteq> []" "0 \<notin> set c" using assms(2) c_text_nonzero by (auto simp: aliases_nonempty_def alias_list_def)
  then show ?thesis using alias_text [OF _ assms(4)] by simp
qed

text \<open>The blocks a command line leaves behind.\<close>

abbreviation tables :: "shell_world \<Rightarrow> usize \<times> usize \<times> usize" where
  "tables w \<equiv> (env_vars (bash w), aliases (bash w), history (bash w))"

definition restores :: "usize \<Rightarrow> shell_world \<Rightarrow> shell_world option \<Rightarrow> bool" where
  "restores base w r \<longleftrightarrow> (\<exists>w'. r = Some w' \<and> shell_ok (bash w') \<and> heap_inv base (w_heap w') \<and>
     heap_live base (w_heap w') = heap_live base (w_heap w) \<and> tables w' = tables w)"

lemma w_free_sel [simp]: "bash (w_free p w) = bash w" "w_heap (w_free p w) = rust_kfree p (w_heap w)"
  by (simp_all add: w_free_def)

lemma restores_free:
  assumes "restores base w1 r" "heap_inv base (w_heap w)" "rust_kmalloc n (w_heap w) = Some (p, w_heap w1)" "bash w1 = bash w"
  shows "restores base w (Option.bind r (\<lambda>w. Some (w_free p w)))"
  using assms kernel_heap.free_restores [OF assms(2,3)] by (auto simp: restores_def)

lemma length_block_at [simp]: "length (block_at mem p n) = n"
  by (simp add: block_at_def)

lemma keeps_restores:
  "keeps w r \<Longrightarrow> heap_inv base (w_heap w) \<Longrightarrow> restores base w r"
  by (auto simp: keeps_def restores_def)

lemma restores_trans:
  "restores base w1 r \<Longrightarrow> heap_live base (w_heap w1) = heap_live base (w_heap w) \<Longrightarrow> bash w1 = bash w \<Longrightarrow>
   restores base w r"
  by (auto simp: restores_def)

lemma execute_command_unfold:
  assumes "\<not> last_nonblank line < first_nonblank line"
    and "slice_incl line (first_nonblank line) (last_nonblank line) = Some s"
    and "rust_kmalloc (of_nat (64 * MAX_ARGS)) (w_heap w) = Some (p, h1)"
    and "parse_command_heap s (block_at mem p (64 * MAX_ARGS)) = Some (nargs, args)"
    and "rust_kmalloc 256 h1 = Some (q, h2)"
    and "w1 = w\<lparr>w_heap := h1\<rparr>" "w2 = w1\<lparr>w_heap := h2\<rparr>" "cmd = get_arg_heap args 0"
  shows "execute_command m mem line w =
    (if p = 0 then Some (emit (Serial (bytes ''[BASH-ERROR] Failed to allocate args buffer'' @ [10])) w1)
     else if nargs = 0 then Some (w_free p w1)
     else Option.bind
       (case (if q \<noteq> 0 then get_alias cmd (bash w1) else None) of
          Some c \<Rightarrow> Option.bind (execute_command m mem (get_str (alias_slice c (block_at mem q 256))) w2) (\<lambda>w. Some (w_free q w))
        | None \<Rightarrow> run_builtin m cmd args nargs (if q \<noteq> 0 then w_free q w2 else w2))
       (\<lambda>w. Some (w_free p w)))"
  using assms by (subst execute_command.simps) (auto split: option.split)

lemma execute_empty: "execute_command m mem [] w = None"
  by (subst execute_command.simps) (simp add: first_nonblank_def last_nonblank_def slice_incl_def rposition_def)

text \<open>What happens between the allocation of the second buffer and its release.\<close>

definition dispatch ::
  "machine \<Rightarrow> (usize \<Rightarrow> u8) \<Rightarrow> u8 list \<Rightarrow> nat \<Rightarrow> usize \<Rightarrow> shell_world \<Rightarrow> shell_world \<Rightarrow> shell_world option" where
  "dispatch m mem args nargs q w1 w2 =
     (case (if q \<noteq> 0 then get_alias (get_arg_heap args 0) (bash w1) else None) of
        Some c \<Rightarrow> Option.bind (execute_command m mem (get_str (alias_slice c (block_at mem q 256))) w2) (\<lambda>w. Some (w_free q w))
      | None \<Rightarrow> run_builtin m (get_arg_heap args 0) args nargs (if q \<noteq> 0 then w_free q w2 else w2))"

lemma execute_command_cases:
  assumes "line \<noteq> []" "heap_inv base (w_heap w)"
  obtains (blank) "execute_command m mem line w = Some w"
  | (line) p h1 nargs args q h2 where
      "rust_kmalloc (of_nat (64 * MAX_ARGS)) (w_heap w) = Some (p, h1)" "rust_kmalloc 256 h1 = Some (q, h2)"
      "nargs \<le> 32" "length args = 2048"
      "execute_command m mem line w =
        (if p = 0 then Some (emit (Serial (bytes ''[BASH-ERROR] Failed to allocate args buffer'' @ [10])) (w\<lparr>w_heap := h1\<rparr>))
         else if nargs = 0 then Some (w_free p (w\<lparr>w_heap := h1\<rparr>))
         else Option.bind (dispatch m mem args nargs q (w\<lparr>w_heap := h1\<rparr>) (w\<lparr>w_heap := h2\<rparr>)) (\<lambda>w. Some (w_free p w)))"
proof (cases "last_nonblank line < first_nonblank line")
  case True
  then show thesis by (intro blank) (subst execute_command.simps, simp)
next
  case False
  obtain s where s: "slice_incl line (first_nonblank line) (last_nonblank line) = Some s"
    using slice_command [OF assms(1)] False by auto
  obtain p h1 where h1: "rust_kmalloc (of_nat (64 * MAX_ARGS)) (w_heap w) = Some (p, h1)"
    using kernel_heap.malloc_returns [OF assms(2)] by blast
  obtain nargs args where a: "parse_command_heap s (block_at mem p (64 * MAX_ARGS)) = Some (nargs, args)"
      "nargs \<le> 32" "length args = 2048"
    using parse_command_total [of "block_at mem p (64 * MAX_ARGS)" s] by (auto simp: MAX_ARGS_def)
  obtain q h2 where h2: "rust_kmalloc 256 h1 = Some (q, h2)"
    using kernel_heap.malloc_returns [OF kernel_heap.malloc_inv [OF assms(2) h1]] by blast
  show thesis
    by (rule line [OF h1 h2 a(2,3)], subst execute_command.simps)
      (use False s h1 a(1) h2 in \<open>auto simp: dispatch_def split: option.split\<close>)
qed

lemma dispatch_restores:
  assumes m: "machine_ok m" and w: "shell_ok (bash w)" "heap_inv base (w_heap w)" "length args = 2048" "nargs \<le> 32"
    and h: "rust_kmalloc 256 (w_heap w) = Some (q, h)"
    and nested: "\<And>c. q \<noteq> 0 \<Longrightarrow> get_alias (get_arg_heap args 0) (bash w) = Some c \<Longrightarrow>
      restores base (w\<lparr>w_heap := h\<rparr>) (execute_command m mem (get_str (alias_slice c (block_at mem q 256))) (w\<lparr>w_heap := h\<rparr>))"
  shows "restores base w (dispatch m mem args nargs q w (w\<lparr>w_heap := h\<rparr>))"
proof (cases "if q \<noteq> 0 then get_alias (get_arg_heap args 0) (bash w) else None")
  case None
  let ?w = "if q \<noteq> 0 then w_free q (w\<lparr>w_heap := h\<rparr>) else w\<lparr>w_heap := h\<rparr>"
  have "heap_inv base (w_heap ?w) \<and> heap_live base (w_heap ?w) = heap_live base (w_heap w)"
    using kernel_heap.malloc_free [OF w(2) h] kernel_heap.malloc_null [OF w(2), of 256] kernel_heap.malloc_inv [OF w(2) h] h
    by simp
  moreover have "keeps ?w (run_builtin m (get_arg_heap args 0) args nargs ?w)"
    using run_builtin_ok [OF m, of "get_arg_heap args 0"] w by (simp add: command_ok_def)
  ultimately show ?thesis using None restores_trans [OF keeps_restores] by (simp add: dispatch_def)
next
  case (Some c)
  then have "q \<noteq> 0" "get_alias (get_arg_heap args 0) (bash w) = Some c" by (auto split: if_splits)
  from restores_free [OF nested [OF this] w(2)] h Some show ?thesis by (simp add: dispatch_def)
qed

text \<open>A nested call finds two more blocks on the heap, so the recursion ends. That it returns at all is
  either because no alias has an empty text, or because the outer call is known to return.\<close>

lemma execute_command_restores:
  assumes m: "machine_ok m"
    and w: "shell_ok (bash w)" "heap_inv base (w_heap w)"
    and returns: "aliases_nonempty (bash w) \<and> line \<noteq> [] \<or> execute_command m mem line w \<noteq> None"
  shows "restores base w (execute_command m mem line w)"
  using w returns
proof (induction "87381 - card (heap_live base (w_heap w))" arbitrary: line w rule: less_induct)
  case less
  note w = less.prems(1,2) and returns = less.prems(3)
  have nonempty: "line \<noteq> []" using returns by (auto simp: execute_empty)
  show ?case
  proof (cases rule: execute_command_cases [OF nonempty w(2), of m mem, case_names blank line])
    case blank
    then show ?thesis using w by (simp add: restores_def)
  next
    case (line p h1 nargs args q h2)
    let ?w1 = "w\<lparr>w_heap := h1\<rparr>" and ?w2 = "w\<lparr>w_heap := h2\<rparr>"
    have i1: "heap_inv base h1" using kernel_heap.malloc_inv [OF w(2) line(1)] .
    have i2: "heap_inv base h2" using kernel_heap.malloc_inv [OF i1 line(2)] .
    have nested: "restores base ?w2 (execute_command m mem (get_str (alias_slice c (block_at mem q 256))) ?w2)"
      if "p \<noteq> 0" "nargs \<noteq> 0" "q \<noteq> 0" "get_alias (get_arg_heap args 0) (bash w) = Some c" for c
    proof (rule less.hyps)
      show "87381 - card (heap_live base (w_heap ?w2)) < 87381 - card (heap_live base (w_heap w))"
        using heap_live_grows [OF w(2) line(1) that(1)] heap_live_grows [OF i1 line(2) that(3)] heap_live_bound(2) [OF i2]
        by simp
      show "aliases_nonempty (bash ?w2) \<and> get_str (alias_slice c (block_at mem q 256)) \<noteq> [] \<or>
          execute_command m mem (get_str (alias_slice c (block_at mem q 256))) ?w2 \<noteq> None"
        using returns alias_expands [OF w(1) _ that(4)] line(5) that by (auto simp: dispatch_def bind_eq_Some_conv)
    qed (use w i2 in simp_all)
    have "restores base w (Some (w_free p ?w1))" "p = 0 \<Longrightarrow> restores base w (Some (emit ev ?w1))" for ev
      using w line(1) i1 kernel_heap.malloc_free [OF w(2) line(1)] kernel_heap.malloc_null [OF w(2)]
      by (auto simp: restores_def)
    moreover have "p \<noteq> 0 \<Longrightarrow> nargs \<noteq> 0 \<Longrightarrow> restores base ?w1 (dispatch m mem args nargs q ?w1 ?w2)"
      using dispatch_restores [OF m, of ?w1 base args nargs q h2 mem] w i1 line nested by simp
    ultimately show ?thesis using restores_free [of base ?w1 _ w, OF _ w(2)] line(1,5) by simp
  qed
qed

section \<open>Command lines made of words\<close>

lemma position_0: "xs \<noteq> [] \<Longrightarrow> P (xs ! 0) \<Longrightarrow> position P xs = Some 0"
  by (cases xs) auto

lemma rposition_last: "xs \<noteq> [] \<Longrightarrow> P (last xs) \<Longrightarrow> rposition P xs = Some (length xs - 1)"
  by (cases xs rule: rev_cases) (simp_all add: rposition_def)

lemma not_blank_iff: "not_blank b \<longleftrightarrow> \<not> is_blank b"
  by (auto simp: not_blank_def is_blank_def)

lemma render_ends:
  assumes "token_ok t"
  shows "render t \<noteq> [] \<and> not_blank (render t ! 0) \<and> not_blank (last (render t))"
proof -
  obtain q w where t: "t = (q, w)" by (cases t)
  show ?thesis
  proof (cases q)
    case True
    then show ?thesis by (simp add: t not_blank_def)
  next
    case False
    then have w: "w \<noteq> []" "\<forall>b \<in> set w. not_blank b" using assms by (auto simp: t not_blank_iff)
    then have "not_blank (w ! 0)" "not_blank (last w)" by (simp_all add: nth_mem)
    with w(1) False show ?thesis by (simp add: t)
  qed
qed

lemma join_ends:
  assumes "ts \<noteq> []" "\<forall>t \<in> set ts. token_ok t"
  shows "join ts \<noteq> [] \<and> not_blank (join ts ! 0) \<and> not_blank (last (join ts))"
  using assms
proof (induction ts rule: join.induct)
  case (2 t)
  then show ?case using render_ends [of t] by simp
next
  case (3 t u ts)
  then show ?case using render_ends [of t] by (simp add: nth_append)
qed simp

lemma join_trimmed:
  assumes "ts \<noteq> []" "\<forall>t \<in> set ts. token_ok t"
  shows "first_nonblank (join ts) = 0" "last_nonblank (join ts) = length (join ts) - 1"
    "slice_incl (join ts) 0 (length (join ts) - 1) = Some (join ts)"
  using join_ends [OF assms]
  by (auto simp: first_nonblank_def last_nonblank_def position_0 rposition_last slice_incl_def)

text \<open>A line of words up to the choice between alias and built-in command.\<close>

definition words_ok :: "token list \<Rightarrow> bool" where
  "words_ok ts \<longleftrightarrow> ts \<noteq> [] \<and> length ts \<le> 32 \<and> length (packed (map snd ts)) \<le> 1984 \<and> (\<forall>t \<in> set ts. token_ok t)"

lemma execute_join:
  assumes ts: "words_ok ts"
    and h1: "rust_kmalloc 2048 (w_heap w) = Some (p, h1)" "p \<noteq> 0"
    and h2: "rust_kmalloc 256 h1 = Some (q, h2)" "q \<noteq> 0"
  obtains args where "length args = 2048" "\<forall>i < length ts. get_arg_heap args i = snd (ts ! i)"
    "execute_command m mem (join ts) w =
      Option.bind
       (case get_alias (snd (hd ts)) (bash w) of
          Some c \<Rightarrow> Option.bind (execute_command m mem (get_str (alias_slice c (block_at mem q 256))) (w\<lparr>w_heap := h2\<rparr>))
            (\<lambda>w. Some (w_free q w))
        | None \<Rightarrow> run_builtin m (snd (hd ts)) args (length ts) (w\<lparr>w_heap := rust_kfree q h2\<rparr>))
       (\<lambda>w. Some (w_free p w))"
proof -
  have o: "ts \<noteq> []" "\<forall>t \<in> set ts. token_ok t" using ts by (simp_all add: words_ok_def)
  obtain args where a: "parse_command_heap (join ts) (block_at mem p (64 * MAX_ARGS)) = Some (length ts, args)"
      "length args = 2048" "\<forall>i < length ts. get_arg_heap args i = snd (ts ! i)"
    using parse_join [of "block_at mem p (64 * MAX_ARGS)" ts] ts by (auto simp: words_ok_def MAX_ARGS_def)
  have k: "rust_kmalloc (of_nat (64 * MAX_ARGS)) (w_heap w) = Some (p, h1)" using h1 by (simp add: MAX_ARGS_def)
  have c: "get_arg_heap args 0 = snd (hd ts)" using a(3) o(1) by (simp add: hd_conv_nth)
  have n: "\<not> last_nonblank (join ts) < first_nonblank (join ts)"
    and s: "slice_incl (join ts) (first_nonblank (join ts)) (last_nonblank (join ts)) = Some (join ts)"
    using join_trimmed [OF o] by simp_all
  show thesis
    using execute_command_unfold [OF n s k a(1) h2(1) refl refl refl, of m] that [OF a(2,3)] o(1) h1(2) h2(2) c
    by (simp add: w_free_def cong: option.case_cong)
qed

text \<open>C30: an alias with an empty text makes the shell panic: the nested call slices the first byte of an empty line.\<close>

theorem empty_alias_panics:
  assumes "words_ok ts" "get_alias (snd (hd ts)) (bash w) = Some []"
    and "rust_kmalloc 2048 (w_heap w) = Some (p, h1)" "p \<noteq> 0" "rust_kmalloc 256 h1 = Some (q, h2)" "q \<noteq> 0"
  shows "execute_command m mem (join ts) w = None"
proof -
  have "execute_command m mem [] v = None" for v
    by (subst execute_command.simps) (simp add: first_nonblank_def last_nonblank_def slice_incl_def rposition_def)
  moreover have "get_str (alias_slice [] (block_at mem q 256)) = []" by (subst alias_text) simp_all
  ultimately show ?thesis using execute_join [OF assms(1,3-6), of m mem] assms(2) by auto
qed

text \<open>The texts a command prints.\<close>

definition printed :: "shell_event list \<Rightarrow> u8 list" where
  "printed evs = concat (map (\<lambda>e. case e of Print t \<Rightarrow> t | Put c \<Rightarrow> [c] | _ \<Rightarrow> []) evs)"

definition spaced :: "u8 list list \<Rightarrow> u8 list" where
  "spaced ws = (case ws of [] \<Rightarrow> [] | w # vs \<Rightarrow> w @ concat (map ((#) 32) vs))"

lemma printed_append [simp]: "printed (xs @ ys) = printed xs @ printed ys" "printed [] = []"
  "printed (Print t # evs) = t @ printed evs"
  by (simp_all add: printed_def)

lemma print_word: "0 \<notin> set t \<Longrightarrow> length t < 1024 \<Longrightarrow> print_str t = Print t"
  by (simp add: print_str_text c_text_all)

lemma echo_loop:
  assumes "\<And>i. i \<in> {k..<k + n} \<Longrightarrow> 0 \<notin> set (arg i) \<and> length (arg i) < 1024" "1 < k"
  shows "printed (w_out (fold (\<lambda>i w. say (arg i) (if 1 < i then say [32] w else w)) [k..<k + n] w)) =
    printed (w_out w) @ concat (map (\<lambda>i. 32 # arg i) [k..<k + n])"
  using assms by (induction n) (simp_all add: print_word)

lemma echo_prints:
  assumes "\<And>i. i \<in> {1..<nargs} \<Longrightarrow> 0 \<notin> set (get_arg_heap args i) \<and> length (get_arg_heap args i) < 1024"
  shows "\<exists>w'. cmd_echo_heap args nargs w = Some w' \<and> last_exit_code (bash w') = 0 \<and> w_vfs w' = w_vfs w \<and>
    printed (w_out w') = printed (w_out w) @ spaced (map (get_arg_heap args) [1..<nargs]) @ [10]"
proof -
  define F where "F = (\<lambda>i w. say (get_arg_heap args i) (if 1 < i then say [32] w else w))"
  have f: "w_vfs (fold F xs w) = w_vfs w" for xs w by (induction xs arbitrary: w) (simp_all add: F_def)
  have "printed (w_out (fold F [1..<nargs] w)) = printed (w_out w) @ spaced (map (get_arg_heap args) [1..<nargs])"
  proof (cases "1 < nargs")
    case True
    then obtain n where n: "nargs = 2 + n" using less_imp_add_positive by (metis Suc_1 Suc_leI le_iff_add)
    then have u: "[1..<nargs] = 1 # [2..<2 + n]" by (simp add: upt_conv_Cons del: upt_Suc flip: Suc_1)
    have "print_str (get_arg_heap args 1) = Print (get_arg_heap args 1)" using assms [of 1] True by (intro print_word) auto
    then have one: "printed (w_out (F 1 w)) = printed (w_out w) @ get_arg_heap args 1" by (simp add: F_def)
    have "printed (w_out (fold F [2..<2 + n] (F 1 w))) =
        printed (w_out (F 1 w)) @ concat (map (\<lambda>i. 32 # get_arg_heap args i) [2..<2 + n])"
      unfolding F_def using assms n by (intro echo_loop) auto
    then show ?thesis unfolding u one by (simp only: fold_simps o_apply spaced_def list.map list.case one append_assoc map_map comp_def)
  qed (simp add: spaced_def)
  moreover have "print_str [10] = Print [10]" by (rule print_word) simp_all
  ultimately show ?thesis unfolding cmd_echo_heap_def F_def [symmetric] Let_def using f by simp
qed

lemma token_nonzero: "token_ok t \<Longrightarrow> 0 \<notin> set (snd t)"
  by (cases t) auto

lemma builtin_echo: "map_of (builtins m) (bytes ''echo'') = Some cmd_echo_heap"
  by (simp add: builtins_def bytes_def of_char_def)

text \<open>\<open>echo\<close> from the command line to the output. A line that consists of \<open>echo\<close> and further words, plain or in
  double quotes, prints these words separated by single blanks and a newline, and sets the exit code
  to 0, provided that \<open>echo\<close> is not an alias and the two buffers can be allocated.\<close>

theorem execute_echo:
  assumes "words_ok ((False, bytes ''echo'') # ts)" "\<forall>t \<in> set ts. length (snd t) < 1024"
    and "get_alias (bytes ''echo'') (bash w) = None"
    and "rust_kmalloc 2048 (w_heap w) = Some (p, h1)" "p \<noteq> 0" "rust_kmalloc 256 h1 = Some (q, h2)" "q \<noteq> 0"
  shows "\<exists>w'. execute_command m mem (join ((False, bytes ''echo'') # ts)) w = Some w' \<and> last_exit_code (bash w') = 0 \<and>
    w_vfs w' = w_vfs w \<and> printed (w_out w') = printed (w_out w) @ spaced (map snd ts) @ [10]"
proof -
  let ?ts = "(False, bytes ''echo'') # ts"
  obtain args where a: "\<forall>i < length ?ts. get_arg_heap args i = snd (?ts ! i)"
    "execute_command m mem (join ?ts) w =
      Option.bind (cmd_echo_heap args (length ?ts) (w\<lparr>w_heap := rust_kfree q h2\<rparr>)) (\<lambda>w. Some (w_free p w))"
    using execute_join [OF assms(1,4-7), of m mem] assms(3) by (auto simp: run_builtin_def builtin_echo)
  have t: "token_ok t" if "t \<in> set ts" for t using assms(1) that by (simp add: words_ok_def)
  have g: "get_arg_heap args i = snd (ts ! (i - 1))" "i - 1 < length ts" if "i \<in> {1..<length ?ts}" for i
    using a(1) that by (auto simp: nth_Cons')
  have "[1..<length ?ts] = map Suc [0..<length ts]" by (simp add: map_Suc_upt del: upt_Suc)
  then have "map (get_arg_heap args) [1..<length ?ts] = map snd ts"
    using a(1) by (intro nth_equalityI) simp_all
  moreover have "0 \<notin> set (get_arg_heap args i) \<and> length (get_arg_heap args i) < 1024" if "i \<in> {1..<length ?ts}" for i
    using g(1) [OF that] nth_mem [OF g(2) [OF that]] token_nonzero [OF t] assms(2) by simp
  ultimately show ?thesis
    using echo_prints [of "length ?ts" args "w\<lparr>w_heap := rust_kfree q h2\<rparr>"] a(2) by (auto simp: w_free_def)
qed

section \<open>Sessions\<close>

text \<open>The blocks of a shell.\<close>

lemma bash_new_ok:
  assumes "heap_inv base h" "bash_new h = Some (s, h')"
  shows "shell_ok s \<and> alias_list s = [] \<and> history_list s = [] \<and> heap_inv base h' \<and>
    (\<exists>a b c. heap_live base h' = heap_live base h \<union> {(env_vars s, a), (aliases s, b), (history s, c)} \<and>
      16000 \<le> a \<and> 5760 \<le> b \<and> 10240 \<le> c) \<and>
    distinct [env_vars s, aliases s, history s] \<and> {env_vars s, aliases s, history s} \<inter> fst ` heap_live base h = {}"
proof -
  obtain p h1 q h2 r h3 where h1: "rust_kmalloc 16000 h = Some (p, h1)" and h2: "rust_kmalloc 5760 h1 = Some (q, h2)"
    and h3: "rust_kmalloc 10240 h2 = Some (r, h3)" and nz: "p \<noteq> 0" "q \<noteq> 0" "r \<noteq> 0"
    and s: "env_vars s = p" "aliases s = q" "history s = r" "h' = h3" "shell_ok s" "alias_list s = []" "history_list s = []"
    using assms(2) set_update_memI [of "Suc 0" "(replicate 256 0)[0 := ch_slash]" 0]
    by (auto simp: bash_new_def shell_limits bind_eq_Some_conv shell_ok_def alias_list_def history_list_def split: if_splits)
  have i1: "heap_inv base h1" using kernel_heap.malloc_inv [OF assms(1) h1] .
  have i2: "heap_inv base h2" using kernel_heap.malloc_inv [OF i1 h2] .
  have i3: "heap_inv base h3" using kernel_heap.malloc_inv [OF i2 h3] .
  obtain a where a: "heap_live base h1 = insert (p, a) (heap_live base h)" "p \<notin> fst ` heap_live base h" "16000 \<le> a"
    using kernel_heap.malloc_live [OF assms(1) h1 nz(1)] by auto
  obtain b where b: "heap_live base h2 = insert (q, b) (heap_live base h1)" "q \<notin> fst ` heap_live base h1" "5760 \<le> b"
    using kernel_heap.malloc_live [OF i1 h2 nz(2)] by auto
  obtain c where c: "heap_live base h3 = insert (r, c) (heap_live base h2)" "r \<notin> fst ` heap_live base h2" "10240 \<le> c"
    using kernel_heap.malloc_live [OF i2 h3 nz(3)] by auto
  have "heap_live base h3 = heap_live base h \<union> {(p, a), (q, b), (r, c)}" using a b c by auto
  moreover have "distinct [p, q, r]" "{p, q, r} \<inter> fst ` heap_live base h = {}" using a b c by auto
  ultimately show ?thesis using s i3 a(3) b(3) c(3) by auto
qed

text \<open>A session of the shell: it is created, then lines are typed and run, one round after another, while the rest
  of the machine behaves as it likes.\<close>

inductive shell_session :: "usize \<Rightarrow> heap \<Rightarrow> shell_world \<Rightarrow> bool" for base h0 where
  start: "heap_inv base h0 \<Longrightarrow> bash_new h0 = Some (s, h) \<Longrightarrow> bash w = s \<Longrightarrow> w_heap w = h \<Longrightarrow> shell_session base h0 w"
| round: "shell_session base h0 w \<Longrightarrow> machine_ok m \<Longrightarrow> run_round m mem keys w = Some (Some (w', rest)) \<Longrightarrow>
    shell_session base h0 w'"

lemma fold_emit_sel [simp]:
  "bash (fold emit evs w) = bash w" "w_heap (fold emit evs w) = w_heap w" "w_vfs (fold emit evs w) = w_vfs w"
  by (induction evs arbitrary: w) simp_all

lemma history_pointers [simp]:
  "env_vars (add_to_history c s) = env_vars s" "aliases (add_to_history c s) = aliases s"
  "history (add_to_history c s) = history s"
  by (simp_all add: add_to_history_def Let_def)

lemma run_round_restores:
  assumes m: "machine_ok m" and w: "shell_ok (bash w)" "heap_inv base (w_heap w)"
    and r: "run_round m mem keys w = Some (Some (w', rest))"
  shows "restores base w (Some w')"
proof -
  obtain b x where b: "update_prompt (bash w) = Some b" "shell_ok b" "b = (bash w)\<lparr>prompt := x\<rparr>"
    using update_prompt_text [OF w(1)] by blast
  then have p: "env_vars b = env_vars (bash w)" "aliases b = aliases (bash w)" "history b = history (bash w)"
    by simp_all
  define w1 where "w1 = say (get_str (prompt b)) (w\<lparr>bash := b\<rparr>)"
  obtain input out where i: "read_line keys MAX_CMD_LEN = Some (input, out, rest)"
    using r b(1) by (auto simp: run_round_def Let_def bind_eq_Some_conv split: option.splits if_splits)
  obtain t where t: "trimmed_input (get_str input) = Some t"
    using r b(1) i by (auto simp: run_round_def Let_def bind_eq_Some_conv split: option.splits if_splits)
  let ?w = "(fold emit out w1)\<lparr>bash := add_to_history t b\<rparr>"
  have ok: "shell_ok (bash ?w)" "heap_inv base (w_heap ?w)" "heap_live base (w_heap ?w) = heap_live base (w_heap w)"
    using b(2) w(2) add_to_history_list(1) by (simp_all add: w1_def)
  show ?thesis
  proof (cases "t = []")
    case True
    then have "w' = fold emit out w1" using r b(1) i t by (simp add: run_round_def w1_def)
    then show ?thesis using b(2) w(2) p by (simp add: restores_def w1_def)
  next
    case False
    then have "execute_command m mem t ?w = Some w'"
      using r b(1) i t by (simp add: run_round_def w1_def bind_eq_Some_conv)
    moreover from this have "restores base ?w (execute_command m mem t ?w)"
      using execute_command_restores [OF m ok(1,2), of t mem] by simp
    ultimately show ?thesis using ok(3) p by (auto simp: restores_def w1_def)
  qed
qed

lemma session_restores:
  assumes "shell_session base h0 w"
  shows "\<exists>s h. heap_inv base h0 \<and> bash_new h0 = Some (s, h) \<and> shell_ok (bash w) \<and> heap_inv base (w_heap w) \<and>
    heap_live base (w_heap w) = heap_live base h \<and> tables w = (env_vars s, aliases s, history s)"
  using assms
proof induction
  case (start s h w)
  then show ?case using bash_new_ok by blast
next
  case (round w m mem keys w' rest)
  from round.IH obtain s h where i: "heap_inv base h0" "bash_new h0 = Some (s, h)" "shell_ok (bash w)" "heap_inv base (w_heap w)"
    "heap_live base (w_heap w) = heap_live base h" "tables w = (env_vars s, aliases s, history s)" by blast
  have "restores base w (Some w')" by (rule run_round_restores [OF round.hyps(2) i(3,4) round.hyps(3)])
  then show ?case using i(1,2,5,6) by (intro exI [of _ s] exI [of _ h]) (simp add: restores_def)
qed


definition demo_machine :: machine where
  "demo_machine = \<lparr>rtc_date = (2024, 1, 2, 3, 4, 5), timer_seconds = 90061, timer_ticks = 9006100,
     load_text = (bytes ''0.00'', bytes ''0.00'', bytes ''0.00''), pmm_total = 4096, pmm_free = 1024,
     net_config = (0, replicate 4 0, replicate 4 0, replicate 4 0, replicate 6 0), icmp_ping = (\<lambda>_ _. - 1),
     socket_id = - 1, connect_result = (\<lambda>_. - 1), send_result = (\<lambda>_. 0), received = (\<lambda>_. [])\<rparr>"

lemma demo_machine_ok: "machine_ok demo_machine"
  by (simp add: machine_ok_def demo_machine_def)

text \<open>A heap after boot gives out the blocks the shell asks for.\<close>

lemma big_block:
  assumes "heap_rel base h (xs @ [(s, True)])" "\<forall>(t, f) \<in> set xs. \<not> f" "n \<noteq> 0" "unat (align_up n) + 48 < s"
  obtains p h' where "rust_kmalloc n h = Some (p, h')" "p \<noteq> 0"
    "heap_rel base h' ((xs @ [(unat (align_up n), False)]) @ [(s - unat (align_up n) - 48, True)])"
proof -
  have x: "\<forall>(t, f) \<in> set xs. \<not> (f \<and> unat (align_up n) \<le> t)" using assms(2) by auto
  obtain h' where h: "rust_kmalloc n h = Some (haddr base (span xs + 48), h')"
    "heap_rel base h' (xs @ split_block (unat (align_up n)) s)"
    using rust_kmalloc_hit [OF _ assms(3) _ x, of base h s "[]"] assms(1,4) by auto
  have "span (ys @ [(s, True)]) = span ys + 48 + s" for ys by (induction ys rule: span.induct) auto
  then have "span xs + 48 \<le> 4194304" "heap_placed base" using assms(1) by (auto simp: heap_rel_def ablocks_ok_def)
  then have "haddr base (span xs + 48) \<noteq> 0"
    using unat_haddr [of base "span xs + 48"] by (metis add_is_0 heap_placed_def less_numeral_extra(3) unsigned_0)
  moreover have "split_block (unat (align_up n)) s = [(unat (align_up n), False), (s - unat (align_up n) - 48, True)]"
    using assms(4) by (simp add: split_block_def)
  ultimately show thesis using that h by simp
qed

lemma shell_heap_demo:
  obtains h p h1 q h2 where "init_heap 0x100000 boot_heap = Some h" "heap_inv 0x100000 h"
    "rust_kmalloc 2048 h = Some (p, h1)" "p \<noteq> 0" "rust_kmalloc 256 h1 = Some (q, h2)" "q \<noteq> 0"
proof -
  have "heap_placed 0x100000" by (simp add: heap_placed_def)
  then obtain h where h: "init_heap 0x100000 boot_heap = Some h" "heap_rel 0x100000 h ([] @ [(4194256, True)])"
    by (auto elim: init_heap_rel)
  have s: "unat (align_up 2048) = 2048" "unat (align_up 256) = 256" by (simp_all add: unat_align_up)
  obtain p h1 where h1: "rust_kmalloc 2048 h = Some (p, h1)" "p \<noteq> 0"
    "heap_rel 0x100000 h1 (([] @ [(2048, False)]) @ [(4192160, True)])"
    using big_block [OF h(2), of 2048] s by auto
  obtain q h2 where "rust_kmalloc 256 h1 = Some (q, h2)" "q \<noteq> 0"
    "heap_rel 0x100000 h2 ((([] @ [(2048, False)]) @ [(256, False)]) @ [(4191856, True)])"
    using big_block [OF h1(3), of 256] s by auto
  moreover have "heap_inv 0x100000 h" using h(2) by (auto simp: heap_inv_def)
  ultimately show thesis using that [OF h(1) _ h1(1,2)] by blast
qed

lemma bash_new_demo:
  obtains h s h' where "init_heap 0x100000 boot_heap = Some h" "heap_inv 0x100000 h" "bash_new h = Some (s, h')"
proof -
  have "heap_placed 0x100000" by (simp add: heap_placed_def)
  then obtain h where h: "init_heap 0x100000 boot_heap = Some h" "heap_rel 0x100000 h ([] @ [(4194256, True)])"
    by (auto elim: init_heap_rel)
  have s: "unat (align_up 16000) = 16000" "unat (align_up 5760) = 5760" "unat (align_up 10240) = 10240"
    by (simp_all add: unat_align_up)
  obtain p h1 where 1: "rust_kmalloc 16000 h = Some (p, h1)" "p \<noteq> 0"
    "heap_rel 0x100000 h1 (([] @ [(16000, False)]) @ [(4178208, True)])"
    using big_block [OF h(2), of 16000] s by auto
  obtain q h2 where 2: "rust_kmalloc 5760 h1 = Some (q, h2)" "q \<noteq> 0"
    "heap_rel 0x100000 h2 ((([] @ [(16000, False)]) @ [(5760, False)]) @ [(4172400, True)])"
    using big_block [OF 1(3), of 5760] s by auto
  obtain r h3 where 3: "rust_kmalloc 10240 h2 = Some (r, h3)" "r \<noteq> 0"
    "heap_rel 0x100000 h3 (((([] @ [(16000, False)]) @ [(5760, False)]) @ [(10240, False)]) @ [(4162112, True)])"
    using big_block [OF 2(3), of 10240] s by auto
  have "bash_new h \<noteq> None" using 1(1,2) 2(1,2) 3 by (simp add: bash_new_def shell_limits)
  then show thesis using that h by (auto simp: heap_inv_def)
qed




theorem empty_alias_panics_witness:
  "\<exists>h. init_heap 0x100000 boot_heap = Some h \<and>
     execute_command demo_machine (\<lambda>_. 7) (join [(False, bytes ''x'')])
       (demo_world\<lparr>bash := set_alias (bytes ''x'') [] demo_shell, w_heap := h\<rparr>) = None"
proof (rule shell_heap_demo)
  fix h p h1 q h2
  assume h: "init_heap 0x100000 boot_heap = Some h" "rust_kmalloc 2048 h = Some (p, h1)" "p \<noteq> 0"
    "rust_kmalloc 256 h1 = Some (q, h2)" "q \<noteq> 0"
  let ?s = "set_alias (bytes ''x'') [] demo_shell"
  have "words_ok [(False, bytes ''x'')]" by (simp add: words_ok_def packed_def bytes_def of_char_def is_blank_def)
  moreover have "alias_list ?s = [(bytes ''x'', [])]"
    using set_alias_list(2) [OF demo_shell_ok, of "bytes ''x''" "[]"]
    by (simp add: alias_list_def demo_shell_def bytes_def of_char_def c_text_def)
  then have "get_alias (bytes ''x'') ?s = Some []"
    using get_alias_map_of [OF set_alias_list(1) [OF demo_shell_ok]] by (simp add: bytes_def of_char_def c_text_def)
  ultimately show ?thesis
    using empty_alias_panics [of "[(False, bytes ''x'')]" "demo_world\<lparr>bash := ?s, w_heap := h\<rparr>" p h1 q h2 demo_machine "\<lambda>_. 7"] h
    by simp
qed

theorem execute_echo_witness:
  "\<exists>h w'. init_heap 0x100000 boot_heap = Some h \<and>
     execute_command demo_machine (\<lambda>_. 7) (join [(False, bytes ''echo''), (True, bytes ''a b''), (False, bytes ''c'')])
       (demo_world\<lparr>w_heap := h\<rparr>) = Some w' \<and> printed (w_out w') = bytes ''a b c'' @ [10]"
proof (rule shell_heap_demo)
  fix h p h1 q h2
  assume h: "init_heap 0x100000 boot_heap = Some h" "rust_kmalloc 2048 h = Some (p, h1)" "p \<noteq> 0"
    "rust_kmalloc 256 h1 = Some (q, h2)" "q \<noteq> 0"
  have "words_ok [(False, bytes ''echo''), (True, bytes ''a b''), (False, bytes ''c'')]"
    by (simp add: words_ok_def packed_def bytes_def of_char_def is_blank_def)
  moreover have "get_alias (bytes ''echo'') demo_shell = None"
    using get_alias_map_of [OF demo_shell_ok] by (simp add: alias_list_def demo_shell_def)
  ultimately show ?thesis
    using execute_echo [of "[(True, bytes ''a b''), (False, bytes ''c'')]" "demo_world\<lparr>w_heap := h\<rparr>" p h1 q h2 demo_machine "\<lambda>_. 7"] h
    by (auto simp: demo_world_def spaced_def bytes_def of_char_def)
qed

end
