(* ===== verification/Nic_Hardware.thy ===== *)
theory Nic_Hardware
  imports Heap_Allocator Kernel_Memory "HOL-Library.Multiset"
begin

text \<open>
  What the three network drivers share: port and register access, the kernel memory their buffers
  live in, the heap these come from, and the serial line they report on.

  The device is not code of this kernel. What it answers to the \<open>n\<close>-th read of a port or register is
  \<open>answers n\<close>, an arbitrary stream; everything the driver sends to the device, and every line it
  reports, is appended to \<open>io_log\<close> in order. Memory the device writes into by itself (receive buffers,
  descriptors) is whatever it is when a driver function is entered.
\<close>

section \<open>Definitions\<close>

datatype io_event =
    Outb u16 u8 | Outw u16 u16 | Outl u16 u32 | In_port u16
  | Mmio_write u64 u32 | Mmio_read u64
  | Say "u8 list" | Say_dec "u8 list" u64

record nic_world =
  answers :: "nat \<Rightarrow> u32"
  reads :: nat
  io_log :: "io_event list"
  kmem :: memory
  kheap :: heap

definition io :: "io_event \<Rightarrow> nic_world \<Rightarrow> nic_world" where
  "io e w = w\<lparr>io_log := io_log w @ [e]\<rparr>"

definition io_read :: "io_event \<Rightarrow> nic_world \<Rightarrow> u32 \<times> nic_world" where
  "io_read e w = (answers w (reads w), (io e w)\<lparr>reads := Suc (reads w)\<rparr>)"

definition say :: "string \<Rightarrow> nic_world \<Rightarrow> nic_world" where
  "say s = io (Say (bytes s))"

definition say_line :: "string \<Rightarrow> nic_world \<Rightarrow> nic_world" where
  "say_line s = io (Say (bytes s @ [ch_newline]))"

definition say_dec :: "string \<Rightarrow> u64 \<Rightarrow> nic_world \<Rightarrow> nic_world" where
  "say_dec s n = io (Say_dec (bytes s) n)"

definition say_dec_line :: "string \<Rightarrow> u64 \<Rightarrow> nic_world \<Rightarrow> nic_world" where
  "say_dec_line s n = io (Say_dec (bytes s @ [ch_newline]) n)"

definition put_mem :: "usize \<Rightarrow> u8 list \<Rightarrow> nic_world \<Rightarrow> nic_world" where
  "put_mem p bs w = w\<lparr>kmem := store_bytes p bs (kmem w)\<rparr>"

definition w_malloc :: "usize \<Rightarrow> nic_world \<Rightarrow> (usize \<times> nic_world) option" where
  "w_malloc n w = rust_kmalloc n (kheap w) \<bind> (\<lambda>(p, h). Some (p, w\<lparr>kheap := h\<rparr>))"

definition w_alloc_bufs :: "nat \<Rightarrow> usize \<Rightarrow> nic_world \<Rightarrow> (usize list \<times> bool \<times> nic_world) option" where
  "w_alloc_bufs k n w =
     alloc_bufs rust_kmalloc k n (kheap w) \<bind> (\<lambda>(ps, full, h). Some (ps, full, w\<lparr>kheap := h\<rparr>))"

definition w_free :: "usize list \<Rightarrow> nic_world \<Rightarrow> nic_world" where
  "w_free ps w = w\<lparr>kheap := free_bufs rust_kfree ps (kheap w)\<rparr>"

text \<open>What goes to the device, without the reports on the serial line.\<close>

fun to_device :: "io_event \<Rightarrow> bool" where
  "to_device (Say _) = False"
| "to_device (Say_dec _ _) = False"
| "to_device _ = True"

definition wire :: "nic_world \<Rightarrow> io_event list" where
  "wire w = filter to_device (io_log w)"

definition hex_pair :: "u8 \<Rightarrow> u8 list" where
  "hex_pair b = [hex_digit_lower (drop_bit 4 b AND 0xF), hex_digit_lower (b AND 0xF)]"

section \<open>Frame lemmas\<close>

named_theorems nic_simps \<open>what the elementary steps leave alone\<close>

lemmas nic_defs = io_def io_read_def say_def say_line_def say_dec_def say_dec_line_def put_mem_def w_free_def

lemma io_frame [nic_simps]:
  "kheap (io e w) = kheap w" "kmem (io e w) = kmem w" "reads (io e w) = reads w" "answers (io e w) = answers w"
  "io_log (io e w) = io_log w @ [e]"
  by (simp_all add: io_def)

lemma say_frame [nic_simps]:
  "kheap (say s w) = kheap w" "kmem (say s w) = kmem w" "reads (say s w) = reads w" "answers (say s w) = answers w"
  "wire (say s w) = wire w"
  "kheap (say_line s w) = kheap w" "kmem (say_line s w) = kmem w" "reads (say_line s w) = reads w"
  "answers (say_line s w) = answers w" "wire (say_line s w) = wire w"
  "kheap (say_dec s n w) = kheap w" "kmem (say_dec s n w) = kmem w" "reads (say_dec s n w) = reads w"
  "answers (say_dec s n w) = answers w" "wire (say_dec s n w) = wire w"
  "kheap (say_dec_line s n w) = kheap w" "kmem (say_dec_line s n w) = kmem w" "reads (say_dec_line s n w) = reads w"
  "answers (say_dec_line s n w) = answers w" "wire (say_dec_line s n w) = wire w"
  by (simp_all add: say_def say_line_def say_dec_def say_dec_line_def io_def wire_def)

lemma wire_io [nic_simps]: "wire (io e w) = wire w @ (if to_device e then [e] else [])"
  by (simp add: wire_def io_def)

lemma io_read_frame [nic_simps]:
  "kheap (snd (io_read e w)) = kheap w" "kmem (snd (io_read e w)) = kmem w"
  "reads (snd (io_read e w)) = Suc (reads w)" "answers (snd (io_read e w)) = answers w"
  "fst (io_read e w) = answers w (reads w)" "wire (snd (io_read e w)) = wire w @ (if to_device e then [e] else [])"
  by (simp_all add: io_read_def io_def wire_def)

lemma put_mem_frame [nic_simps]:
  "kheap (put_mem p bs w) = kheap w" "kmem (put_mem p bs w) = store_bytes p bs (kmem w)"
  "reads (put_mem p bs w) = reads w" "answers (put_mem p bs w) = answers w" "wire (put_mem p bs w) = wire w"
  by (simp_all add: put_mem_def wire_def)

lemma w_free_frame [nic_simps]:
  "kheap (w_free ps w) = free_bufs rust_kfree ps (kheap w)" "kmem (w_free ps w) = kmem w"
  "reads (w_free ps w) = reads w" "answers (w_free ps w) = answers w" "wire (w_free ps w) = wire w"
  by (simp_all add: w_free_def wire_def)

text \<open>A run of steps that leave heap or memory alone leaves them alone.\<close>

lemma fold_frame: "(\<And>x s. f (g x s) = f s) \<Longrightarrow> f (fold g xs s) = f s"
  by (induction xs arbitrary: s) auto

section \<open>Buffers\<close>

text \<open>Compared with the world \<open>w\<close>, exactly the blocks \<open>bs\<close> have been taken from the heap, each of at least the
  size given with it.\<close>

definition holds_blocks :: "usize \<Rightarrow> nic_world \<Rightarrow> (usize \<times> nat) list \<Rightarrow> nic_world \<Rightarrow> bool" where
  "holds_blocks base w bs w' \<longleftrightarrow> holding (heap_inv base) (heap_live base) (kheap w) (map fst bs) (kheap w') \<and>
     roomy (heap_live base) (kheap w') bs"

lemma holds_blocks_inv: "holds_blocks base w bs w' \<Longrightarrow> heap_inv base (kheap w')"
  unfolding holds_blocks_def by (rule kernel_heap.holding_inv) (rule conjunct1)

lemma holds_blocks_roomy: "holds_blocks base w bs w' \<Longrightarrow> roomy (heap_live base) (kheap w') bs"
  unfolding holds_blocks_def by (rule conjunct2)

lemma map_fst_row [simp]: "map fst (rev (map (\<lambda>q. (q, n)) qs)) = rev qs"
  by (simp add: rev_map [symmetric] comp_def)

lemma w_malloc_null:
  assumes "w_malloc n w' = Some (0, w'')" "holds_blocks base w bs w'"
  shows "holds_blocks base w bs w''"
proof -
  have m: "rust_kmalloc n (kheap w') = Some (0, kheap w'')" using assms(1) by (auto simp: w_malloc_def bind_eq_Some_conv)
  show ?thesis using assms(2) kernel_heap.holding_null [OF _ m]
      kernel_heap.roomy_mono [OF _ kernel_heap.malloc_mono [OF holds_blocks_inv [OF assms(2)] m]]
    by (simp add: holds_blocks_def)
qed

lemma w_malloc_block:
  assumes "w_malloc n w' = Some (p, w'')" "p \<noteq> 0" "holds_blocks base w bs w'" "unat n \<le> 2 ^ 64 - 16"
  shows "holds_blocks base w ((p, unat n) # bs) w''"
proof -
  have m: "rust_kmalloc n (kheap w') = Some (p, kheap w'')" using assms(1) by (auto simp: w_malloc_def bind_eq_Some_conv)
  show ?thesis using assms(3) kernel_heap.holding_malloc [OF _ m assms(2)]
      kernel_heap.roomy_malloc [OF holds_blocks_inv [OF assms(3)] m assms(2,4)]
    by (simp add: holds_blocks_def)
qed

lemma w_alloc_bufs_blocks:
  assumes "w_alloc_bufs k n w' = Some (qs, full, w'')" "holds_blocks base w bs w'" "unat n \<le> 2 ^ 64 - 16"
  shows "holds_blocks base w (rev (map (\<lambda>q. (q, unat n)) qs) @ bs) w''" "length qs \<le> k" "full \<longleftrightarrow> length qs = k"
proof -
  have m: "alloc_bufs rust_kmalloc k n (kheap w') = Some (qs, full, kheap w'')"
    using assms(1) by (auto simp: w_alloc_bufs_def bind_eq_Some_conv)
  have h: "holding (heap_inv base) (heap_live base) (kheap w) (rev qs @ map fst bs) (kheap w'') \<and> length qs \<le> k \<and>
      (full \<longleftrightarrow> length qs = k)"
    using assms(2) unfolding holds_blocks_def by (intro kernel_heap.holding_alloc_bufs [OF _ m]) (rule conjunct1)
  then show "length qs \<le> k" "full \<longleftrightarrow> length qs = k" by simp_all
  show "holds_blocks base w (rev (map (\<lambda>q. (q, unat n)) qs) @ bs) w''"
    using h assms(2) kernel_heap.roomy_alloc_bufs [OF holds_blocks_inv [OF assms(2)] m assms(3)]
    by (simp add: holds_blocks_def)
qed

lemma holds_blocks_start: "heap_inv base (kheap w) \<Longrightarrow> holds_blocks base w [] w"
  by (simp add: holds_blocks_def kernel_heap.holding_Nil roomy_def)

lemma holds_blocks_distinct: "holds_blocks base w bs w' \<Longrightarrow> distinct (map fst bs) \<and> 0 \<notin> fst ` set bs"
  by (simp add: holds_blocks_def holding_def)

lemma holds_blocks_kheap: "kheap w'' = kheap w' \<Longrightarrow> holds_blocks base w bs w'' = holds_blocks base w bs w'"
  by (simp add: holds_blocks_def)

lemma holds_nothing: "holds_blocks base w [] w' \<longleftrightarrow> heap_inv base (kheap w') \<and> heap_live base (kheap w') = heap_live base (kheap w)"
  by (simp add: holds_blocks_def kernel_heap.holding_none roomy_def)

text \<open>Blocks held do not overlap, and releasing them in any order restores the heap.\<close>

lemma holds_blocks_apart:
  "holds_blocks base w bs w' \<Longrightarrow> (p, m) \<in> set bs \<Longrightarrow> (q, n) \<in> set bs \<Longrightarrow> p \<noteq> q \<Longrightarrow> apart (p, m) (q, n)"
  by (rule kernel_heap.roomy_apart [OF holds_blocks_inv holds_blocks_roomy])

lemma w_free_blocks:
  assumes "holds_blocks base w bs w'" "distinct qs" "set qs = fst ` set bs"
  shows "holds_blocks base w [] (w_free qs w')"
  using kernel_heap.holding_release [of base "kheap w" "map fst bs" "kheap w'" qs] assms
  unfolding holds_nothing by (simp add: nic_simps holds_blocks_def)

lemma w_malloc_returns: "heap_inv base (kheap w) \<Longrightarrow> \<exists>p w'. w_malloc n w = Some (p, w')"
  using kernel_heap.malloc_returns [of base "kheap w" n] by (force simp: w_malloc_def)

lemma w_alloc_bufs_returns:
  assumes "heap_inv base (kheap w)"
  shows "\<exists>ps full w'. w_alloc_bufs k n w = Some (ps, full, w')"
proof -
  obtain r where "alloc_bufs rust_kmalloc k n (kheap w) = Some r"
    using kernel_heap.alloc_bufs_returns [OF assms, of k n] by auto
  then show ?thesis by (cases r) (simp add: w_alloc_bufs_def)
qed

lemma fold_kheap: "(\<And>x w. kheap (g x w) = kheap w) \<Longrightarrow> kheap (fold g xs w) = kheap w"
  by (rule fold_frame)

lemma w_free_w_free: "w_free qs (w_free ps w) = w_free (ps @ qs) w"
  by (simp add: w_free_def free_bufs_def)

lemma w_free_Nil: "w_free [] w = w"
  by (simp add: w_free_def free_bufs_def)

lemma w_malloc_any:
  assumes "w_malloc n w' = Some (p, w'')" "holds_blocks base w bs w'" "unat n \<le> 2 ^ 64 - 16"
  shows "holds_blocks base w (if p = 0 then bs else (p, unat n) # bs) w''"
  using w_malloc_null w_malloc_block assms by auto

lemma held_row_release:
  assumes "holds_blocks base w bs w'" "mset qs = mset (map fst bs)"
  shows "holds_blocks base w [] (w_free qs w')"
proof (rule w_free_blocks [OF assms(1)])
  show "distinct qs" using holds_blocks_distinct [OF assms(1)] assms(2) by (metis mset_eq_imp_distinct_iff)
  show "set qs = fst ` set bs" using assms(2) by (metis list.set_map mset_eq_setD)
qed

section \<open>Separate runs of memory\<close>

lemma apart_within: "apart (p, m) y \<Longrightarrow> k + l \<le> m \<Longrightarrow> 0 < l \<Longrightarrow> apart (p + of_nat k, l) y"
proof -
  assume a: "apart (p, m) y" "k + l \<le> m" "0 < l"
  then have "unat (p + of_nat k) = unat p + k" by (intro unat_add_of_nat) (auto simp: apart_def)
  with a show ?thesis by (auto simp: apart_def)
qed

lemma apart_shorter: "apart (p, m) y \<Longrightarrow> l \<le> m \<Longrightarrow> apart (p, l) y"
  by (auto simp: apart_def)

lemma load_put_apart:
  "apart (q, n) (p, length bs) \<Longrightarrow> length bs < 2 ^ 64 \<Longrightarrow> load_bytes q n (store_bytes p bs m) = load_bytes q n m"
  by (rule load_store_apart) (auto simp: apart_def)

lemma byte_put_apart:
  assumes "apart (q, 1) (p, length bs)" "length bs < 2 ^ 64"
  shows "store_bytes p bs m q = m q"
  using load_put_apart [OF assms, of m] by (simp add: load_bytes_def)

text \<open>The next index of a ring of 32 descriptors.\<close>

lemma slot_step: "unat ((x + 1) mod 32 :: usize) = (unat x + 1) mod 32"
proof -
  have "unat (x + 1) = (unat x + 1) mod 2 ^ 64" by (simp add: unat_word_ariths)
  then show ?thesis by (simp add: unat_mod mod_mod_cancel)
qed

end
