(* ===== verification/Nic_Rtl8139.thy ===== *)
theory Nic_Rtl8139
  imports Nic_Hardware
begin

text \<open>
  The RTL8139 driver (\<^verbatim>\<open>kernel-rs/src/rtl8139.rs\<close>): allocation and initialisation, transmission through
  four buffers in turn, reception from one receive buffer through a running offset, and the exported
  functions on the global device.

  A driver function takes the device record and the world and returns both updated. The wait for the
  end of the software reset may not end; then the result is \<open>None\<close>. A frame handed out by
  \<^verbatim>\<open>receive\<close> is the list of its bytes.
\<close>

section \<open>Definitions\<close>

definition REG_MAC0 :: u16 where "REG_MAC0 = 0x00"
definition REG_TSD0 :: u16 where "REG_TSD0 = 0x10"
definition REG_TSAD0 :: u16 where "REG_TSAD0 = 0x20"
definition REG_RBSTART :: u16 where "REG_RBSTART = 0x30"
definition REG_CMD :: u16 where "REG_CMD = 0x37"
definition REG_CAPR :: u16 where "REG_CAPR = 0x38"
definition REG_IMR :: u16 where "REG_IMR = 0x3C"
definition REG_ISR :: u16 where "REG_ISR = 0x3E"
definition REG_TCR :: u16 where "REG_TCR = 0x40"
definition REG_RCR :: u16 where "REG_RCR = 0x44"
definition REG_CONFIG1 :: u16 where "REG_CONFIG1 = 0x52"

definition CMD_RESET :: u8 where "CMD_RESET = 0x10"
definition CMD_RX_ENABLE :: u8 where "CMD_RX_ENABLE = 0x08"
definition CMD_TX_ENABLE :: u8 where "CMD_TX_ENABLE = 0x04"

definition INT_ROK :: u16 where "INT_ROK = 0x01"
definition INT_TOK :: u16 where "INT_TOK = 0x04"
definition INT_RER :: u16 where "INT_RER = 0x02"
definition INT_TER :: u16 where "INT_TER = 0x08"

definition RCR_AAP :: u32 where "RCR_AAP = 0x01"
definition RCR_APM :: u32 where "RCR_APM = 0x02"
definition RCR_AM :: u32 where "RCR_AM = 0x04"
definition RCR_AB :: u32 where "RCR_AB = 0x08"
definition RCR_WRAP :: u32 where "RCR_WRAP = 0x80"
definition RCR_RBLEN_8K :: u32 where "RCR_RBLEN_8K = 0x00"
definition TCR_IFG :: u32 where "TCR_IFG = 0x03000000"

definition RX_BUFFER_SIZE :: usize where "RX_BUFFER_SIZE = 8192 + 16 + 1500"
definition TX_BUFFER_SIZE :: usize where "TX_BUFFER_SIZE = 1536"

record Rtl8139Device =
  rtl_io_base :: u16
  rtl_mac :: "u8 list"
  rtl_rx_buffer :: usize
  rtl_tx_buffers :: "usize list"
  rtl_current_tx :: usize
  rtl_rx_offset :: u16

definition rtl_outb :: "Rtl8139Device \<Rightarrow> u16 \<Rightarrow> u8 \<Rightarrow> nic_world \<Rightarrow> nic_world" where
  "rtl_outb d offset v = io (Outb (rtl_io_base d + offset) v)"

definition rtl_outw :: "Rtl8139Device \<Rightarrow> u16 \<Rightarrow> u16 \<Rightarrow> nic_world \<Rightarrow> nic_world" where
  "rtl_outw d offset v = io (Outw (rtl_io_base d + offset) v)"

definition rtl_outl :: "Rtl8139Device \<Rightarrow> u16 \<Rightarrow> u32 \<Rightarrow> nic_world \<Rightarrow> nic_world" where
  "rtl_outl d offset v = io (Outl (rtl_io_base d + offset) v)"

definition rtl_inb :: "Rtl8139Device \<Rightarrow> u16 \<Rightarrow> nic_world \<Rightarrow> u8 \<times> nic_world" where
  "rtl_inb d offset w = (let r = io_read (In_port (rtl_io_base d + offset)) w in (ucast (fst r), snd r))"

definition rtl_inw :: "Rtl8139Device \<Rightarrow> u16 \<Rightarrow> nic_world \<Rightarrow> u16 \<times> nic_world" where
  "rtl_inw d offset w = (let r = io_read (In_port (rtl_io_base d + offset)) w in (ucast (fst r), snd r))"

definition rtl_inl :: "Rtl8139Device \<Rightarrow> u16 \<Rightarrow> nic_world \<Rightarrow> u32 \<times> nic_world" where
  "rtl_inl d offset w = io_read (In_port (rtl_io_base d + offset)) w"

partial_function (option) rtl_wait_reset :: "Rtl8139Device \<Rightarrow> nic_world \<Rightarrow> nic_world option" where
  "rtl_wait_reset d w =
     (if fst (rtl_inb d REG_CMD w) AND CMD_RESET \<noteq> 0 then rtl_wait_reset d (snd (rtl_inb d REG_CMD w))
      else Some (snd (rtl_inb d REG_CMD w)))"

definition rtl_read_mac :: "Rtl8139Device \<Rightarrow> nic_world \<Rightarrow> u8 list \<times> nic_world" where
  "rtl_read_mac d w =
     fold (\<lambda>i (mac, w). let (v, w') = rtl_inb d (REG_MAC0 + of_nat i) w in (mac[i := v], w')) [0..<6] (rtl_mac d, w)"

definition rtl_init :: "Rtl8139Device \<Rightarrow> nic_world \<Rightarrow> (Rtl8139Device \<times> nic_world) option" where
  "rtl_init d w = do {
     let w = rtl_outb d REG_CONFIG1 0x00 (say_line ''[RTL8139] Initializing network device...'' w);
     let w = rtl_outb d REG_CMD CMD_RESET (say_line ''[RTL8139] Performing software reset...'' w);
     w \<leftarrow> rtl_wait_reset d w;
     let w = say_line ''[RTL8139] Reset complete'' w;
     let (mac, w) = rtl_read_mac d w;
     let d = d\<lparr>rtl_mac := mac\<rparr>;
     let w = say_line ''[RTL8139] MAC address read'' w;
     let w = say_dec_line '''' (rtl_rx_buffer d) (say ''[RTL8139] Setting RX buffer addr='' w);
     let w = rtl_outl d REG_RBSTART (ucast (rtl_rx_buffer d)) w;
     let (rb_verify, w) = rtl_inl d REG_RBSTART w;
     let w = say_dec_line '''' (ucast rb_verify) (say ''[RTL8139] RX buffer verify read back='' w);
     let w = rtl_outw d REG_CAPR 0xFFF0 (say_line ''[RTL8139] Resetting CAPR'' w);
     let w = rtl_outw d REG_IMR (INT_ROK OR INT_TOK OR INT_RER OR INT_TER) (say_line ''[RTL8139] Configuring interrupts'' w);
     let w = rtl_outw d REG_ISR 0xFFFF w;
     let w = rtl_outl d REG_RCR (RCR_AAP OR RCR_APM OR RCR_AM OR RCR_AB OR RCR_WRAP OR RCR_RBLEN_8K)
               (say_line ''[RTL8139] Configuring RX'' w);
     let w = rtl_outl d REG_TCR TCR_IFG (say_line ''[RTL8139] Configuring TX'' w);
     let w = rtl_outb d REG_CMD (CMD_RX_ENABLE OR CMD_TX_ENABLE) (say_line ''[RTL8139] Enabling RX and TX'' w);
     let (cmd_verify, w) = rtl_inb d REG_CMD w;
     let w = say_dec_line '''' (ucast cmd_verify) (say ''[RTL8139] CMD register='' w);
     Some (d, say_line ''[RTL8139] Device initialized successfully'' w)
   }"

text \<open>On a refused buffer \<^verbatim>\<open>new\<close> releases the receive buffer and the transmit buffers it holds.\<close>

definition rtl_new :: "u16 \<Rightarrow> nic_world \<Rightarrow> (Rtl8139Device option \<times> nic_world) option" where
  "rtl_new io_base w = do {
     (rx_buffer, w) \<leftarrow> w_malloc RX_BUFFER_SIZE w;
     if rx_buffer = 0 then Some (None, w)
     else do {
       (tx_buffers, full, w) \<leftarrow> w_alloc_bufs 4 TX_BUFFER_SIZE w;
       if \<not> full then Some (None, w_free (rx_buffer # tx_buffers) w)
       else do {
         (d, w) \<leftarrow> rtl_init \<lparr>rtl_io_base = io_base, rtl_mac = replicate 6 0, rtl_rx_buffer = rx_buffer,
                     rtl_tx_buffers = tx_buffers, rtl_current_tx = 0, rtl_rx_offset = 0\<rparr> w;
         Some (Some d, w)
       }
     }
   }"

definition rtl_get_mac_address :: "Rtl8139Device \<Rightarrow> u8 list" where
  "rtl_get_mac_address d = rtl_mac d"

definition rtl_transmit :: "u8 list \<Rightarrow> Rtl8139Device \<Rightarrow> nic_world \<Rightarrow> bool \<times> Rtl8139Device \<times> nic_world" where
  "rtl_transmit data d w =
     (if length data > unat TX_BUFFER_SIZE then (False, d, w)
      else
        let cur = rtl_current_tx d;
            tx_buffer = rtl_tx_buffers d ! unat cur;
            w = put_mem tx_buffer data w;
            tsd_offset = REG_TSD0 + ucast cur * 4;
            tsad_offset = REG_TSAD0 + ucast cur * 4;
            w = rtl_outl d tsad_offset (ucast tx_buffer) w;
            w = rtl_outl d tsd_offset (of_nat (length data)) w
        in (True, d\<lparr>rtl_current_tx := (cur + 1) mod 4\<rparr>, w))"

text \<open>The three places that move the read offset past a packet do the same computation, in \<open>u16\<close>.\<close>

definition rtl_advance :: "u16 \<Rightarrow> Rtl8139Device \<Rightarrow> nic_world \<Rightarrow> Rtl8139Device \<times> nic_world" where
  "rtl_advance len d w =
     (let new_offset = ((rtl_rx_offset d + len + 4 + 3) AND NOT 3) AND 0xFFFF;
          off = (if new_offset \<ge> ucast RX_BUFFER_SIZE then 0 else new_offset)
      in (d\<lparr>rtl_rx_offset := off\<rparr>, rtl_outw d REG_CAPR (off - 0x10) w))"

definition rtl_dump :: "u8 list \<Rightarrow> nic_world \<Rightarrow> nic_world" where
  "rtl_dump packet w = fold (\<lambda>b. io (Say (hex_pair b @ [32]))) (take 20 packet) w"

definition rtl_receive :: "Rtl8139Device \<Rightarrow> nic_world \<Rightarrow> u8 list option \<times> Rtl8139Device \<times> nic_world" where
  "rtl_receive d w =
     (let (cmd, w) = rtl_inb d REG_CMD w in
      if cmd AND 0x01 \<noteq> 0 then (None, d, w)
      else
        let (capr, w) = rtl_inw d REG_CAPR w;
            (cbr_raw, w) = rtl_inw d 0x3A w;
            w = say_dec '', CAPR='' (ucast (rtl_rx_offset d)) (say ''[RTL8139] RX: rx_offset='' w);
            w = say_dec_line '''' (ucast cbr_raw) (say_dec '', CBR='' (ucast capr) w);
            offset = ucast (rtl_rx_offset d) :: usize
        in
        if offset \<ge> RX_BUFFER_SIZE then
          (None, d\<lparr>rtl_rx_offset := 0\<rparr>,
           rtl_outw d REG_CAPR 0xFFF0 (say_line ''[RTL8139] ERROR: rx_offset out of bounds, resetting'' w))
        else
          let rx_ptr = rtl_rx_buffer d + offset;
              header = of_nat (le_value (load_bytes rx_ptr 4 (kmem w))) :: u32;
              status = ucast (header AND 0xFFFF) :: u16;
              len = ucast (drop_bit 16 header AND 0xFFFF) :: u16;
              w = say_dec '', length='' (ucast status) (say ''[RTL8139] RX Header: status=0x'' w);
              w = say_dec_line '' (includes 4-byte CRC)'' (ucast len) w
          in
          if status AND 0x01 = 0 then
            let packet_len = (if len > 0 then len else 4);
                (d, w) = rtl_advance packet_len d (say_line ''[RTL8139] Bad packet status, skipping'' w)
            in (None, d, w)
          else if len < 4 \<or> len > 1518 then
            let w = say_dec_line '', skipping'' (ucast len) (say ''[RTL8139] Invalid packet length='' w);
                (d, w) = rtl_advance len d w
            in (None, d, w)
          else
            let data_len = unat (len - 4);
                w = say_dec '', length='' (offset + 4) (say ''[RTL8139] Extracting from offset '' w);
                w = say_dec_line '''' (of_nat data_len) (say_dec '', data_len (excl CRC)='' (ucast len) w);
                packet = load_bytes (rx_ptr + 4) data_len (kmem w);
                w = say_line '''' (rtl_dump packet (say ''[RTL8139] Extracted packet (first 20 bytes): '' w));
                (d, w) = rtl_advance len d w;
                w = say_dec_line '''' (of_nat data_len) (say ''[RTL8139] Packet RX, len='' w)
            in (Some packet, d, w))"

definition rtl_handle_interrupt :: "Rtl8139Device \<Rightarrow> nic_world \<Rightarrow> nic_world" where
  "rtl_handle_interrupt d w =
     (let (isr, w) = rtl_inw d REG_ISR (say_line ''[RTL8139] handle_interrupt() called'' w);
          w = say_dec_line '''' (ucast isr) (say ''[RTL8139] ISR value='' w);
          w = rtl_outw d REG_ISR isr w;
          w = (if isr AND INT_ROK \<noteq> 0 then say_line ''[RTL8139] INT_ROK: Packet received interrupt'' w else w)
      in if isr AND INT_TOK \<noteq> 0 then say_line ''[RTL8139] INT_TOK: Packet transmitted interrupt'' w else w)"

definition rtl_drop :: "Rtl8139Device \<Rightarrow> nic_world \<Rightarrow> nic_world" where
  "rtl_drop d w = w_free (rtl_rx_buffer d # rtl_tx_buffers d) w"

text \<open>The exported functions work on the global \<^verbatim>\<open>RTL8139_DEVICE\<close>; storing a new device drops the old one.\<close>

definition rtl8139_init :: "u16 \<Rightarrow> Rtl8139Device option \<Rightarrow> nic_world \<Rightarrow> (int \<times> Rtl8139Device option \<times> nic_world) option" where
  "rtl8139_init io_base g w = do {
     (r, w) \<leftarrow> rtl_new io_base w;
     case r of
       None \<Rightarrow> Some (- 1, g, w)
     | Some d \<Rightarrow> Some (0, Some d, case g of None \<Rightarrow> w | Some old \<Rightarrow> rtl_drop old w)
   }"

definition rtl8139_get_mac :: "Rtl8139Device option \<Rightarrow> u8 list \<Rightarrow> u8 list" where
  "rtl8139_get_mac g mac_out = (case g of None \<Rightarrow> mac_out | Some d \<Rightarrow> rtl_get_mac_address d)"

definition rtl8139_transmit :: "u8 list \<Rightarrow> Rtl8139Device option \<Rightarrow> nic_world \<Rightarrow> int \<times> Rtl8139Device option \<times> nic_world" where
  "rtl8139_transmit data g w =
     (case g of
        None \<Rightarrow> (- 1, None, w)
      | Some d \<Rightarrow> let (ok, d, w) = rtl_transmit data d w in (if ok then 0 else - 1, Some d, w))"

definition rtl8139_receive ::
    "u8 list \<Rightarrow> usize \<Rightarrow> Rtl8139Device option \<Rightarrow> nic_world \<Rightarrow> int \<times> u8 list \<times> Rtl8139Device option \<times> nic_world" where
  "rtl8139_receive buffer max_len g w =
     (case g of
        None \<Rightarrow> (- 1, buffer, None, w)
      | Some d \<Rightarrow>
          let (packet, d, w) = rtl_receive d w in
          case packet of
            None \<Rightarrow> (- 1, buffer, Some d, w)
          | Some p \<Rightarrow>
              let copy_len = min (length p) (unat max_len)
              in (int copy_len, take copy_len p @ drop copy_len buffer, Some d, w))"

definition rtl8139_handle_interrupt :: "Rtl8139Device option \<Rightarrow> nic_world \<Rightarrow> nic_world" where
  "rtl8139_handle_interrupt g w = (case g of None \<Rightarrow> w | Some d \<Rightarrow> rtl_handle_interrupt d w)"

section \<open>Port access\<close>

lemmas rtl_port_defs = rtl_outb_def rtl_outw_def rtl_outl_def rtl_inb_def rtl_inw_def rtl_inl_def

lemma rtl_dump_frame [nic_simps]:
  "kheap (rtl_dump p w) = kheap w" "kmem (rtl_dump p w) = kmem w" "reads (rtl_dump p w) = reads w"
  "answers (rtl_dump p w) = answers w" "wire (rtl_dump p w) = wire w"
  unfolding rtl_dump_def by (rule fold_frame, simp add: nic_simps)+

lemma rtl_wait_reset_frame:
  assumes "rtl_wait_reset d w = Some w'"
  shows "kheap w' = kheap w \<and> kmem w' = kmem w \<and> answers w' = answers w"
proof (rule rtl_wait_reset.raw_induct [of "\<lambda>d w w'. kheap w' = kheap w \<and> kmem w' = kmem w \<and> answers w' = answers w", OF _ assms])
  fix f :: "Rtl8139Device \<Rightarrow> nic_world \<Rightarrow> nic_world option" and d w w'
  assume IH: "\<And>d w y. f d w = Some y \<Longrightarrow> kheap y = kheap w \<and> kmem y = kmem w \<and> answers y = answers w"
    and "(if fst (rtl_inb d REG_CMD w) AND CMD_RESET \<noteq> 0 then f d (snd (rtl_inb d REG_CMD w))
      else Some (snd (rtl_inb d REG_CMD w))) = Some w'"
  then show "kheap w' = kheap w \<and> kmem w' = kmem w \<and> answers w' = answers w"
    using IH [of d "snd (rtl_inb d REG_CMD w)" w']
    by (auto simp: rtl_inb_def Let_def nic_simps split: if_splits)
qed

lemma rtl_read_mac_frame: "kheap (snd (rtl_read_mac d w)) = kheap w"
  unfolding rtl_read_mac_def
  by (subst fold_frame [where f = "\<lambda>x. kheap (snd x)"]) (simp_all add: split_beta Let_def rtl_inb_def nic_simps)

lemma rtl_init_frame:
  assumes "rtl_init d w = Some (d', w')"
  shows "kheap w' = kheap w" "\<exists>mac. d' = d\<lparr>rtl_mac := mac\<rparr>"
  using assms
  by (auto simp: rtl_init_def Let_def split_beta bind_eq_Some_conv rtl_port_defs rtl_read_mac_frame nic_simps
      dest!: rtl_wait_reset_frame)

section \<open>Buffers\<close>

text \<open>The blocks a device owns.\<close>

definition rtl_blocks :: "Rtl8139Device \<Rightarrow> (usize \<times> nat) list" where
  "rtl_blocks d = rev (map (\<lambda>q. (q, 1536)) (rtl_tx_buffers d)) @ [(rtl_rx_buffer d, 9708)]"

lemma rtl_new_blocks:
  assumes "heap_inv base (kheap w)" "rtl_new io_base w = Some (r, w')"
  shows "case r of
      None \<Rightarrow> holds_blocks base w [] w'
    | Some d \<Rightarrow> holds_blocks base w (rtl_blocks d) w' \<and> length (rtl_tx_buffers d) = 4 \<and>
        rtl_current_tx d = 0 \<and> rtl_rx_offset d = 0 \<and> rtl_io_base d = io_base"
proof -
  from assms(2) obtain p w1 where p: "w_malloc RX_BUFFER_SIZE w = Some (p, w1)"
    by (auto simp: rtl_new_def bind_eq_Some_conv)
  note start = holds_blocks_start [OF assms(1)]
  show ?thesis
  proof (cases "p = 0")
    case True
    then have "holds_blocks base w [] w1" using w_malloc_null [of RX_BUFFER_SIZE w w1] p start by simp
    with True assms(2) p show ?thesis by (simp add: rtl_new_def)
  next
    case False
    then have h1: "holds_blocks base w [(p, 9708)] w1"
      using w_malloc_block [OF p _ start] by (simp add: RX_BUFFER_SIZE_def)
    from assms(2) p False obtain qs full w2 where q: "w_alloc_bufs 4 TX_BUFFER_SIZE w1 = Some (qs, full, w2)"
      by (auto simp: rtl_new_def bind_eq_Some_conv)
    then have h2: "holds_blocks base w (rev (map (\<lambda>q. (q, 1536)) qs) @ [(p, 9708)]) w2" "full \<longleftrightarrow> length qs = 4"
      using w_alloc_bufs_blocks [OF q h1] by (simp_all add: TX_BUFFER_SIZE_def)
    show ?thesis
    proof (cases full)
      case True
      with assms(2) p False q obtain d where d: "r = Some d" and i: "rtl_init \<lparr>rtl_io_base = io_base, rtl_mac = replicate 6 0,
          rtl_rx_buffer = p, rtl_tx_buffers = qs, rtl_current_tx = 0, rtl_rx_offset = 0\<rparr> w2 = Some (d, w')"
        by (auto simp: rtl_new_def bind_eq_Some_conv)
      from rtl_init_frame(2) [OF i] h2 True show ?thesis
        by (auto simp: d rtl_blocks_def holds_blocks_kheap [OF rtl_init_frame(1) [OF i]])
    next
      case False
      then have r: "r = None" "w' = w_free (p # qs) w2" using assms(2) p q \<open>p \<noteq> 0\<close> by (simp_all add: rtl_new_def)
      have "holds_blocks base w [] (w_free (p # qs) w2)"
        by (rule w_free_blocks [OF h2(1)]) (use holds_blocks_distinct [OF h2(1)] in \<open>auto simp: comp_def image_image\<close>)
      then show ?thesis by (simp add: r)
    qed
  qed
qed

lemma rtl_drop_restores:
  assumes "holds_blocks base w (rtl_blocks d) w'"
  shows "holds_blocks base w [] (rtl_drop d w')"
  unfolding rtl_drop_def
  by (rule w_free_blocks [OF assms])
    (use holds_blocks_distinct [OF assms] in \<open>auto simp: rtl_blocks_def comp_def image_image\<close>)

section \<open>Reception\<close>

lemma unat_and_low: "unat (x AND 0xFFFF :: u32) = unat x mod 65536"
proof -
  have m: "(0xFFFF :: u32) = mask 16" by (simp add: mask_eq_exp_minus_1)
  show ?thesis unfolding m by (simp add: take_bit_eq_mask [symmetric] unsigned_take_bit_eq take_bit_eq_mod unat_mod)
qed

lemma unat_high: "unat (drop_bit 16 x :: u32) = unat x div 65536"
  by (simp add: unsigned_drop_bit_eq drop_bit_eq_div unat_div)

lemma unat_ucast16: "unat (ucast (x::u32) :: u16) = unat x mod 65536"
  by (simp add: unsigned_ucast_eq take_bit_eq_mod)

lemma and_ffff: "x AND 0xFFFF = (x :: u16)"
proof -
  have m: "(0xFFFF :: u16) = - 1" by simp
  show ?thesis unfolding m by simp
qed

text \<open>The read offset after a packet, on natural numbers.\<close>

definition rx_next :: "nat \<Rightarrow> nat \<Rightarrow> nat" where
  "rx_next off len = (let n = (off + len + 7) mod 65536 div 4 * 4 in if n \<ge> 9708 then 0 else n)"

lemma rtl_advance_offset:
  "unat (rtl_rx_offset (fst (rtl_advance len d w))) = rx_next (unat (rtl_rx_offset d)) (unat len)"
proof -
  define n where "n = (rtl_rx_offset d + len + 4 + 3) AND NOT 3"
  have m: "(3 :: u16) = mask 2" by (simp add: mask_eq_exp_minus_1)
  have u: "unat n = (unat (rtl_rx_offset d) + unat len + 7) mod 65536 div 4 * 4"
    unfolding n_def m by (simp only: unat_and_not_mask) (simp add: m [symmetric] unat_word_ariths mod_simps add.assoc)
  have "ucast RX_BUFFER_SIZE \<le> n \<longleftrightarrow> 9708 \<le> unat n" by (simp add: RX_BUFFER_SIZE_def word_le_nat_alt)
  moreover have "rtl_rx_offset (fst (rtl_advance len d w)) = (if ucast RX_BUFFER_SIZE \<le> n then 0 else n)"
    unfolding rtl_advance_def Let_def and_ffff n_def [symmetric] by simp
  ultimately show ?thesis by (simp add: rx_next_def Let_def u [symmetric])
qed

definition rtl_past :: "u16 \<Rightarrow> Rtl8139Device \<Rightarrow> Rtl8139Device" where
  "rtl_past len d = d\<lparr>rtl_rx_offset := of_nat (rx_next (unat (rtl_rx_offset d)) (unat len))\<rparr>"

lemma rtl_advance_eq:
  "rtl_advance len d w =
     (rtl_past len d, rtl_outw d REG_CAPR (rtl_rx_offset (rtl_past len d) - 0x10) w)"
  using rtl_advance_offset [of len d w, symmetric]
  by (simp add: rtl_past_def) (simp add: rtl_advance_def Let_def)

lemma rx_next_bounds: "rx_next off len < 9708" "4 dvd rx_next off len"
  by (auto simp: rx_next_def Let_def)

text \<open>What every call keeps: the offset stays inside the buffer and aligned, the transmit index below four.\<close>

definition rtl_ok :: "Rtl8139Device \<Rightarrow> bool" where
  "rtl_ok d \<longleftrightarrow> unat (rtl_rx_offset d) < 9708 \<and> 4 dvd unat (rtl_rx_offset d) \<and> unat (rtl_current_tx d) < 4 \<and>
     length (rtl_tx_buffers d) = 4"

lemma rtl_past_offset: "unat (rtl_rx_offset (rtl_past len d)) = rx_next (unat (rtl_rx_offset d)) (unat len)"
  using rtl_advance_offset [of len d] by (simp add: rtl_advance_eq)

lemma rtl_past_same [simp]: "rtl_rx_buffer (rtl_past len d) = rtl_rx_buffer d"
  "rtl_tx_buffers (rtl_past len d) = rtl_tx_buffers d" "rtl_current_tx (rtl_past len d) = rtl_current_tx d"
  "rtl_io_base (rtl_past len d) = rtl_io_base d" "rtl_mac (rtl_past len d) = rtl_mac d"
  by (simp_all add: rtl_past_def)

lemma rtl_past_ok: "rtl_ok d \<Longrightarrow> rtl_ok (rtl_past len d)"
  using rx_next_bounds by (simp add: rtl_ok_def rtl_past_offset)

lemma header_fields:
  assumes "st < 65536" "n < 65536"
  shows "ucast ((of_nat (le_value (le_bytes 2 st @ le_bytes 2 n)) :: u32) AND 0xFFFF) = (of_nat st :: u16)"
    "ucast (drop_bit 16 (of_nat (le_value (le_bytes 2 st @ le_bytes 2 n)) :: u32) AND 0xFFFF) = (of_nat n :: u16)"
proof -
  let ?h = "of_nat (st + 65536 * n) :: u32"
  have v: "le_value (le_bytes 2 st @ le_bytes 2 n) = st + 65536 * n"
    using assms by (simp add: le_value_append le_value_bytes)
  have h: "unat ?h = st + 65536 * n" using assms by (intro unat_of_nat_u32) simp
  have "unat (ucast (?h AND 0xFFFF) :: u16) = unat (of_nat st :: u16)"
    unfolding unat_ucast16 unat_and_low h using assms by (simp add: unsigned_of_nat take_bit_eq_mod)
  then show "ucast ((of_nat (le_value (le_bytes 2 st @ le_bytes 2 n)) :: u32) AND 0xFFFF) = (of_nat st :: u16)"
    unfolding v by (simp only: word_unat_eq_iff)
  have "unat (ucast (drop_bit 16 ?h AND 0xFFFF) :: u16) = unat (of_nat n :: u16)"
    unfolding unat_ucast16 unat_and_low unat_high h using assms by (simp add: unsigned_of_nat take_bit_eq_mod)
  then show "ucast (drop_bit 16 (of_nat (le_value (le_bytes 2 st @ le_bytes 2 n)) :: u32) AND 0xFFFF) = (of_nat n :: u16)"
    unfolding v by (simp only: word_unat_eq_iff)
qed

text \<open>A packet of the device at the read offset: a status with bit 0 set, the length of frame and checksum,
  the frame.\<close>

definition packet_at :: "memory \<Rightarrow> usize \<Rightarrow> u8 list \<Rightarrow> bool" where
  "packet_at m p frame \<longleftrightarrow> length frame \<le> 1514 \<and>
     (\<exists>st < 65536. odd st \<and> load_bytes p 4 m = le_bytes 2 st @ le_bytes 2 (length frame + 4)) \<and>
     load_bytes (p + 4) (length frame) m = frame"

lemma ucast_offset: "unat (ucast (x :: u16) :: usize) = unat x"
  using u16_bound [of x] by (simp add: unsigned_ucast_eq take_bit_nat_eq_self)

lemma rtl_receive_packet:
  assumes "(ucast (answers w (reads w)) :: u8) AND 1 = 0" "unat (rtl_rx_offset d) < 9708"
    and "packet_at (kmem w) (rtl_rx_buffer d + ucast (rtl_rx_offset d)) frame"
  obtains w' where "rtl_receive d w = (Some frame, rtl_past (of_nat (length frame + 4)) d, w')"
    "kmem w' = kmem w" "kheap w' = kheap w" "answers w' = answers w" "reads w' = reads w + 3"
    "wire w' = wire w @ [In_port (rtl_io_base d + REG_CMD), In_port (rtl_io_base d + REG_CAPR), In_port (rtl_io_base d + 0x3A),
       Outw (rtl_io_base d + REG_CAPR) (rtl_rx_offset (rtl_past (of_nat (length frame + 4)) d) - 0x10)]"
proof -
  let ?p = "rtl_rx_buffer d + ucast (rtl_rx_offset d)" and ?n = "length frame + 4"
  obtain st where st: "st < 65536" "odd st" "load_bytes ?p 4 (kmem w) = le_bytes 2 st @ le_bytes 2 ?n"
    and n: "?n < 65536" "length frame \<le> 1514" and fr: "load_bytes (?p + 4) (length frame) (kmem w) = frame"
    using assms(3) by (auto simp: packet_at_def)
  have off: "\<not> RX_BUFFER_SIZE \<le> ucast (rtl_rx_offset d)"
    using assms(2) by (simp add: word_le_nat_alt ucast_offset RX_BUFFER_SIZE_def)
  have un: "unat (of_nat ?n :: u16) = ?n" using n(1) by (rule unat_of_nat_u16)
  have st1: "(of_nat st :: u16) AND 1 \<noteq> 0" using st by (simp add: and_1_even unsigned_of_nat take_bit_eq_mod)
  have len: "\<not> ((of_nat ?n :: u16) < 4 \<or> 1518 < (of_nat ?n :: u16))" using n un by (simp add: word_less_nat_alt)
  have dl: "unat (of_nat ?n - 4 :: u16) = length frame" using n by (simp add: unat_of_nat_u16)
  note fields = header_fields [OF st(1) n(1)]
  note steps = rtl_port_defs nic_simps rtl_advance_eq Let_def split_beta
  show thesis
    using that [of "snd (snd (rtl_receive d w))"] assms(1) off st1 len
    by (simp add: rtl_receive_def steps st(3) fields dl fr del: of_nat_add of_nat_numeral)
qed

text \<open>Every call of \<^verbatim>\<open>receive\<close> keeps the device well-formed and leaves heap and memory alone; a well-formed
  device never takes the branch that resets the offset.\<close>

lemma rtl_receive_keeps:
  assumes "rtl_ok d" "rtl_receive d w = (r, d', w')"
  shows "rtl_ok d'" "kmem w' = kmem w" "kheap w' = kheap w" "answers w' = answers w"
    "\<exists>len. d' = d \<or> d' = rtl_past len d"
proof -
  have off: "\<not> RX_BUFFER_SIZE \<le> ucast (rtl_rx_offset d)"
    using assms(1) by (simp add: rtl_ok_def word_le_nat_alt ucast_offset RX_BUFFER_SIZE_def)
  note step = assms(2) [unfolded rtl_receive_def Let_def split_beta rtl_advance_eq]
  show dev: "\<exists>len. d' = d \<or> d' = rtl_past len d"
    using step off by (simp split: if_splits) blast+
  then show "rtl_ok d'" using assms(1) rtl_past_ok by blast
  show "kmem w' = kmem w" "kheap w' = kheap w" "answers w' = answers w"
    using step off by (auto simp: rtl_port_defs nic_simps Let_def split: if_splits)
qed

lemma rtl_transmit_exact:
  assumes "rtl_ok d" "length data \<le> 1536"
  shows "rtl_transmit data d w =
    (True, d\<lparr>rtl_current_tx := (rtl_current_tx d + 1) mod 4\<rparr>,
     io (Outl (rtl_io_base d + (REG_TSD0 + ucast (rtl_current_tx d) * 4)) (of_nat (length data)))
       (io (Outl (rtl_io_base d + (REG_TSAD0 + ucast (rtl_current_tx d) * 4)) (ucast (rtl_tx_buffers d ! unat (rtl_current_tx d))))
         (put_mem (rtl_tx_buffers d ! unat (rtl_current_tx d)) data w)))"
  using assms by (simp add: rtl_transmit_def TX_BUFFER_SIZE_def Let_def rtl_port_defs)

lemma rtl_transmit_too_large: "length data > 1536 \<Longrightarrow> rtl_transmit data d w = (False, d, w)"
  by (simp add: rtl_transmit_def TX_BUFFER_SIZE_def)

lemma rtl_next_slot: "unat ((x + 1) mod 4 :: usize) < 4"
  by (simp add: unat_mod)

lemma rtl_transmit_keeps: "rtl_ok d \<Longrightarrow> rtl_transmit data d w = (r, d', w') \<Longrightarrow> rtl_ok d' \<and> kheap w' = kheap w"
  using rtl_next_slot [of "rtl_current_tx d"] rtl_transmit_exact [of d data w] rtl_transmit_too_large [of data d w]
  by (cases "length data \<le> 1536") (auto simp: rtl_ok_def nic_simps)

section \<open>A burst of packets\<close>

fun rtl_receives :: "nat \<Rightarrow> Rtl8139Device \<Rightarrow> nic_world \<Rightarrow> u8 list option list \<times> Rtl8139Device \<times> nic_world" where
  "rtl_receives 0 d w = ([], d, w)"
| "rtl_receives (Suc n) d w =
     (let (r, d, w) = rtl_receive d w; (rs, d, w) = rtl_receives n d w in (r # rs, d, w))"

text \<open>Packets one after the other in the receive buffer, each at the offset where the driver looks for it.\<close>

fun ring_holds :: "memory \<Rightarrow> usize \<Rightarrow> nat \<Rightarrow> u8 list list \<Rightarrow> bool" where
  "ring_holds m buf off [] = True"
| "ring_holds m buf off (f # fs) =
     (packet_at m (buf + of_nat off) f \<and> ring_holds m buf (rx_next off (length f + 4)) fs)"

lemma of_nat_ucast_offset: "(of_nat (unat (x :: u16)) :: usize) = ucast x"
  by (simp add: word_unat_eq_iff ucast_offset unat_of_nat_u64 [OF less_trans [OF u16_bound]])

lemma rtl_receives_burst:
  assumes "rtl_ok d" "ring_holds (kmem w) (rtl_rx_buffer d) (unat (rtl_rx_offset d)) fs"
    and "\<And>i. i < length fs \<Longrightarrow> (ucast (answers w (reads w + 3 * i)) :: u8) AND 1 = 0"
  shows "\<exists>d' w'. rtl_receives (length fs) d w = (map Some fs, d', w') \<and> rtl_ok d' \<and> kmem w' = kmem w"
  using assms
proof (induction fs arbitrary: d w)
  case (Cons f fs)
  have at: "packet_at (kmem w) (rtl_rx_buffer d + ucast (rtl_rx_offset d)) f" using Cons.prems(2) by (simp add: of_nat_ucast_offset)
  obtain w1 where w1: "rtl_receive d w = (Some f, rtl_past (of_nat (length f + 4)) d, w1)"
    "kmem w1 = kmem w" "answers w1 = answers w" "reads w1 = reads w + 3"
    using rtl_receive_packet [OF _ _ at] Cons.prems(1) Cons.prems(3) [of 0] by (auto simp: rtl_ok_def)
  have n: "unat (of_nat (length f + 4) :: u16) = length f + 4"
    using at by (intro unat_of_nat_u16) (simp add: packet_at_def)
  have "\<exists>d' w'. rtl_receives (length fs) (rtl_past (of_nat (length f + 4)) d) w1 = (map Some fs, d', w') \<and> rtl_ok d' \<and> kmem w' = kmem w1"
  proof (rule Cons.IH)
    show "ring_holds (kmem w1) (rtl_rx_buffer (rtl_past (of_nat (length f + 4)) d))
        (unat (rtl_rx_offset (rtl_past (of_nat (length f + 4)) d))) fs"
      using Cons.prems(2) w1(2) by (simp only: rtl_past_offset n rtl_past_same ring_holds.simps)
    show "(ucast (answers w1 (reads w1 + 3 * i)) :: u8) AND 1 = 0" if "i < length fs" for i
      using Cons.prems(3) [of "Suc i"] that w1(3,4) by (simp add: add.assoc)
  qed (rule rtl_past_ok [OF Cons.prems(1)])
  with w1 show ?case by (auto simp del: of_nat_add)
qed simp

section \<open>The software reset\<close>

text \<open>The wait ends exactly when the device answers some later read of the command register with the reset bit
  clear.\<close>

lemma rtl_wait_reset_returns:
  assumes "(ucast (answers w (reads w + n)) :: u8) AND CMD_RESET = 0"
  shows "\<exists>w'. rtl_wait_reset d w = Some w'"
  using assms
proof (induction n arbitrary: w)
  case 0
  then show ?case by (subst rtl_wait_reset.simps) (simp add: rtl_inb_def Let_def nic_simps)
next
  case (Suc n)
  have "\<exists>w'. rtl_wait_reset d (snd (rtl_inb d REG_CMD w)) = Some w'"
    by (rule Suc.IH) (use Suc.prems in \<open>simp add: rtl_inb_def Let_def nic_simps\<close>)
  then show ?case by (subst rtl_wait_reset.simps) simp
qed

lemma rtl_wait_reset_only:
  assumes "rtl_wait_reset d w = Some w'"
  shows "\<exists>n \<ge> reads w. (ucast (answers w n) :: u8) AND CMD_RESET = 0"
proof (rule rtl_wait_reset.raw_induct [of "\<lambda>d w w'. \<exists>n \<ge> reads w. (ucast (answers w n) :: u8) AND CMD_RESET = 0", OF _ assms])
  fix f :: "Rtl8139Device \<Rightarrow> nic_world \<Rightarrow> nic_world option" and d w w'
  assume IH: "\<And>d w y. f d w = Some y \<Longrightarrow> \<exists>n \<ge> reads w. (ucast (answers w n) :: u8) AND CMD_RESET = 0"
    and s: "(if fst (rtl_inb d REG_CMD w) AND CMD_RESET \<noteq> 0 then f d (snd (rtl_inb d REG_CMD w))
      else Some (snd (rtl_inb d REG_CMD w))) = Some w'"
  show "\<exists>n \<ge> reads w. (ucast (answers w n) :: u8) AND CMD_RESET = 0"
  proof (cases "fst (rtl_inb d REG_CMD w) AND CMD_RESET = 0")
    case True
    then show ?thesis by (intro exI [of _ "reads w"]) (simp add: rtl_inb_def Let_def nic_simps)
  next
    case False
    with s IH [of d "snd (rtl_inb d REG_CMD w)" w'] show ?thesis
      by (auto simp: rtl_inb_def Let_def nic_simps dest: Suc_leD)
  qed
qed

lemma rtl_new_returns:
  assumes "heap_inv base (kheap w)" "n \<ge> reads w" "(ucast (answers w n) :: u8) AND CMD_RESET = 0"
  shows "\<exists>r w'. rtl_new io_base w = Some (r, w')"
proof -
  obtain p w1 where p: "w_malloc RX_BUFFER_SIZE w = Some (p, w1)" using w_malloc_returns [OF assms(1)] by blast
  have h1: "heap_inv base (kheap w1)" "answers w1 = answers w" "reads w1 = reads w"
    using p kernel_heap.malloc_inv [OF assms(1)] by (auto simp: w_malloc_def bind_eq_Some_conv)
  obtain qs full w2 where q: "w_alloc_bufs 4 TX_BUFFER_SIZE w1 = Some (qs, full, w2)"
    using w_alloc_bufs_returns [OF h1(1)] by blast
  have h2: "answers w2 = answers w" "reads w2 = reads w"
    using q h1 by (auto simp: w_alloc_bufs_def bind_eq_Some_conv)
  have init: "\<exists>d' w'. rtl_init d w2 = Some (d', w')" for d
  proof -
    let ?w = "rtl_outb d REG_CMD CMD_RESET (say_line ''[RTL8139] Performing software reset...''
      (rtl_outb d REG_CONFIG1 0x00 (say_line ''[RTL8139] Initializing network device...'' w2)))"
    have "(ucast (answers ?w (reads ?w + (n - reads w))) :: u8) AND CMD_RESET = 0"
      using assms(2,3) h2 by (simp add: rtl_outb_def nic_simps)
    then obtain w3 where "rtl_wait_reset d ?w = Some w3" using rtl_wait_reset_returns by blast
    then show ?thesis by (simp add: rtl_init_def Let_def split_beta)
  qed
  obtain d' w' where "rtl_init \<lparr>rtl_io_base = io_base, rtl_mac = replicate 6 0, rtl_rx_buffer = p,
      rtl_tx_buffers = qs, rtl_current_tx = 0, rtl_rx_offset = 0\<rparr> w2 = Some (d', w')" using init by blast
  with p q show ?thesis by (simp add: rtl_new_def)
qed

section \<open>Properties\<close>

text \<open>A device with two packets waiting: four bytes, then two.\<close>

definition demo_rtl :: Rtl8139Device where
  "demo_rtl = \<lparr>rtl_io_base = 0xC000, rtl_mac = [2, 0, 0, 0, 0, 1], rtl_rx_buffer = 0x10000,
     rtl_tx_buffers = [0x20000, 0x21000, 0x22000, 0x23000], rtl_current_tx = 0, rtl_rx_offset = 0\<rparr>"

definition demo_rtl_world :: nic_world where
  "demo_rtl_world = \<lparr>answers = \<lambda>_. 0, reads = 0, io_log = [],
     kmem = store_bytes 0x10000 [1, 0, 8, 0, 10, 20, 30, 40, 0, 0, 0, 0, 1, 0, 6, 0, 50, 60] (\<lambda>_. 0),
     kheap = boot_heap\<rparr>"


lemma demo_rtl_ring:
  "ring_holds (kmem demo_rtl_world) (rtl_rx_buffer demo_rtl) (unat (rtl_rx_offset demo_rtl)) [[10, 20, 30, 40], [50, 60]]"
proof -
  have a: "packet_at (kmem demo_rtl_world) 0x10000 [10, 20, 30, 40]" unfolding packet_at_def
    by (intro conjI exI [of _ 1]) (simp_all add: demo_rtl_world_def load_bytes_def le_bytes_def upt_rec)
  have b: "packet_at (kmem demo_rtl_world) (0x10000 + 12) [50, 60]" unfolding packet_at_def
    by (intro conjI exI [of _ 1]) (simp_all add: demo_rtl_world_def load_bytes_def le_bytes_def upt_rec)
  from a b show ?thesis by (simp add: demo_rtl_def rx_next_def)
qed


end
