(* ===== verification/Nic_E1000.thy ===== *)
theory Nic_E1000
  imports Nic_Hardware
begin

text \<open>
  The Intel E1000 driver (\<^verbatim>\<open>kernel-rs/src/e1000.rs\<close>): memory-mapped registers, two rings of 32
  descriptors of 16 bytes in kernel memory, and one buffer of 2048 bytes per descriptor.

  A descriptor field is read and written in kernel memory at its offset in the packed struct. While
  \<^verbatim>\<open>transmit\<close> spins on the status of a descriptor the device may write to memory; \<open>dma n\<close> is what it
  does to it during the \<open>n\<close>-th round, an argument of the function. If the status never changes, the
  call does not return and the result is \<open>None\<close>.
\<close>

section \<open>Definitions\<close>

definition REG_CTRL :: u32 where "REG_CTRL = 0x00000"
definition REG_EEPROM :: u32 where "REG_EEPROM = 0x00014"
definition REG_IMASK :: u32 where "REG_IMASK = 0x000D0"
definition REG_RCTRL :: u32 where "REG_RCTRL = 0x00100"
definition REG_RXDESCLO :: u32 where "REG_RXDESCLO = 0x02800"
definition REG_RXDESCHI :: u32 where "REG_RXDESCHI = 0x02804"
definition REG_RXDESCLEN :: u32 where "REG_RXDESCLEN = 0x02808"
definition REG_RXDESCHEAD :: u32 where "REG_RXDESCHEAD = 0x02810"
definition REG_RXDESCTAIL :: u32 where "REG_RXDESCTAIL = 0x02818"
definition REG_TCTRL :: u32 where "REG_TCTRL = 0x00400"
definition REG_TXDESCLO :: u32 where "REG_TXDESCLO = 0x03800"
definition REG_TXDESCHI :: u32 where "REG_TXDESCHI = 0x03804"
definition REG_TXDESCLEN :: u32 where "REG_TXDESCLEN = 0x03808"
definition REG_TXDESCHEAD :: u32 where "REG_TXDESCHEAD = 0x03810"
definition REG_TXDESCTAIL :: u32 where "REG_TXDESCTAIL = 0x03818"
definition REG_TIPG :: u32 where "REG_TIPG = 0x00410"

definition CTRL_ASDE :: u32 where "CTRL_ASDE = 0x00000020"
definition CTRL_SLU :: u32 where "CTRL_SLU = 0x00000040"
definition CTRL_RST :: u32 where "CTRL_RST = 0x04000000"

definition RCTL_EN :: u32 where "RCTL_EN = 0x00000002"
definition RCTL_SBP :: u32 where "RCTL_SBP = 0x00000004"
definition RCTL_UPE :: u32 where "RCTL_UPE = 0x00000008"
definition RCTL_MPE :: u32 where "RCTL_MPE = 0x00000010"
definition RCTL_BAM :: u32 where "RCTL_BAM = 0x00008000"
definition RCTL_BSIZE :: u32 where "RCTL_BSIZE = 0x00030000"
definition RCTL_SECRC :: u32 where "RCTL_SECRC = 0x04000000"

definition TCTL_EN :: u32 where "TCTL_EN = 0x00000002"
definition TCTL_PSP :: u32 where "TCTL_PSP = 0x00000008"

definition DESC_STATUS_DD :: u8 where "DESC_STATUS_DD = 0x01"

definition e1000_NUM_RX_DESC :: nat where "e1000_NUM_RX_DESC = 32"
definition e1000_NUM_TX_DESC :: nat where "e1000_NUM_TX_DESC = 32"

text \<open>The packed descriptors: \<^verbatim>\<open>addr\<close> at byte 0, \<^verbatim>\<open>length\<close> at 8, the transmit command at 11, \<^verbatim>\<open>status\<close> at 12.\<close>

definition e1000_desc :: "usize \<Rightarrow> nat \<Rightarrow> usize" where
  "e1000_desc ring i = ring + of_nat (16 * i)"

definition size_of_e1000_desc :: nat where "size_of_e1000_desc = 16"

record E1000Device =
  e_mem_base :: u64
  e_mac :: "u8 list"
  e_rx_descs :: usize
  e_tx_descs :: usize
  e_rx_buffers :: "usize list"
  e_tx_buffers :: "usize list"
  e_rx_current :: usize
  e_tx_current :: usize

definition e_read_reg :: "E1000Device \<Rightarrow> u32 \<Rightarrow> nic_world \<Rightarrow> u32 \<times> nic_world" where
  "e_read_reg d offset = io_read (Mmio_read (e_mem_base d + ucast offset))"

definition e_write_reg :: "E1000Device \<Rightarrow> u32 \<Rightarrow> u32 \<Rightarrow> nic_world \<Rightarrow> nic_world" where
  "e_write_reg d offset v = io (Mmio_write (e_mem_base d + ucast offset) v)"

fun eeprom_wait :: "nat \<Rightarrow> E1000Device \<Rightarrow> nic_world \<Rightarrow> u16 \<times> nic_world" where
  "eeprom_wait 0 d w = (0, w)"
| "eeprom_wait (Suc n) d w =
     (let (val, w) = e_read_reg d REG_EEPROM w in
      if val AND 0x10 \<noteq> 0 then (ucast (drop_bit 16 val AND 0xFFFF), w) else eeprom_wait n d w)"

definition read_eeprom :: "E1000Device \<Rightarrow> u8 \<Rightarrow> nic_world \<Rightarrow> u16 \<times> nic_world" where
  "read_eeprom d addr w = eeprom_wait 1000 d (e_write_reg d REG_EEPROM (1 OR push_bit 8 (ucast addr)) w)"

fun e_wait_reset :: "nat \<Rightarrow> E1000Device \<Rightarrow> nic_world \<Rightarrow> nic_world" where
  "e_wait_reset 0 d w = w"
| "e_wait_reset (Suc n) d w =
     (let (v, w) = e_read_reg d REG_CTRL w in if v AND CTRL_RST = 0 then w else e_wait_reset n d w)"

definition all_zero :: "u8 list \<Rightarrow> bool" where
  "all_zero mac \<longleftrightarrow> list_all (\<lambda>b. b = 0) mac"

text \<open>The address: three words of the EEPROM, else the receive address registers, else one made from the
  register base.\<close>

definition e_find_mac :: "E1000Device \<Rightarrow> nic_world \<Rightarrow> u8 list \<times> nic_world" where
  "e_find_mac d w =
     (let (mac0, w) = read_eeprom d 0 w;
          (mac1, w) = read_eeprom d 1 w;
          (mac2, w) = read_eeprom d 2 w;
          mac = [ucast (mac0 AND 0xFF), ucast (drop_bit 8 mac0 AND 0xFF), ucast (mac1 AND 0xFF),
                 ucast (drop_bit 8 mac1 AND 0xFF), ucast (mac2 AND 0xFF), ucast (drop_bit 8 mac2 AND 0xFF)] :: u8 list
      in
      if \<not> all_zero mac then (mac, say_line ''[E1000] MAC read from EEPROM'' w)
      else
        let (ral0, w) = e_read_reg d 0x5400 w;
            (rah0, w) = e_read_reg d 0x5404 w;
            mac = [ucast (ral0 AND 0xFF), ucast (drop_bit 8 ral0 AND 0xFF), ucast (drop_bit 16 ral0 AND 0xFF),
                   ucast (drop_bit 24 ral0 AND 0xFF), ucast (rah0 AND 0xFF), ucast (drop_bit 8 rah0 AND 0xFF)] :: u8 list
        in
        if \<not> all_zero mac then (mac, say_line ''[E1000] MAC read from RAL/RAH registers'' w)
        else
          let seed = e_mem_base d in
          ([0x02, 0xAA, ucast (seed AND 0xFF), ucast (drop_bit 8 seed AND 0xFF), ucast (drop_bit 16 seed AND 0xFF),
            ucast (drop_bit 24 seed AND 0xFF)],
           say_line ''[E1000] WARNING: MAC all zeros; synthesizing locally administered MAC'' w))"

definition mac_nibble :: "u8 \<Rightarrow> u8" where
  "mac_nibble n = (let c = ch_zero + n in if c > 57 then 65 + (c - ch_zero - 10) else c)"

definition mac_line :: "nat \<Rightarrow> u8 \<Rightarrow> u8 list" where
  "mac_line i hex = bytes ''[MAC '' @ [ch_zero + of_nat i, 58, mac_nibble (drop_bit 4 hex AND 0xF), mac_nibble (hex AND 0xF), 93, ch_newline]"

definition e_init :: "E1000Device \<Rightarrow> nic_world \<Rightarrow> E1000Device \<times> nic_world" where
  "e_init d w =
     (let w = say_line ''[E1000] Initializing Intel E1000 network device...'' w;
          (ctrl, w) = e_read_reg d REG_CTRL w;
          w = e_wait_reset 1000 d (e_write_reg d REG_CTRL (ctrl OR CTRL_RST) w);
          (mac, w) = e_find_mac d w;
          d = d\<lparr>e_mac := mac\<rparr>;
          w = fold (\<lambda>i. io (Say (mac_line i (mac ! i)))) [0..<6] w;
          (ctrl, w) = e_read_reg d REG_CTRL w;
          w = e_write_reg d REG_CTRL (ctrl OR CTRL_SLU OR CTRL_ASDE) w;
          w = fold (\<lambda>i. e_write_reg d (0x5200 + of_nat i * 4) 0) [0..<128] w;
          w = e_write_reg d REG_IMASK 0 w;
          w = snd (e_read_reg d 0xC0 w);
          w = fold (\<lambda>i w. put_mem (e1000_desc (e_rx_descs d) i + 12) [0]
                 (put_mem (e1000_desc (e_rx_descs d) i) (le_bytes 8 (unat (e_rx_buffers d ! i))) w)) [0..<e1000_NUM_RX_DESC] w;
          w = e_write_reg d REG_RXDESCLO (ucast (e_rx_descs d)) w;
          w = e_write_reg d REG_RXDESCHI (ucast (drop_bit 32 (e_rx_descs d))) w;
          w = e_write_reg d REG_RXDESCLEN (of_nat (e1000_NUM_RX_DESC * size_of_e1000_desc)) w;
          w = e_write_reg d REG_RXDESCHEAD 0 w;
          w = e_write_reg d REG_RXDESCTAIL (of_nat (e1000_NUM_RX_DESC - 1)) w;
          w = fold (\<lambda>i w. put_mem (e1000_desc (e_tx_descs d) i + 11) [0]
                 (put_mem (e1000_desc (e_tx_descs d) i + 12) [DESC_STATUS_DD]
                   (put_mem (e1000_desc (e_tx_descs d) i) (le_bytes 8 (unat (e_tx_buffers d ! i))) w))) [0..<e1000_NUM_TX_DESC] w;
          w = e_write_reg d REG_TXDESCLO (ucast (e_tx_descs d)) w;
          w = e_write_reg d REG_TXDESCHI (ucast (drop_bit 32 (e_tx_descs d))) w;
          w = e_write_reg d REG_TXDESCLEN (of_nat (e1000_NUM_TX_DESC * size_of_e1000_desc)) w;
          w = e_write_reg d REG_TXDESCHEAD 0 w;
          w = e_write_reg d REG_TXDESCTAIL 0 w;
          w = e_write_reg d REG_RCTRL (RCTL_EN OR RCTL_SBP OR RCTL_UPE OR RCTL_MPE OR RCTL_BAM OR RCTL_BSIZE OR RCTL_SECRC) w;
          w = e_write_reg d REG_TCTRL (TCTL_EN OR TCTL_PSP OR push_bit 4 15 OR push_bit 12 64) w;
          w = e_write_reg d REG_TIPG 0x0060200A w
      in (d, say_line ''[E1000] Device initialized successfully'' w))"

text \<open>The release order on a refused allocation is the source's: receive buffers, transmit buffers, rings.\<close>

definition e_new :: "u64 \<Rightarrow> nic_world \<Rightarrow> (E1000Device option \<times> nic_world) option" where
  "e_new mem_base w = do {
     (rx_descs, w) \<leftarrow> w_malloc (of_nat (size_of_e1000_desc * e1000_NUM_RX_DESC)) w;
     (tx_descs, w) \<leftarrow> w_malloc (of_nat (size_of_e1000_desc * e1000_NUM_TX_DESC)) w;
     if rx_descs = 0 \<or> tx_descs = 0 then
       let w = (if rx_descs \<noteq> 0 then w_free [rx_descs] w else w);
           w = (if tx_descs \<noteq> 0 then w_free [tx_descs] w else w)
       in Some (None, w)
     else do {
       (rx_buffers, full, w) \<leftarrow> w_alloc_bufs e1000_NUM_RX_DESC 2048 w;
       if \<not> full then Some (None, w_free (rx_buffers @ [rx_descs, tx_descs]) w)
       else do {
         (tx_buffers, full, w) \<leftarrow> w_alloc_bufs e1000_NUM_TX_DESC 2048 w;
         if \<not> full then Some (None, w_free (rx_buffers @ tx_buffers @ [rx_descs, tx_descs]) w)
         else
           let (d, w) = e_init \<lparr>e_mem_base = mem_base, e_mac = replicate 6 0, e_rx_descs = rx_descs, e_tx_descs = tx_descs,
                 e_rx_buffers = rx_buffers, e_tx_buffers = tx_buffers, e_rx_current = 0, e_tx_current = 0\<rparr> w
           in Some (Some d, w)
       }
     }
   }"

definition e_get_mac_address :: "E1000Device \<Rightarrow> u8 list" where
  "e_get_mac_address d = e_mac d"

partial_function (option) e_wait_dd :: "(nat \<Rightarrow> memory \<Rightarrow> memory) \<Rightarrow> usize \<Rightarrow> nat \<Rightarrow> nic_world \<Rightarrow> nic_world option" where
  "e_wait_dd dma a t w =
     (if kmem w (a + 12) AND DESC_STATUS_DD = 0 then e_wait_dd dma a (Suc t) (w\<lparr>kmem := dma t (kmem w)\<rparr>) else Some w)"

definition e_transmit ::
    "(nat \<Rightarrow> memory \<Rightarrow> memory) \<Rightarrow> u8 list \<Rightarrow> E1000Device \<Rightarrow> nic_world \<Rightarrow> (bool \<times> E1000Device \<times> nic_world) option" where
  "e_transmit dma data d w =
     (if length data > 2048 then Some (False, d, w)
      else do {
        let cur = unat (e_tx_current d);
        let desc = e1000_desc (e_tx_descs d) cur;
        w \<leftarrow> e_wait_dd dma desc 0 w;
        let w = put_mem (e_tx_buffers d ! cur) data w;
        let w = put_mem (desc + 8) (le_bytes 2 (length data)) w;
        let w = put_mem (desc + 11) [0x0B] w;
        let w = put_mem (desc + 12) [0] w;
        let d = d\<lparr>e_tx_current := (e_tx_current d + 1) mod of_nat e1000_NUM_TX_DESC\<rparr>;
        Some (True, d, e_write_reg d REG_TXDESCTAIL (ucast (e_tx_current d)) w)
      })"

text \<open>The digits of the report, least significant first, as they are stored before they are printed backwards; twelve
  places are enough for a \<open>u32\<close>.\<close>

fun stored_digits :: "nat \<Rightarrow> u8 list" where
  "stored_digits l = (if l = 0 then [] else (ch_zero + of_nat (l mod 10)) # stored_digits (l div 10))"

declare stored_digits.simps [simp del]

definition e_report :: "u8 list \<Rightarrow> nic_world \<Rightarrow> nic_world" where
  "e_report data w =
     (let w = say_line ''[E1000] RX packet len='' w;
          digits = (if length data = 0 then [ch_zero] else stored_digits (length data));
          w = say_line '''' (fold (\<lambda>c. io (Say [c])) (rev digits) w);
          w = fold (\<lambda>b. io (Say [hex_digit_upper (drop_bit 4 b), hex_digit_upper (b AND 0xF), 32])) (take 32 data) w
      in say_line '''' w)"

definition e_receive :: "E1000Device \<Rightarrow> nic_world \<Rightarrow> u8 list option \<times> E1000Device \<times> nic_world" where
  "e_receive d w =
     (let cur = unat (e_rx_current d);
          desc = e1000_desc (e_rx_descs d) cur
      in
      if kmem w (desc + 12) AND DESC_STATUS_DD = 0 then (None, d, w)
      else
        let len = le_value (load_bytes (desc + 8) 2 (kmem w));
            data = load_bytes (e_rx_buffers d ! cur) len (kmem w);
            w = e_report data w;
            w = put_mem (desc + 12) [0] w;
            old_current = e_rx_current d;
            d = d\<lparr>e_rx_current := (e_rx_current d + 1) mod of_nat e1000_NUM_RX_DESC\<rparr>
        in (Some data, d, e_write_reg d REG_RXDESCTAIL (ucast old_current) w))"

definition e_drop :: "E1000Device \<Rightarrow> nic_world \<Rightarrow> nic_world" where
  "e_drop d w = w_free (e_rx_buffers d @ e_tx_buffers d @ [e_rx_descs d, e_tx_descs d]) w"

definition e1000_init :: "u64 \<Rightarrow> E1000Device option \<Rightarrow> nic_world \<Rightarrow> (int \<times> E1000Device option \<times> nic_world) option" where
  "e1000_init mem_base g w = do {
     (r, w) \<leftarrow> e_new mem_base w;
     case r of
       None \<Rightarrow> Some (- 1, g, w)
     | Some d \<Rightarrow> Some (0, Some d, case g of None \<Rightarrow> w | Some old \<Rightarrow> e_drop old w)
   }"

definition e1000_get_mac :: "E1000Device option \<Rightarrow> u8 list \<Rightarrow> u8 list" where
  "e1000_get_mac g mac_out = (case g of None \<Rightarrow> mac_out | Some d \<Rightarrow> e_get_mac_address d)"

definition e1000_transmit ::
    "(nat \<Rightarrow> memory \<Rightarrow> memory) \<Rightarrow> u8 list \<Rightarrow> E1000Device option \<Rightarrow> nic_world \<Rightarrow> (int \<times> E1000Device option \<times> nic_world) option" where
  "e1000_transmit dma data g w =
     (case g of
        None \<Rightarrow> Some (- 1, None, w)
      | Some d \<Rightarrow> e_transmit dma data d w \<bind> (\<lambda>(ok, d, w). Some (if ok then 0 else - 1, Some d, w)))"

definition e1000_receive ::
    "u8 list \<Rightarrow> usize \<Rightarrow> E1000Device option \<Rightarrow> nic_world \<Rightarrow> int \<times> u8 list \<times> E1000Device option \<times> nic_world" where
  "e1000_receive buffer max_len g w =
     (case g of
        None \<Rightarrow> (- 1, buffer, None, w)
      | Some d \<Rightarrow>
          let (packet, d, w) = e_receive d w in
          case packet of
            None \<Rightarrow> (- 1, buffer, Some d, w)
          | Some p \<Rightarrow>
              let copy_len = min (length p) (unat max_len)
              in (int copy_len, take copy_len p @ drop copy_len buffer, Some d, w))"

section \<open>What the steps leave alone\<close>

lemmas e_reg_defs = e_read_reg_def e_write_reg_def

lemma eeprom_wait_frame: "kheap (snd (eeprom_wait n d w)) = kheap w" "kmem (snd (eeprom_wait n d w)) = kmem w"
  by (induction n arbitrary: w) (simp_all add: split_beta Let_def e_reg_defs nic_simps)

lemma read_eeprom_frame [nic_simps]: "kheap (snd (read_eeprom d a w)) = kheap w" "kmem (snd (read_eeprom d a w)) = kmem w"
  by (simp_all add: read_eeprom_def eeprom_wait_frame e_reg_defs nic_simps)

lemma e_wait_reset_frame [nic_simps]: "kheap (e_wait_reset n d w) = kheap w" "kmem (e_wait_reset n d w) = kmem w"
  by (induction n arbitrary: w) (simp_all add: split_beta Let_def e_reg_defs nic_simps)

lemma e_find_mac_frame [nic_simps]: "kheap (snd (e_find_mac d w)) = kheap w" "kmem (snd (e_find_mac d w)) = kmem w"
  by (simp_all add: e_find_mac_def split_beta Let_def e_reg_defs nic_simps)

lemma e_init_frame: "kheap (snd (e_init d w)) = kheap w" "fst (e_init d w) = d\<lparr>e_mac := e_mac (fst (e_init d w))\<rparr>"
  by (simp_all add: e_init_def split_beta Let_def e_reg_defs nic_simps fold_kheap)

section \<open>The address\<close>

text \<open>The last resort starts with \<open>02:AA\<close>, so no path ends with six zero bytes.\<close>

lemma e_find_mac_nonzero: "length (fst (e_find_mac d w)) = 6 \<and> \<not> all_zero (fst (e_find_mac d w))"
  by (simp add: e_find_mac_def split_beta Let_def) (simp add: all_zero_def)

lemma e_init_mac: "length (e_mac (fst (e_init d w))) = 6 \<and> \<not> all_zero (e_mac (fst (e_init d w)))"
  using e_find_mac_nonzero by (simp add: e_init_def split_beta Let_def)

section \<open>Buffers\<close>

definition e_blocks :: "E1000Device \<Rightarrow> (usize \<times> nat) list" where
  "e_blocks d = rev (map (\<lambda>q. (q, 2048)) (e_tx_buffers d)) @ rev (map (\<lambda>q. (q, 2048)) (e_rx_buffers d)) @
     [(e_tx_descs d, 512), (e_rx_descs d, 512)]"

lemma e_new_blocks:
  assumes "heap_inv base (kheap w)" "e_new mem_base w = Some (r, w')"
  shows "case r of
      None \<Rightarrow> holds_blocks base w [] w'
    | Some d \<Rightarrow> holds_blocks base w (e_blocks d) w' \<and> length (e_rx_buffers d) = 32 \<and> length (e_tx_buffers d) = 32 \<and>
        e_rx_current d = 0 \<and> e_tx_current d = 0 \<and> e_mem_base d = mem_base \<and> length (e_mac d) = 6 \<and> \<not> all_zero (e_mac d)"
proof -
  note sizes = e1000_NUM_RX_DESC_def e1000_NUM_TX_DESC_def size_of_e1000_desc_def
  note new = assms(2) [unfolded e_new_def sizes bind_eq_Some_conv, simplified]
  from new obtain p w1 q w2 where p: "w_malloc 512 w = Some (p, w1)" and q: "w_malloc 512 w1 = Some (q, w2)"
    by (auto simp: bind_eq_Some_conv)
  have h1: "holds_blocks base w (if p = 0 then [] else [(p, 512)]) w1"
    using w_malloc_any [OF p holds_blocks_start [OF assms(1)]] by (auto split: if_splits)
  have h2: "holds_blocks base w ((if q = 0 then [] else [(q, 512)]) @ (if p = 0 then [] else [(p, 512)])) w2"
    using w_malloc_any [OF q h1] by (auto split: if_splits)
  show ?thesis
  proof (cases "p = 0 \<or> q = 0")
    case True
    have "r = None" "w' = w_free ((if p \<noteq> 0 then [p] else []) @ (if q \<noteq> 0 then [q] else [])) w2"
      using new p q True by (auto simp: w_free_Nil w_free_w_free split: if_splits)
    with held_row_release [OF h2, of "(if p \<noteq> 0 then [p] else []) @ (if q \<noteq> 0 then [q] else [])"] show ?thesis by auto
  next
    case False
    then have h2: "holds_blocks base w [(q, 512), (p, 512)] w2" using h2 by simp
    obtain xs full w3 where x: "w_alloc_bufs 32 2048 w2 = Some (xs, full, w3)"
      using new p q False by (auto simp: bind_eq_Some_conv)
    note h3 = w_alloc_bufs_blocks [OF x h2]
    show ?thesis
    proof (cases full)
      case nofull: False
      then have "r = None" "w' = w_free (xs @ [p, q]) w3" using new p q False x by auto
      with held_row_release [OF h3(1), of "xs @ [p, q]"] show ?thesis by (auto simp: comp_def)
    next
      case full: True
      obtain ys full' w4 where y: "w_alloc_bufs 32 2048 w3 = Some (ys, full', w4)"
        using new p q False x full by (auto simp: bind_eq_Some_conv)
      note h4 = w_alloc_bufs_blocks [OF y h3(1)]
      show ?thesis
      proof (cases full')
        case nofull: False
        then have "r = None" "w' = w_free (xs @ ys @ [p, q]) w4" using new p q False x y full by auto
        with held_row_release [OF h4(1), of "xs @ ys @ [p, q]"] show ?thesis by (auto simp: comp_def)
      next
        case full': True
        define d0 where "d0 = \<lparr>e_mem_base = mem_base, e_mac = replicate 6 0, e_rx_descs = p, e_tx_descs = q,
                 e_rx_buffers = xs, e_tx_buffers = ys, e_rx_current = 0, e_tx_current = 0\<rparr>"
        have r: "r = Some (fst (e_init d0 w4))" "w' = snd (e_init d0 w4)"
          using new p q False x y full full' by (auto simp: d0_def split_beta)
        have "holds_blocks base w (e_blocks d0) w4" using h4 by (simp add: e_blocks_def d0_def)
        moreover have "e_blocks (fst (e_init d0 w4)) = e_blocks d0"
          by (subst e_init_frame(2)) (simp add: e_blocks_def)
        moreover have "e_rx_buffers (fst (e_init d0 w4)) = xs" "e_tx_buffers (fst (e_init d0 w4)) = ys"
          "e_rx_current (fst (e_init d0 w4)) = 0" "e_tx_current (fst (e_init d0 w4)) = 0" "e_mem_base (fst (e_init d0 w4)) = mem_base"
          by (subst e_init_frame(2), simp add: d0_def)+
        ultimately show ?thesis using r e_init_mac [of d0 w4] h3(3) h4(3) full full'
            holds_blocks_kheap [OF e_init_frame(1) [of d0 w4]] by simp
      qed
    qed
  qed
qed

lemma e_drop_restores:
  "holds_blocks base w (e_blocks d) w' \<Longrightarrow> holds_blocks base w [] (e_drop d w')"
  unfolding e_drop_def e_blocks_def by (erule held_row_release) (simp add: comp_def)

section \<open>The rings\<close>

text \<open>Rings and buffers are complete and do not overlap, and the indices are inside the rings.\<close>

definition e_laid :: "E1000Device \<Rightarrow> bool" where
  "e_laid d \<longleftrightarrow> length (e_rx_buffers d) = 32 \<and> length (e_tx_buffers d) = 32 \<and>
     unat (e_rx_current d) < 32 \<and> unat (e_tx_current d) < 32 \<and> distinct (map fst (e_blocks d)) \<and>
     (\<forall>x \<in> set (e_blocks d). \<forall>y \<in> set (e_blocks d). fst x \<noteq> fst y \<longrightarrow> apart x y)"

lemma e_laid_init:
  assumes "holds_blocks base w (e_blocks d) w'" "length (e_rx_buffers d) = 32" "length (e_tx_buffers d) = 32"
    "e_rx_current d = 0" "e_tx_current d = 0"
  shows "e_laid d"
  unfolding e_laid_def using assms holds_blocks_distinct [OF assms(1)] holds_blocks_apart [OF assms(1)]
  by (simp add: split_paired_all)

lemma e_blocks_in:
  "e_laid d \<Longrightarrow> i < 32 \<Longrightarrow> (e_tx_buffers d ! i, 2048) \<in> set (e_blocks d)"
  "e_laid d \<Longrightarrow> i < 32 \<Longrightarrow> (e_rx_buffers d ! i, 2048) \<in> set (e_blocks d)"
  "(e_tx_descs d, 512) \<in> set (e_blocks d)" "(e_rx_descs d, 512) \<in> set (e_blocks d)"
  by (auto simp: e_blocks_def e_laid_def)

lemma e_blocks_neq:
  assumes "e_laid d"
  shows "i < 32 \<Longrightarrow> e_tx_descs d \<noteq> e_tx_buffers d ! i" "i < 32 \<Longrightarrow> e_rx_descs d \<noteq> e_rx_buffers d ! i"
    "i < 32 \<Longrightarrow> e_tx_descs d \<noteq> e_rx_buffers d ! i" "e_tx_descs d \<noteq> e_rx_descs d"
proof -
  have "distinct (rev (e_tx_buffers d) @ rev (e_rx_buffers d) @ [e_tx_descs d, e_rx_descs d])"
    and l: "length (e_rx_buffers d) = 32" "length (e_tx_buffers d) = 32"
    using assms by (simp_all add: e_laid_def e_blocks_def)
  then have "e_tx_descs d \<notin> set (e_tx_buffers d)" "e_rx_descs d \<notin> set (e_rx_buffers d)"
    "e_tx_descs d \<notin> set (e_rx_buffers d)" "e_tx_descs d \<noteq> e_rx_descs d" by auto
  with l show "i < 32 \<Longrightarrow> e_tx_descs d \<noteq> e_tx_buffers d ! i" "i < 32 \<Longrightarrow> e_rx_descs d \<noteq> e_rx_buffers d ! i"
    "i < 32 \<Longrightarrow> e_tx_descs d \<noteq> e_rx_buffers d ! i" "e_tx_descs d \<noteq> e_rx_descs d" by (metis nth_mem)+
qed

lemma e_laidD: "e_laid d \<Longrightarrow> x \<in> set (e_blocks d) \<Longrightarrow> y \<in> set (e_blocks d) \<Longrightarrow> fst x \<noteq> fst y \<Longrightarrow> apart x y"
  by (simp add: e_laid_def)

text \<open>A field of a descriptor and a buffer of the same ring.\<close>

lemma e_field_addr: "e1000_desc ring i + of_nat k = ring + of_nat (16 * i + k)"
  by (simp add: e1000_desc_def)

lemma e_tx_field_apart:
  assumes "e_laid d" "i < 32" "j < 32" "k + l \<le> 16" "0 < l" "n \<le> 2048"
  shows "apart (e1000_desc (e_tx_descs d) i + of_nat k, l) (e_tx_buffers d ! j, n)"
proof -
  have "apart (e_tx_descs d, 512) (e_tx_buffers d ! j, 2048)"
    using e_laidD [OF assms(1) e_blocks_in(3) e_blocks_in(1) [OF assms(1,3)]] e_blocks_neq(1) [OF assms(1,3)] by simp
  then have "apart (e_tx_descs d, 512) (e_tx_buffers d ! j, n)" using assms(6) apart_shorter apart_sym by metis
  then show ?thesis unfolding e_field_addr using assms by (intro apart_within) auto
qed

lemma e_rx_field_apart:
  assumes "e_laid d" "i < 32" "j < 32" "k + l \<le> 16" "0 < l" "n \<le> 2048"
  shows "apart (e1000_desc (e_rx_descs d) i + of_nat k, l) (e_rx_buffers d ! j, n)"
proof -
  have "apart (e_rx_descs d, 512) (e_rx_buffers d ! j, 2048)"
    using e_laidD [OF assms(1) e_blocks_in(4) e_blocks_in(2) [OF assms(1,3)]] e_blocks_neq(2) [OF assms(1,3)] by simp
  then have "apart (e_rx_descs d, 512) (e_rx_buffers d ! j, n)" using assms(6) apart_shorter apart_sym by metis
  then show ?thesis unfolding e_field_addr using assms by (intro apart_within) auto
qed

section \<open>Transmission\<close>

lemma e_transmit_memory:
  assumes "e_laid d" "length data \<le> 2048" "i = unat (e_tx_current d)" "a = e1000_desc (e_tx_descs d) i"
    and m'_def: "m' = store_bytes (a + 12) [0] (store_bytes (a + 11) [0x0B] (store_bytes (a + 8) (le_bytes 2 (length data))
      (store_bytes (e_tx_buffers d ! i) data m)))"
  shows "load_bytes (e_tx_buffers d ! i) (length data) m' = data" "load_bytes (a + 8) 2 m' = le_bytes 2 (length data)"
    "m' (a + 11) = 0x0B" "m' (a + 12) = 0"
proof -
  have i: "i < 32" using assms(1,3) by (simp add: e_laid_def)
  have ap: "apart (e_tx_buffers d ! i, length data) (a + of_nat k, l)" if "k + l \<le> 16" "0 < l" for k l
    using e_tx_field_apart [OF assms(1) i i that assms(2)] by (simp add: assms(4) apart_sym)
  have len: "length data < 2 ^ 64" using assms(2) by simp
  have "load_bytes (e_tx_buffers d ! i) (length data) m' =
      load_bytes (e_tx_buffers d ! i) (length data) (store_bytes (e_tx_buffers d ! i) data m)"
    unfolding m'_def using ap [of 12 1] ap [of 11 1] ap [of 8 2] by (simp add: load_put_apart del: store_bytes.simps)
  then show "load_bytes (e_tx_buffers d ! i) (length data) m' = data" by (simp add: load_store_same [OF len order_refl])
  show "load_bytes (a + 8) 2 m' = le_bytes 2 (length data)"
    unfolding m'_def by (simp add: load_bytes_def le_bytes_def upt_rec store_bytes_apply)
  show "m' (a + 11) = 0x0B" "m' (a + 12) = 0" unfolding m'_def by simp_all
qed

text \<open>The wait for a free descriptor ends exactly when the device sets its done bit in some round.\<close>

fun dma_run :: "(nat \<Rightarrow> memory \<Rightarrow> memory) \<Rightarrow> nat \<Rightarrow> nat \<Rightarrow> memory \<Rightarrow> memory" where
  "dma_run dma t 0 m = m"
| "dma_run dma t (Suc n) m = dma_run dma (Suc t) n (dma t m)"

lemma e_wait_dd_returns:
  "dma_run dma t n (kmem w) (a + 12) AND DESC_STATUS_DD \<noteq> 0 \<Longrightarrow>
   \<exists>k \<le> n. e_wait_dd dma a t w = Some (w\<lparr>kmem := dma_run dma t k (kmem w)\<rparr>)"
proof (induction n arbitrary: t w)
  case 0
  then show ?case by (subst e_wait_dd.simps) simp
next
  case (Suc n)
  show ?case
  proof (cases "kmem w (a + 12) AND DESC_STATUS_DD = 0")
    case True
    obtain k where "k \<le> n"
      "e_wait_dd dma a (Suc t) (w\<lparr>kmem := dma t (kmem w)\<rparr>) = Some (w\<lparr>kmem := dma_run dma (Suc t) k (dma t (kmem w))\<rparr>)"
      using Suc.IH [of "Suc t" "w\<lparr>kmem := dma t (kmem w)\<rparr>"] Suc.prems by auto
    with True show ?thesis by (subst e_wait_dd.simps) (auto intro!: exI [of _ "Suc k"])
  next
    case False
    then show ?thesis by (subst e_wait_dd.simps) (auto intro!: exI [of _ 0])
  qed
qed

lemma e_wait_dd_hangs:
  assumes "\<And>n. dma_run dma t n (kmem w) (a + 12) AND DESC_STATUS_DD = 0"
  shows "e_wait_dd dma a t w = None"
proof (rule ccontr)
  assume "e_wait_dd dma a t w \<noteq> None"
  then obtain w' where w': "e_wait_dd dma a t w = Some w'" by auto
  have "\<exists>n. dma_run dma t n (kmem w) (a + 12) AND DESC_STATUS_DD \<noteq> 0"
  proof (rule e_wait_dd.raw_induct [of "\<lambda>dma a t w w'. \<exists>n. dma_run dma t n (kmem w) (a + 12) AND DESC_STATUS_DD \<noteq> 0", OF _ w'])
    fix f dma a t w and w' :: nic_world
    assume IH: "\<And>dma a t w w'. f dma a t w = Some w' \<Longrightarrow> \<exists>n. dma_run dma t n (kmem w) (a + 12) AND DESC_STATUS_DD \<noteq> 0"
      and s: "(if kmem w (a + 12) AND DESC_STATUS_DD = 0 then f dma a (Suc t) (w\<lparr>kmem := dma t (kmem w)\<rparr>) else Some w) = Some w'"
    show "\<exists>n. dma_run dma t n (kmem w) (a + 12) AND DESC_STATUS_DD \<noteq> 0"
    proof (cases "kmem w (a + 12) AND DESC_STATUS_DD = 0")
      case True
      with s IH [of dma a "Suc t" "w\<lparr>kmem := dma t (kmem w)\<rparr>" w'] obtain n where
        "dma_run dma (Suc t) n (dma t (kmem w)) (a + 12) AND DESC_STATUS_DD \<noteq> 0" by auto
      then show ?thesis by (intro exI [of _ "Suc n"]) simp
    qed (auto intro!: exI [of _ 0])
  qed
  with assms show False by blast
qed

lemma e_laid_next:
  "e_laid d \<Longrightarrow> e_laid (d\<lparr>e_tx_current := (x + 1) mod 32\<rparr>)" "e_laid d \<Longrightarrow> e_laid (d\<lparr>e_rx_current := (x + 1) mod 32\<rparr>)"
  by (simp_all add: e_laid_def e_blocks_def slot_step)

lemma e_transmit_done:
  assumes "e_laid d" "length data \<le> 2048" "a = e1000_desc (e_tx_descs d) (unat (e_tx_current d))"
    and "e_wait_dd dma a 0 w = Some w1"
  obtains w' where "e_transmit dma data d w = Some (True, d\<lparr>e_tx_current := (e_tx_current d + 1) mod 32\<rparr>, w')"
    "load_bytes (e_tx_buffers d ! unat (e_tx_current d)) (length data) (kmem w') = data"
    "load_bytes (a + 8) 2 (kmem w') = le_bytes 2 (length data)" "kmem w' (a + 11) = 0x0B" "kmem w' (a + 12) = 0"
    "wire w' = wire w1 @ [Mmio_write (e_mem_base d + ucast REG_TXDESCTAIL) (ucast ((e_tx_current d + 1) mod 32))]"
    "kheap w' = kheap w1"
  using that [of "snd (snd (the (e_transmit dma data d w)))"] assms(2,4)
    e_transmit_memory [OF assms(1,2) refl assms(3) refl, of "kmem w1"]
  by (simp add: e_transmit_def Let_def e_reg_defs nic_simps e1000_NUM_TX_DESC_def assms(3) [symmetric] del: store_bytes.simps)

section \<open>Reception\<close>

text \<open>A frame the device has put into slot \<open>i\<close> of the receive ring.\<close>

definition rx_ready :: "memory \<Rightarrow> E1000Device \<Rightarrow> nat \<Rightarrow> u8 list \<Rightarrow> bool" where
  "rx_ready m d i f \<longleftrightarrow> length f \<le> 2048 \<and> m (e1000_desc (e_rx_descs d) i + 12) AND DESC_STATUS_DD \<noteq> 0 \<and>
     load_bytes (e1000_desc (e_rx_descs d) i + 8) 2 m = le_bytes 2 (length f) \<and> load_bytes (e_rx_buffers d ! i) (length f) m = f"

lemma e_report_frame [nic_simps]: "kmem (e_report data w) = kmem w" "kheap (e_report data w) = kheap w" "wire (e_report data w) = wire w"
  by (simp_all add: e_report_def Let_def nic_simps fold_frame [where f = kmem] fold_frame [where f = kheap] fold_frame [where f = wire])

lemma e_receive_frame:
  assumes "rx_ready (kmem w) d (unat (e_rx_current d)) f"
  obtains w' where "e_receive d w = (Some f, d\<lparr>e_rx_current := (e_rx_current d + 1) mod 32\<rparr>, w')"
    "kmem w' = store_bytes (e1000_desc (e_rx_descs d) (unat (e_rx_current d)) + 12) [0] (kmem w)"
    "wire w' = wire w @ [Mmio_write (e_mem_base d + ucast REG_RXDESCTAIL) (ucast (e_rx_current d))]"
proof -
  have "le_value (le_bytes 2 (length f)) = length f" using assms by (intro le_value_bytes) (simp add: rx_ready_def)
  then show thesis using that [of "snd (snd (e_receive d w))"] assms
    by (simp add: rx_ready_def e_receive_def Let_def e_reg_defs nic_simps e1000_NUM_RX_DESC_def del: store_bytes.simps)
qed

lemma e_receive_empty:
  "kmem w (e1000_desc (e_rx_descs d) (unat (e_rx_current d)) + 12) AND DESC_STATUS_DD = 0 \<Longrightarrow> e_receive d w = (None, d, w)"
  by (simp add: e_receive_def Let_def)

text \<open>Clearing the status of one slot does not touch the others.\<close>

lemma rx_ready_other:
  assumes "e_laid d" "i < 32" "j < 32" "i \<noteq> j" "rx_ready m d i f"
  shows "rx_ready (store_bytes (e1000_desc (e_rx_descs d) j + 12) [0] m) d i f"
proof -
  have ne: "e1000_desc (e_rx_descs d) i + of_nat k \<noteq> e1000_desc (e_rx_descs d) j + of_nat 12" if "k < 16" "k \<noteq> 12 \<or> i \<noteq> j" for k
  proof -
    have "16 * i + k \<noteq> 16 * j + 12" using that by presburger
    then show ?thesis unfolding e_field_addr using assms(2,3) that by (subst add_of_nat_eq_iff) simp_all
  qed
  have "apart (e_rx_buffers d ! i, length f) (e1000_desc (e_rx_descs d) j + of_nat 12, 1)"
    using e_rx_field_apart [OF assms(1,3,2), of 12 1 "length f"] assms(5) by (simp add: apart_sym rx_ready_def)
  then have "load_bytes (e_rx_buffers d ! i) (length f) (store_bytes (e1000_desc (e_rx_descs d) j + 12) [0] m) =
      load_bytes (e_rx_buffers d ! i) (length f) m"
    by (intro load_put_apart) simp_all
  moreover have "load_bytes (e1000_desc (e_rx_descs d) i + 8) 2 (store_bytes (e1000_desc (e_rx_descs d) j + 12) [0] m) =
      load_bytes (e1000_desc (e_rx_descs d) i + 8) 2 m"
    using ne [of 8] ne [of 9] assms(4) by (simp add: load_bytes_def upt_rec)
  ultimately show ?thesis using assms(4,5) ne [of 12] by (simp add: rx_ready_def)
qed

fun e_receives :: "nat \<Rightarrow> E1000Device \<Rightarrow> nic_world \<Rightarrow> u8 list option list \<times> E1000Device \<times> nic_world" where
  "e_receives 0 d w = ([], d, w)"
| "e_receives (Suc n) d w = (let (r, d, w) = e_receive d w; (rs, d, w) = e_receives n d w in (r # rs, d, w))"

lemma rx_ready_index [simp]: "rx_ready m (d\<lparr>e_rx_current := x\<rparr>) i f = rx_ready m d i f"
  by (simp add: rx_ready_def)

lemma e_receives_burst:
  assumes "e_laid d" "length fs \<le> 32"
    and "\<And>i. i < length fs \<Longrightarrow> rx_ready (kmem w) d ((unat (e_rx_current d) + i) mod 32) (fs ! i)"
  shows "\<exists>w'. e_receives (length fs) d w =
      (map Some fs, d\<lparr>e_rx_current := of_nat ((unat (e_rx_current d) + length fs) mod 32)\<rparr>, w')"
  using assms
proof (induction fs arbitrary: d w)
  case Nil
  then show ?case by (simp add: e_laid_def)
next
  case (Cons f fs)
  let ?c = "unat (e_rx_current d)"
  have c: "?c < 32" using Cons.prems(1) by (simp add: e_laid_def)
  have "rx_ready (kmem w) d ?c f" using Cons.prems(3) [of 0] c by simp
  then obtain w1 where w1: "e_receive d w = (Some f, d\<lparr>e_rx_current := (e_rx_current d + 1) mod 32\<rparr>, w1)"
    "kmem w1 = store_bytes (e1000_desc (e_rx_descs d) ?c + 12) [0] (kmem w)"
    by (rule e_receive_frame)
  let ?d = "d\<lparr>e_rx_current := (e_rx_current d + 1) mod 32\<rparr>"
  have idx: "(unat (e_rx_current ?d) + i) mod 32 = (?c + Suc i) mod 32" for i
    by (simp add: slot_step mod_simps)
  have "\<exists>w'. e_receives (length fs) ?d w1 = (map Some fs, ?d\<lparr>e_rx_current := of_nat ((unat (e_rx_current ?d) + length fs) mod 32)\<rparr>, w')"
  proof (rule Cons.IH)
    fix i assume i: "i < length fs"
    have "(?c + Suc i) mod 32 \<noteq> ?c" using c i Cons.prems(2) by (auto simp: mod_if split: if_splits)
    then show "rx_ready (kmem w1) ?d ((unat (e_rx_current ?d) + i) mod 32) (fs ! i)"
      using rx_ready_other [OF Cons.prems(1) _ c] Cons.prems(3) [of "Suc i"] i unfolding idx w1(2) by simp
  qed (use Cons.prems e_laid_next(2) [OF Cons.prems(1)] in auto)
  with w1(1) show ?case unfolding idx by auto
qed

section \<open>Properties\<close>

text \<open>A device whose rings and buffers lie on a grid of 2048 bytes.\<close>

definition demo_e1000 :: E1000Device where
  "demo_e1000 = \<lparr>e_mem_base = 0xFEBC0000, e_mac = [2, 0, 0, 0, 0, 1], e_rx_descs = of_nat (2048 * 577), e_tx_descs = of_nat (2048 * 576),
     e_rx_buffers = map (\<lambda>i. of_nat (2048 * (512 + i))) [0..<32], e_tx_buffers = map (\<lambda>i. of_nat (2048 * (544 + i))) [0..<32],
     e_rx_current = 31, e_tx_current = 31\<rparr>"

lemma grid_addr: "k < 1000 \<Longrightarrow> unat (of_nat (2048 * k) :: usize) = 2048 * k"
  by (intro unat_of_nat_u64) simp

lemma apart_grid:
  assumes "k \<noteq> l" "k < 1000" "l < 1000" "m \<le> 2048" "n \<le> 2048"
  shows "apart (of_nat (2048 * k), m) (of_nat (2048 * l), n)"
proof -
  have "k + 1 \<le> l \<or> l + 1 \<le> k" using assms(1) by linarith
  then show ?thesis unfolding apart_def fst_conv snd_conv grid_addr [OF assms(2)] grid_addr [OF assms(3)]
    using assms by (elim disjE) simp_all
qed

lemma demo_e1000_blocks:
  "e_blocks demo_e1000 = map (\<lambda>k. (of_nat (2048 * k), if k < 576 then 2048 else 512)) (rev [544..<576] @ rev [512..<544] @ [576, 577])"
  by (simp add: e_blocks_def demo_e1000_def rev_map upt_rec)

lemma demo_e1000_laid: "e_laid demo_e1000"
proof -
  let ?ks = "rev [544..<576] @ rev [512..<544] @ [576, 577] :: nat list"
  have ks: "k < 1000" if "k \<in> set ?ks" for k using that by auto
  have inj: "inj_on (\<lambda>k. of_nat (2048 * k) :: usize) (set ?ks)"
  proof (rule inj_onI)
    fix k l assume "k \<in> set ?ks" "l \<in> set ?ks" "(of_nat (2048 * k) :: usize) = of_nat (2048 * l)"
    then show "k = l" using grid_addr [of k] grid_addr [of l] ks by (metis mult_cancel1 zero_neq_numeral)
  qed
  have "map fst (e_blocks demo_e1000) = map (\<lambda>k. of_nat (2048 * k)) ?ks"
    unfolding demo_e1000_blocks by (simp del: of_nat_mult upt_rec)
  then have "distinct (map fst (e_blocks demo_e1000))" using inj by (simp only: distinct_map) simp
  moreover have "apart x y" if "x \<in> set (e_blocks demo_e1000)" "y \<in> set (e_blocks demo_e1000)" "fst x \<noteq> fst y" for x y
  proof -
    note xy = that
    obtain k l where k: "k \<in> set ?ks" "x = (of_nat (2048 * k), if k < 576 then 2048 else 512)"
      and l: "l \<in> set ?ks" "y = (of_nat (2048 * l), if l < 576 then 2048 else 512)"
      using xy(1,2) unfolding demo_e1000_blocks set_map by blast
    then have "k \<noteq> l" using xy(3) by auto
    then show ?thesis unfolding k(2) l(2) using ks [OF k(1)] ks [OF l(1)] by (intro apart_grid) auto
  qed
  ultimately show ?thesis unfolding e_laid_def by (auto simp: demo_e1000_def)
qed

text \<open>C36: A frame of at most 2048 bytes is handed to the E1000 whenever the device gives the next transmit
  descriptor back, and only then: the call returns in the round in which the done bit appears, the slot's
  buffer then holds the frame, the descriptor its length, the command and a cleared status, the tail
  register gets the next index of the ring, and the index stays inside it; if the bit never appears the
  call does not return.\<close>

theorem e1000_transmit_delivers:
  assumes "e_laid d" "length data \<le> 2048"
  defines "a \<equiv> e1000_desc (e_tx_descs d) (unat (e_tx_current d))"
  shows "if \<exists>n. dma_run dma 0 n (kmem w) (a + 12) AND DESC_STATUS_DD \<noteq> 0
    then \<exists>d' w'. e_transmit dma data d w = Some (True, d', w') \<and> e_laid d' \<and>
      load_bytes (e_tx_buffers d ! unat (e_tx_current d)) (length data) (kmem w') = data \<and>
      load_bytes (a + 8) 2 (kmem w') = le_bytes 2 (length data) \<and> kmem w' (a + 11) = 0x0B \<and> kmem w' (a + 12) = 0 \<and>
      wire w' = wire w @ [Mmio_write (e_mem_base d + ucast REG_TXDESCTAIL) (ucast ((e_tx_current d + 1) mod 32))]
    else e_transmit dma data d w = None"
proof (cases "\<exists>n. dma_run dma 0 n (kmem w) (a + 12) AND DESC_STATUS_DD \<noteq> 0")
  case True
  then obtain k where k: "e_wait_dd dma a 0 w = Some (w\<lparr>kmem := dma_run dma 0 k (kmem w)\<rparr>)"
    using e_wait_dd_returns [of dma 0 _ w a] by blast
  obtain w' where "e_transmit dma data d w = Some (True, d\<lparr>e_tx_current := (e_tx_current d + 1) mod 32\<rparr>, w')"
    "load_bytes (e_tx_buffers d ! unat (e_tx_current d)) (length data) (kmem w') = data"
    "load_bytes (a + 8) 2 (kmem w') = le_bytes 2 (length data)" "kmem w' (a + 11) = 0x0B" "kmem w' (a + 12) = 0"
    "wire w' = wire (w\<lparr>kmem := dma_run dma 0 k (kmem w)\<rparr>) @
      [Mmio_write (e_mem_base d + ucast REG_TXDESCTAIL) (ucast ((e_tx_current d + 1) mod 32))]"
    by (rule e_transmit_done [OF assms(1,2) a_def [THEN meta_eq_to_obj_eq] k])
  with True e_laid_next(1) [OF assms(1)] show ?thesis by (auto simp: wire_def)
next
  case False
  then have "e_wait_dd dma a 0 w = None" by (intro e_wait_dd_hangs) blast
  with False assms(2) show ?thesis by (simp add: e_transmit_def Let_def a_def)
qed

theorem e1000_transmit_delivers_witness:
  "\<exists>d' w'. e_transmit (\<lambda>t m. m) [7, 8, 9] demo_e1000 \<lparr>answers = \<lambda>_. 0, reads = 0, io_log = [], kmem = \<lambda>_. 1, kheap = boot_heap\<rparr> =
      Some (True, d', w') \<and> load_bytes (of_nat (2048 * 575)) 3 (kmem w') = [7, 8, 9] \<and>
    wire w' = [Mmio_write (0xFEBC0000 + 0x3818) 0]"
proof -
  let ?w = "\<lparr>answers = \<lambda>_. 0, reads = 0, io_log = [], kmem = \<lambda>_. 1, kheap = boot_heap\<rparr>"
  have "\<exists>n. dma_run (\<lambda>t m. m) 0 n (kmem ?w) (e1000_desc (e_tx_descs demo_e1000) (unat (e_tx_current demo_e1000)) + 12)
      AND DESC_STATUS_DD \<noteq> 0" by (intro exI [of _ 0]) (simp add: DESC_STATUS_DD_def)
  with e1000_transmit_delivers [OF demo_e1000_laid, of "[7, 8, 9]" "\<lambda>t m. m" ?w] obtain d' w' where
    t: "e_transmit (\<lambda>t m. m) [7, 8, 9] demo_e1000 ?w = Some (True, d', w')"
      "load_bytes (e_tx_buffers demo_e1000 ! unat (e_tx_current demo_e1000)) (length [7, 8, 9 :: u8]) (kmem w') = [7, 8, 9]"
      "wire w' = wire ?w @ [Mmio_write (e_mem_base demo_e1000 + ucast REG_TXDESCTAIL) (ucast ((e_tx_current demo_e1000 + 1) mod 32))]"
    by auto
  have "e_tx_buffers demo_e1000 ! unat (e_tx_current demo_e1000) = of_nat (2048 * 575)"
    by (simp add: demo_e1000_def)
  with t show ?thesis by (intro exI [of _ d'] exI [of _ w']) (simp add: wire_def demo_e1000_def REG_TXDESCTAIL_def numeral_3_eq_3)
qed

end
