(* ===== verification/Nic_Pcnet.thy ===== *)
theory Nic_Pcnet
  imports Nic_Hardware
begin

text \<open>
  The AMD PCnet driver (\<^verbatim>\<open>kernel-rs/src/pcnet.rs\<close>): indexed control registers behind four ports, an
  initialisation block, two rings of 32 descriptors of 12 bytes and one buffer of 1536 bytes per
  descriptor. Fields are at their offsets in the packed structs; as in the E1000 driver, \<open>dma n\<close> is what
  the device does to memory in the \<open>n\<close>-th round of a wait.
\<close>

section \<open>Definitions\<close>

definition REG_APROM :: u16 where "REG_APROM = 0x00"
definition REG_RDP :: u16 where "REG_RDP = 0x10"
definition REG_RAP :: u16 where "REG_RAP = 0x12"
definition REG_RESET :: u16 where "REG_RESET = 0x14"
definition REG_BDP :: u16 where "REG_BDP = 0x16"

definition CSR_STATUS :: u16 where "CSR_STATUS = 0"
definition CSR_IADR0 :: u16 where "CSR_IADR0 = 1"
definition CSR_IADR1 :: u16 where "CSR_IADR1 = 2"
definition BCR_SWSTYLE :: u16 where "BCR_SWSTYLE = 20"

definition STATUS_INIT :: u16 where "STATUS_INIT = 0x0001"
definition STATUS_STRT :: u16 where "STATUS_STRT = 0x0002"
definition STATUS_TDMD :: u16 where "STATUS_TDMD = 0x0008"
definition STATUS_INEA :: u16 where "STATUS_INEA = 0x0040"

definition pcnet_NUM_RX_DESC :: nat where "pcnet_NUM_RX_DESC = 32"
definition pcnet_NUM_TX_DESC :: nat where "pcnet_NUM_TX_DESC = 32"

text \<open>The packed initialisation block: mode at byte 0, \<^verbatim>\<open>rlen\<close> at 3, \<^verbatim>\<open>tlen\<close> at 5, \<^verbatim>\<open>padr\<close> at 6, \<^verbatim>\<open>ladr\<close> at 14, \<^verbatim>\<open>rdra\<close> at 22,
  \<^verbatim>\<open>tdra\<close> at 26; 30 bytes in all. A descriptor has its address at byte 0, the flags at 4, the buffer length at
  6 and, in the receive ring, the message length at 8.\<close>

definition size_of_InitBlock :: nat where "size_of_InitBlock = 30"
definition size_of_pcnet_desc :: nat where "size_of_pcnet_desc = 12"

definition pcnet_desc :: "usize \<Rightarrow> nat \<Rightarrow> usize" where
  "pcnet_desc ring i = ring + of_nat (12 * i)"

record PcnetDevice =
  p_io_base :: u16
  p_mac :: "u8 list"
  p_init_block :: usize
  p_rx_descs :: usize
  p_tx_descs :: usize
  p_rx_buffers :: "usize list"
  p_tx_buffers :: "usize list"
  p_rx_current :: usize
  p_tx_current :: usize

definition p_inw :: "PcnetDevice \<Rightarrow> u16 \<Rightarrow> nic_world \<Rightarrow> u16 \<times> nic_world" where
  "p_inw d offset w = (let r = io_read (In_port (p_io_base d + offset)) w in (ucast (fst r), snd r))"

definition p_outw :: "PcnetDevice \<Rightarrow> u16 \<Rightarrow> u16 \<Rightarrow> nic_world \<Rightarrow> nic_world" where
  "p_outw d offset v = io (Outw (p_io_base d + offset) v)"

definition read_csr :: "PcnetDevice \<Rightarrow> u16 \<Rightarrow> nic_world \<Rightarrow> u16 \<times> nic_world" where
  "read_csr d csr w = p_inw d REG_RDP (p_outw d REG_RAP csr w)"

definition write_csr :: "PcnetDevice \<Rightarrow> u16 \<Rightarrow> u16 \<Rightarrow> nic_world \<Rightarrow> nic_world" where
  "write_csr d csr v w = p_outw d REG_RDP v (p_outw d REG_RAP csr w)"

definition read_bcr :: "PcnetDevice \<Rightarrow> u16 \<Rightarrow> nic_world \<Rightarrow> u16 \<times> nic_world" where
  "read_bcr d bcr w = p_inw d REG_BDP (p_outw d REG_RAP bcr w)"

definition write_bcr :: "PcnetDevice \<Rightarrow> u16 \<Rightarrow> u16 \<Rightarrow> nic_world \<Rightarrow> nic_world" where
  "write_bcr d bcr v w = p_outw d REG_BDP v (p_outw d REG_RAP bcr w)"

definition p_read_mac :: "PcnetDevice \<Rightarrow> nic_world \<Rightarrow> u8 list \<times> nic_world" where
  "p_read_mac d w =
     fold (\<lambda>i (mac, w). let (v, w') = p_inw d (REG_APROM + of_nat i * 2) w in (mac[i := ucast (v AND 0xFF)], w')) [0..<6] (p_mac d, w)"

text \<open>The number of trailing zero bits; \<^verbatim>\<open>rlen\<close> and \<^verbatim>\<open>tlen\<close> hold it in the upper half of a byte.\<close>

fun trailing_zeros :: "nat \<Rightarrow> nat \<Rightarrow> nat" where
  "trailing_zeros 0 x = 0"
| "trailing_zeros (Suc bits) x = (if odd x then 0 else Suc (trailing_zeros bits (x div 2)))"

definition ring_len :: "nat \<Rightarrow> u8" where
  "ring_len n = of_nat (trailing_zeros 8 n * 16)"

fun p_wait_init :: "nat \<Rightarrow> PcnetDevice \<Rightarrow> nic_world \<Rightarrow> nic_world" where
  "p_wait_init 0 d w = w"
| "p_wait_init (Suc n) d w =
     (let (v, w) = read_csr d CSR_STATUS w in if v AND STATUS_INIT \<noteq> 0 then w else p_wait_init n d w)"

definition p_init :: "PcnetDevice \<Rightarrow> nic_world \<Rightarrow> PcnetDevice \<times> nic_world" where
  "p_init d w =
     (let w = say_line ''[PCNET] Initializing AMD PCnet network device...'' w;
          w = snd (p_inw d REG_RESET w);
          w = p_outw d REG_RESET 0 w;
          (mac, w) = p_read_mac d w;
          d = d\<lparr>p_mac := mac\<rparr>;
          w = write_bcr d BCR_SWSTYLE 2 w;
          ib = p_init_block d;
          w = put_mem ib (le_bytes 2 0) w;
          w = put_mem (ib + 3) [ring_len pcnet_NUM_RX_DESC] w;
          w = put_mem (ib + 5) [ring_len pcnet_NUM_TX_DESC] w;
          w = put_mem (ib + 6) mac w;
          w = put_mem (ib + 14) (replicate 8 0xFF) w;
          w = put_mem (ib + 22) (le_bytes 4 (unat (p_rx_descs d))) w;
          w = put_mem (ib + 26) (le_bytes 4 (unat (p_tx_descs d))) w;
          w = fold (\<lambda>i w. let desc = pcnet_desc (p_rx_descs d) i;
                 w = put_mem desc (le_bytes 4 (unat (p_rx_buffers d ! i))) w;
                 w = put_mem (desc + 6) (le_bytes 2 (unat (- 1536 :: u16))) w;
                 w = put_mem (desc + 4) (le_bytes 2 0x8000) w
               in put_mem (desc + 8) (le_bytes 2 0) w) [0..<pcnet_NUM_RX_DESC] w;
          w = fold (\<lambda>i w. let desc = pcnet_desc (p_tx_descs d) i;
                 w = put_mem desc (le_bytes 4 (unat (p_tx_buffers d ! i))) w;
                 w = put_mem (desc + 6) (le_bytes 2 0) w
               in put_mem (desc + 4) (le_bytes 2 0) w) [0..<pcnet_NUM_TX_DESC] w;
          init_addr = ucast ib :: u32;
          w = write_csr d CSR_IADR0 (ucast (init_addr AND 0xFFFF)) w;
          w = write_csr d CSR_IADR1 (ucast (drop_bit 16 init_addr AND 0xFFFF)) w;
          w = write_csr d CSR_STATUS STATUS_INIT w;
          w = p_wait_init 1000 d w;
          w = write_csr d CSR_STATUS (STATUS_STRT OR STATUS_INEA) w
      in (d, say_line ''[PCNET] Device initialized successfully'' w))"

definition p_new :: "u16 \<Rightarrow> nic_world \<Rightarrow> (PcnetDevice option \<times> nic_world) option" where
  "p_new io_base w = do {
     (init_block, w) \<leftarrow> w_malloc (of_nat size_of_InitBlock) w;
     if init_block = 0 then Some (None, w)
     else do {
       (rx_descs, w) \<leftarrow> w_malloc (of_nat (size_of_pcnet_desc * pcnet_NUM_RX_DESC)) w;
       (tx_descs, w) \<leftarrow> w_malloc (of_nat (size_of_pcnet_desc * pcnet_NUM_TX_DESC)) w;
       if rx_descs = 0 \<or> tx_descs = 0 then
         let w = w_free [init_block] w;
             w = (if rx_descs \<noteq> 0 then w_free [rx_descs] w else w);
             w = (if tx_descs \<noteq> 0 then w_free [tx_descs] w else w)
         in Some (None, w)
       else do {
         (rx_buffers, full, w) \<leftarrow> w_alloc_bufs pcnet_NUM_RX_DESC 1536 w;
         if \<not> full then Some (None, w_free (rx_buffers @ [init_block, rx_descs, tx_descs]) w)
         else do {
           (tx_buffers, full, w) \<leftarrow> w_alloc_bufs pcnet_NUM_TX_DESC 1536 w;
           if \<not> full then Some (None, w_free (rx_buffers @ tx_buffers @ [init_block, rx_descs, tx_descs]) w)
           else
             let (d, w) = p_init \<lparr>p_io_base = io_base, p_mac = replicate 6 0, p_init_block = init_block,
                   p_rx_descs = rx_descs, p_tx_descs = tx_descs, p_rx_buffers = rx_buffers, p_tx_buffers = tx_buffers,
                   p_rx_current = 0, p_tx_current = 0\<rparr> w
             in Some (Some d, w)
         }
       }
     }
   }"

definition p_get_mac_address :: "PcnetDevice \<Rightarrow> u8 list" where
  "p_get_mac_address d = p_mac d"

definition desc_flags :: "usize \<Rightarrow> memory \<Rightarrow> u16" where
  "desc_flags desc m = of_nat (le_value (load_bytes (desc + 4) 2 m))"

partial_function (option) p_wait_own :: "(nat \<Rightarrow> memory \<Rightarrow> memory) \<Rightarrow> usize \<Rightarrow> nat \<Rightarrow> nic_world \<Rightarrow> nic_world option" where
  "p_wait_own dma desc t w =
     (if desc_flags desc (kmem w) AND 0x8000 \<noteq> 0 then p_wait_own dma desc (Suc t) (w\<lparr>kmem := dma t (kmem w)\<rparr>) else Some w)"

definition p_transmit ::
    "(nat \<Rightarrow> memory \<Rightarrow> memory) \<Rightarrow> u8 list \<Rightarrow> PcnetDevice \<Rightarrow> nic_world \<Rightarrow> (bool \<times> PcnetDevice \<times> nic_world) option" where
  "p_transmit dma data d w =
     (if length data > 1536 then Some (False, d, w)
      else do {
        let cur = unat (p_tx_current d);
        let desc = pcnet_desc (p_tx_descs d) cur;
        w \<leftarrow> p_wait_own dma desc 0 w;
        let w = put_mem (p_tx_buffers d ! cur) data w;
        let w = put_mem (desc + 6) (le_bytes 2 (unat (- of_nat (length data) :: u16))) w;
        let w = put_mem (desc + 4) (le_bytes 2 0x8300) w;
        let (status, w) = read_csr d CSR_STATUS w;
        let w = write_csr d CSR_STATUS (status OR STATUS_TDMD) w;
        Some (True, d\<lparr>p_tx_current := (p_tx_current d + 1) mod of_nat pcnet_NUM_TX_DESC\<rparr>, w)
      })"

text \<open>The subtraction of the checksum is in \<open>u16\<close> and wraps.\<close>

definition p_receive :: "PcnetDevice \<Rightarrow> nic_world \<Rightarrow> u8 list option \<times> PcnetDevice \<times> nic_world" where
  "p_receive d w =
     (let cur = unat (p_rx_current d);
          desc = pcnet_desc (p_rx_descs d) cur;
          d' = d\<lparr>p_rx_current := (p_rx_current d + 1) mod of_nat pcnet_NUM_RX_DESC\<rparr>
      in
      if desc_flags desc (kmem w) AND 0x8000 \<noteq> 0 then (None, d, w)
      else if desc_flags desc (kmem w) AND 0x4000 = 0 then
        (None, d', put_mem (desc + 4) (le_bytes 2 0x8000) w)
      else
        let msg_len = of_nat (le_value (load_bytes (desc + 8) 2 (kmem w))) :: u16;
            len = unat (msg_len - 4);
            packet = load_bytes (p_rx_buffers d ! cur) len (kmem w);
            w = put_mem (desc + 4) (le_bytes 2 0x8000) w;
            w = put_mem (desc + 8) (le_bytes 2 0) w
        in (Some packet, d', w))"

definition p_drop :: "PcnetDevice \<Rightarrow> nic_world \<Rightarrow> nic_world" where
  "p_drop d w = w_free (p_rx_buffers d @ p_tx_buffers d @ [p_init_block d, p_rx_descs d, p_tx_descs d]) w"

definition pcnet_init :: "u16 \<Rightarrow> PcnetDevice option \<Rightarrow> nic_world \<Rightarrow> (int \<times> PcnetDevice option \<times> nic_world) option" where
  "pcnet_init io_base g w = do {
     (r, w) \<leftarrow> p_new io_base w;
     case r of
       None \<Rightarrow> Some (- 1, g, w)
     | Some d \<Rightarrow> Some (0, Some d, case g of None \<Rightarrow> w | Some old \<Rightarrow> p_drop old w)
   }"

definition pcnet_get_mac :: "PcnetDevice option \<Rightarrow> u8 list \<Rightarrow> u8 list" where
  "pcnet_get_mac g mac_out = (case g of None \<Rightarrow> mac_out | Some d \<Rightarrow> p_get_mac_address d)"

definition pcnet_transmit ::
    "(nat \<Rightarrow> memory \<Rightarrow> memory) \<Rightarrow> u8 list \<Rightarrow> PcnetDevice option \<Rightarrow> nic_world \<Rightarrow> (int \<times> PcnetDevice option \<times> nic_world) option" where
  "pcnet_transmit dma data g w =
     (case g of
        None \<Rightarrow> Some (- 1, None, w)
      | Some d \<Rightarrow> p_transmit dma data d w \<bind> (\<lambda>(ok, d, w). Some (if ok then 0 else - 1, Some d, w)))"

definition pcnet_receive ::
    "u8 list \<Rightarrow> usize \<Rightarrow> PcnetDevice option \<Rightarrow> nic_world \<Rightarrow> int \<times> u8 list \<times> PcnetDevice option \<times> nic_world" where
  "pcnet_receive buffer max_len g w =
     (case g of
        None \<Rightarrow> (- 1, buffer, None, w)
      | Some d \<Rightarrow>
          let (packet, d, w) = p_receive d w in
          case packet of
            None \<Rightarrow> (- 1, buffer, Some d, w)
          | Some p \<Rightarrow>
              let copy_len = min (length p) (unat max_len)
              in (int copy_len, take copy_len p @ drop copy_len buffer, Some d, w))"

section \<open>Buffers\<close>

lemmas p_port_defs = p_inw_def p_outw_def read_csr_def write_csr_def read_bcr_def write_bcr_def

lemma p_read_mac_frame: "kheap (snd (p_read_mac d w)) = kheap w"
  unfolding p_read_mac_def
  by (subst fold_frame [where f = "\<lambda>x. kheap (snd x)"]) (simp_all add: split_beta Let_def p_port_defs nic_simps)

lemma p_wait_init_frame [nic_simps]: "kheap (p_wait_init n d w) = kheap w"
  by (induction n arbitrary: w) (simp_all add: split_beta Let_def p_port_defs nic_simps)

lemma p_init_frame: "kheap (snd (p_init d w)) = kheap w" "fst (p_init d w) = d\<lparr>p_mac := p_mac (fst (p_init d w))\<rparr>"
  by (simp_all add: p_init_def split_beta Let_def p_port_defs nic_simps fold_kheap p_read_mac_frame)

definition p_blocks :: "PcnetDevice \<Rightarrow> (usize \<times> nat) list" where
  "p_blocks d = rev (map (\<lambda>q. (q, 1536)) (p_tx_buffers d)) @ rev (map (\<lambda>q. (q, 1536)) (p_rx_buffers d)) @
     [(p_tx_descs d, 384), (p_rx_descs d, 384), (p_init_block d, 30)]"

lemma p_new_blocks:
  assumes "heap_inv base (kheap w)" "p_new io_base w = Some (r, w')"
  shows "case r of
      None \<Rightarrow> holds_blocks base w [] w'
    | Some d \<Rightarrow> holds_blocks base w (p_blocks d) w' \<and> length (p_rx_buffers d) = 32 \<and> length (p_tx_buffers d) = 32 \<and>
        p_rx_current d = 0 \<and> p_tx_current d = 0 \<and> p_io_base d = io_base"
proof -
  note sizes = pcnet_NUM_RX_DESC_def pcnet_NUM_TX_DESC_def size_of_pcnet_desc_def size_of_InitBlock_def
  note new = assms(2) [unfolded p_new_def sizes bind_eq_Some_conv, simplified]
  from new obtain b w0 where b: "w_malloc 30 w = Some (b, w0)" by (auto simp: bind_eq_Some_conv)
  have h0: "holds_blocks base w (if b = 0 then [] else [(b, 30)]) w0"
    using w_malloc_any [OF b holds_blocks_start [OF assms(1)]] by (auto split: if_splits)
  show ?thesis
  proof (cases "b = 0")
    case True
    with new b h0 show ?thesis by auto
  next
    case b0: False
    with h0 have h0: "holds_blocks base w [(b, 30)] w0" by simp
    from new b b0 obtain p w1 q w2 where p: "w_malloc 384 w0 = Some (p, w1)" and q: "w_malloc 384 w1 = Some (q, w2)"
      by (auto simp: bind_eq_Some_conv)
    have h1: "holds_blocks base w ((if p = 0 then [] else [(p, 384)]) @ [(b, 30)]) w1"
      using w_malloc_any [OF p h0] by (auto split: if_splits)
    have h2: "holds_blocks base w ((if q = 0 then [] else [(q, 384)]) @ (if p = 0 then [] else [(p, 384)]) @ [(b, 30)]) w2"
      using w_malloc_any [OF q h1] by (auto split: if_splits)
    show ?thesis
    proof (cases "p = 0 \<or> q = 0")
      case True
      have "r = None" "w' = w_free ([b] @ (if p \<noteq> 0 then [p] else []) @ (if q \<noteq> 0 then [q] else [])) w2"
        using new b b0 p q True by (auto simp: Let_def w_free_Nil w_free_w_free split: if_splits)
      with held_row_release [OF h2, of "[b] @ (if p \<noteq> 0 then [p] else []) @ (if q \<noteq> 0 then [q] else [])"] show ?thesis by auto
    next
      case False
      then have h2: "holds_blocks base w [(q, 384), (p, 384), (b, 30)] w2" using h2 by simp
      obtain xs full w3 where x: "w_alloc_bufs 32 1536 w2 = Some (xs, full, w3)"
        using new b b0 p q False by (auto simp: bind_eq_Some_conv)
      note h3 = w_alloc_bufs_blocks [OF x h2]
      show ?thesis
      proof (cases full)
        case nofull: False
        then have "r = None" "w' = w_free (xs @ [b, p, q]) w3" using new b b0 p q False x by auto
        with held_row_release [OF h3(1), of "xs @ [b, p, q]"] show ?thesis by (auto simp: comp_def)
      next
        case full: True
        obtain ys full' w4 where y: "w_alloc_bufs 32 1536 w3 = Some (ys, full', w4)"
          using new b b0 p q False x full by (auto simp: bind_eq_Some_conv)
        note h4 = w_alloc_bufs_blocks [OF y h3(1)]
        show ?thesis
        proof (cases full')
          case nofull: False
          then have "r = None" "w' = w_free (xs @ ys @ [b, p, q]) w4" using new b b0 p q False x y full by auto
          with held_row_release [OF h4(1), of "xs @ ys @ [b, p, q]"] show ?thesis by (auto simp: comp_def)
        next
          case full': True
          define d0 where "d0 = \<lparr>p_io_base = io_base, p_mac = replicate 6 0, p_init_block = b,
                   p_rx_descs = p, p_tx_descs = q, p_rx_buffers = xs, p_tx_buffers = ys,
                   p_rx_current = 0, p_tx_current = 0\<rparr>"
          have r: "r = Some (fst (p_init d0 w4))" "w' = snd (p_init d0 w4)"
            using new b b0 p q False x y full full' by (auto simp: d0_def split_beta)
          have "holds_blocks base w (p_blocks d0) w4" using h4 by (simp add: p_blocks_def d0_def)
          moreover have "p_blocks (fst (p_init d0 w4)) = p_blocks d0"
            by (subst p_init_frame(2)) (simp add: p_blocks_def)
          moreover have "p_rx_buffers (fst (p_init d0 w4)) = xs" "p_tx_buffers (fst (p_init d0 w4)) = ys"
            "p_rx_current (fst (p_init d0 w4)) = 0" "p_tx_current (fst (p_init d0 w4)) = 0" "p_io_base (fst (p_init d0 w4)) = io_base"
            by (subst p_init_frame(2), simp add: d0_def)+
          ultimately show ?thesis using r h3(3) h4(3) full full'
              holds_blocks_kheap [OF p_init_frame(1) [of d0 w4]] by simp
        qed
      qed
    qed
  qed
qed

lemma p_drop_restores: "holds_blocks base w (p_blocks d) w' \<Longrightarrow> holds_blocks base w [] (p_drop d w')"
  unfolding p_drop_def p_blocks_def by (erule held_row_release) (simp add: comp_def)

section \<open>Reception\<close>

text \<open>The flags a driver or device stores, and the message length.\<close>

definition desc_msg_len :: "usize \<Rightarrow> memory \<Rightarrow> nat" where
  "desc_msg_len desc m = le_value (load_bytes (desc + 8) 2 m)"

lemma desc_msg_len_bound: "desc_msg_len desc m < 65536"
  using le_value_less [of "load_bytes (desc + 8) 2 m"] by (simp add: desc_msg_len_def)

lemma wrapped_length:
  assumes "n < 65536"
  shows "unat (of_nat n - 4 :: u16) = (if 4 \<le> n then n - 4 else 65532 + n)"
proof (cases "4 \<le> n")
  case True
  then have "(4 :: u16) \<le> of_nat n" using assms by (simp add: word_le_nat_alt unat_of_nat_u16)
  with True assms show ?thesis by (simp add: unat_sub unat_of_nat_u16)
next
  case False
  then have "n = 0 \<or> n = 1 \<or> n = 2 \<or> n = 3" by linarith
  then show ?thesis by (elim disjE) (simp_all add: unsigned_minus_1_eq_mask mask_eq_exp_minus_1)
qed

lemma p_receive_cases:
  assumes "desc = pcnet_desc (p_rx_descs d) (unat (p_rx_current d))" "flags = desc_flags desc (kmem w)"
    and "next_d = d\<lparr>p_rx_current := (p_rx_current d + 1) mod 32\<rparr>" "n = desc_msg_len desc (kmem w)"
  shows "flags AND 0x8000 \<noteq> 0 \<Longrightarrow> p_receive d w = (None, d, w)"
    and "flags AND 0x8000 = 0 \<Longrightarrow> flags AND 0x4000 = 0 \<Longrightarrow>
      p_receive d w = (None, next_d, put_mem (desc + 4) (le_bytes 2 0x8000) w)"
    and "flags AND 0x8000 = 0 \<Longrightarrow> flags AND 0x4000 \<noteq> 0 \<Longrightarrow>
      p_receive d w = (Some (load_bytes (p_rx_buffers d ! unat (p_rx_current d)) (if 4 \<le> n then n - 4 else 65532 + n) (kmem w)),
        next_d, put_mem (desc + 8) (le_bytes 2 0) (put_mem (desc + 4) (le_bytes 2 0x8000) w))"
  using wrapped_length [OF desc_msg_len_bound, of desc "kmem w"] assms
  by (simp_all add: p_receive_def Let_def pcnet_NUM_RX_DESC_def desc_msg_len_def)

section \<open>Transmission\<close>

text \<open>The wait ends as soon as the device has given the descriptor back.\<close>

lemma p_wait_own_now: "desc_flags desc (kmem w) AND 0x8000 = 0 \<Longrightarrow> p_wait_own dma desc t w = Some w"
  by (subst p_wait_own.simps) simp

lemma p_transmit_too_large: "length data > 1536 \<Longrightarrow> p_transmit dma data d w = Some (False, d, w)"
  by (simp add: p_transmit_def)

section \<open>A ring of returned descriptors\<close>

fun p_receives :: "nat \<Rightarrow> PcnetDevice \<Rightarrow> nic_world \<Rightarrow> u8 list option list \<times> PcnetDevice \<times> nic_world" where
  "p_receives 0 d w = ([], d, w)"
| "p_receives (Suc n) d w = (let (r, d, w) = p_receive d w; (rs, d, w) = p_receives n d w in (r # rs, d, w))"

lemma desc_flags_same: "v < 65536 \<Longrightarrow> desc_flags a (store_bytes (a + 4) (le_bytes 2 v) m) = of_nat v"
  by (simp add: desc_flags_def load_store_same le_value_bytes)

lemma desc_flags_other:
  assumes "i < 32" "j < 32" "i \<noteq> j" "length bs = 2"
  shows "desc_flags (pcnet_desc ring i) (store_bytes (pcnet_desc ring j + 4) bs m) = desc_flags (pcnet_desc ring i) m"
proof -
  have ne: "pcnet_desc ring i + of_nat k \<noteq> pcnet_desc ring j + of_nat l" if "k < 12" "l < 12" for k l
  proof -
    have "12 * i + k \<noteq> 12 * j + l" using that assms(3) by presburger
    moreover have "pcnet_desc ring i + of_nat k = ring + of_nat (12 * i + k)" "pcnet_desc ring j + of_nat l = ring + of_nat (12 * j + l)"
      by (simp_all add: pcnet_desc_def)
    moreover have "12 * i + k < 2 ^ 64" "12 * j + l < 2 ^ 64" using assms(1,2) that by simp_all
    ultimately show ?thesis using add_of_nat_eq_iff [of "12 * i + k" "12 * j + l" ring] by (simp only: not_False_eq_True)
  qed
  obtain a b where bs: "bs = [a, b]" using assms(4) by (auto simp: numeral_2_eq_2 length_Suc_conv)
  show ?thesis using ne [of 4 4] ne [of 4 5] ne [of 5 4] ne [of 5 5]
    by (simp add: desc_flags_def bs load_bytes_def upt_rec add.commute [of 5] add.assoc)
qed

lemma own_bits: "(flags :: u16) AND 0xC000 = 0 \<Longrightarrow> flags AND 0x8000 = 0 \<and> flags AND 0x4000 = 0"
proof -
  assume z: "flags AND 0xC000 = 0"
  have "flags AND 0x8000 = (flags AND 0xC000) AND 0x8000" "flags AND 0x4000 = (flags AND 0xC000) AND 0x4000"
    by (simp_all add: and.assoc)
  with z show ?thesis by simp
qed

lemma p_receives_nothing:
  assumes "unat (p_rx_current d) < 32" "k \<le> 32"
    and "\<And>i. i < k \<Longrightarrow> desc_flags (pcnet_desc (p_rx_descs d) ((unat (p_rx_current d) + i) mod 32)) (kmem w) AND 0xC000 = 0"
  shows "\<exists>d' w'. p_receives k d w = (replicate k None, d', w')"
  using assms
proof (induction k arbitrary: d w)
  case (Suc k)
  let ?c = "unat (p_rx_current d)" and ?d = "d\<lparr>p_rx_current := (p_rx_current d + 1) mod 32\<rparr>"
  let ?w = "put_mem (pcnet_desc (p_rx_descs d) ?c + 4) (le_bytes 2 0x8000) w"
  have "desc_flags (pcnet_desc (p_rx_descs d) ?c) (kmem w) AND 0xC000 = 0" using Suc.prems(3) [of 0] Suc.prems(1) by simp
  then have r: "p_receive d w = (None, ?d, ?w)" using p_receive_cases(2) [OF refl refl refl refl] own_bits by blast
  have idx: "(unat (p_rx_current ?d) + i) mod 32 = (?c + Suc i) mod 32" for i by (simp add: slot_step mod_simps)
  have "\<exists>d' w'. p_receives k ?d ?w = (replicate k None, d', w')"
  proof (rule Suc.IH)
    fix i assume i: "i < k"
    have "(?c + Suc i) mod 32 \<noteq> ?c" using Suc.prems(1,2) i by (auto simp: mod_if split: if_splits)
    then show "desc_flags (pcnet_desc (p_rx_descs ?d) ((unat (p_rx_current ?d) + i) mod 32)) (kmem ?w) AND 0xC000 = 0"
      using Suc.prems(3) [of "Suc i"] i Suc.prems(1) unfolding idx by (simp add: nic_simps desc_flags_other)
  qed (use Suc.prems in \<open>auto simp: slot_step\<close>)
  with r show ?case by auto
qed simp

section \<open>Properties\<close>


definition demo_pcnet :: PcnetDevice where
  "demo_pcnet = \<lparr>p_io_base = 0xD000, p_mac = [2, 0, 0, 0, 0, 1], p_init_block = 0x9000, p_rx_descs = 0x10000, p_tx_descs = 0x11000,
     p_rx_buffers = map (\<lambda>i. of_nat (0x20000 + 2048 * i)) [0..<32], p_tx_buffers = map (\<lambda>i. of_nat (0x40000 + 2048 * i)) [0..<32],
     p_rx_current = 0, p_tx_current = 0\<rparr>"

text \<open>Two descriptors returned by the device, both with the flags of a complete frame.\<close>

definition demo_pcnet_world :: nic_world where
  "demo_pcnet_world = \<lparr>answers = \<lambda>_. 0, reads = 0, io_log = [],
     kmem = store_bytes 0x10010 (le_bytes 2 0x0300) (store_bytes 0x10004 (le_bytes 2 0x0300) (\<lambda>_. 0)), kheap = boot_heap\<rparr>"


text \<open>C38: A frame with the bit \<open>0x4000\<close> is delivered without its last four bytes; when the device reports fewer than
  four bytes the subtraction wraps, and the driver reads at least 65532 bytes, from a buffer of 1536.\<close>

theorem pcnet_short_frame:
  assumes "a = pcnet_desc (p_rx_descs d) (unat (p_rx_current d))"
    and "desc_flags a (kmem w) AND 0x8000 = 0" "desc_flags a (kmem w) AND 0x4000 \<noteq> 0"
  shows "\<exists>frame d' w'. p_receive d w = (Some frame, d', w') \<and>
    length frame = (if 4 \<le> desc_msg_len a (kmem w) then desc_msg_len a (kmem w) - 4 else 65532 + desc_msg_len a (kmem w)) \<and>
    frame = load_bytes (p_rx_buffers d ! unat (p_rx_current d)) (length frame) (kmem w)"
  using p_receive_cases(3) [OF assms(1) refl refl refl] assms(2,3) by simp

theorem pcnet_short_frame_witness:
  "\<exists>frame d' w'. p_receive demo_pcnet
      (demo_pcnet_world\<lparr>kmem := store_bytes 0x10008 (le_bytes 2 3) (store_bytes 0x10004 (le_bytes 2 0x4300) (\<lambda>_. 0))\<rparr>) =
      (Some frame, d', w') \<and> length frame = 65535"
proof -
  let ?w = "demo_pcnet_world\<lparr>kmem := store_bytes 0x10008 (le_bytes 2 3) (store_bytes 0x10004 (le_bytes 2 0x4300) (\<lambda>_. 0))\<rparr>"
  have "pcnet_desc (p_rx_descs demo_pcnet) (unat (p_rx_current demo_pcnet)) = 0x10000"
    by (simp add: demo_pcnet_def pcnet_desc_def)
  moreover have "desc_flags 0x10000 (kmem ?w) = 0x4300" "desc_msg_len 0x10000 (kmem ?w) = 3"
    by (simp_all add: desc_flags_def desc_msg_len_def load_bytes_def le_bytes_def upt_rec)
  ultimately show ?thesis using pcnet_short_frame [of "0x10000" demo_pcnet ?w] by auto
qed

end
