(* ===== verification/Net_Device.thy ===== *)
theory Net_Device
  imports Nic_Rtl8139 Nic_E1000 Nic_Pcnet
begin

text \<open>
  The device adapter of the network stack (\<^verbatim>\<open>kernel-rs/src/network.rs\<close>, up to the \<^verbatim>\<open>Device\<close>
  implementation) and the PCI identification (\<^verbatim>\<open>kernel-rs/src/pci_net.rs\<close>).

  The three global devices, the active driver and the world they share form the record \<open>nics\<close>. The
  protocol library (the crate smoltcp) hands a closure to the token it transmits with; the closure is the
  argument \<open>f\<close>, a function from the buffer to its result and the filled buffer.
\<close>

section \<open>Definitions\<close>

datatype DriverType = Rtl8139 | E1000 | Pcnet

record nics =
  RTL8139_DEVICE :: "Rtl8139Device option"
  E1000_DEVICE :: "E1000Device option"
  PCNET_DEVICE :: "PcnetDevice option"
  ACTIVE_DRIVER :: "DriverType option"
  nic_world_of :: nic_world

definition on_world :: "(nic_world \<Rightarrow> nic_world) \<Rightarrow> nics \<Rightarrow> nics" where
  "on_world f s = s\<lparr>nic_world_of := f (nic_world_of s)\<rparr>"

definition serial_write_hex_byte :: "u8 \<Rightarrow> nic_world \<Rightarrow> nic_world" where
  "serial_write_hex_byte b = io (Say (hex_pair b @ [32]))"

definition driver_transmit :: "(nat \<Rightarrow> memory \<Rightarrow> memory) \<Rightarrow> u8 list \<Rightarrow> nics \<Rightarrow> nics option" where
  "driver_transmit dma data s =
     (case ACTIVE_DRIVER s of
        Some Rtl8139 \<Rightarrow>
          let (_, g, w) = rtl8139_transmit data (RTL8139_DEVICE s) (nic_world_of s)
          in Some (s\<lparr>RTL8139_DEVICE := g, nic_world_of := w\<rparr>)
      | Some E1000 \<Rightarrow> do {
          (_, g, w) \<leftarrow> e1000_transmit dma data (E1000_DEVICE s) (nic_world_of s);
          Some (s\<lparr>E1000_DEVICE := g, nic_world_of := w\<rparr>)
        }
      | Some Pcnet \<Rightarrow> do {
          (_, g, w) \<leftarrow> pcnet_transmit dma data (PCNET_DEVICE s) (nic_world_of s);
          Some (s\<lparr>PCNET_DEVICE := g, nic_world_of := w\<rparr>)
        }
      | None \<Rightarrow> Some s)"

datatype NetDevice = Net_Rtl8139 "u8 list" | Net_E1000 "u8 list" | Net_Pcnet "u8 list"

definition new_from_active_driver :: "nics \<Rightarrow> NetDevice option" where
  "new_from_active_driver s =
     (let mac_bytes = replicate 6 0 in
      case ACTIVE_DRIVER s of
        Some Rtl8139 \<Rightarrow> Some (Net_Rtl8139 (rtl8139_get_mac (RTL8139_DEVICE s) mac_bytes))
      | Some E1000 \<Rightarrow> Some (Net_E1000 (e1000_get_mac (E1000_DEVICE s) mac_bytes))
      | Some Pcnet \<Rightarrow> Some (Net_Pcnet (pcnet_get_mac (PCNET_DEVICE s) mac_bytes))
      | None \<Rightarrow> None)"

fun device_mac :: "NetDevice \<Rightarrow> u8 list" where
  "device_mac (Net_Rtl8139 mac) = mac"
| "device_mac (Net_E1000 mac) = mac"
| "device_mac (Net_Pcnet mac) = mac"

text \<open>A receive token is its buffer, a transmit token has no content.\<close>

definition rx_consume :: "(u8 list \<Rightarrow> 'r \<times> u8 list) \<Rightarrow> u8 list \<Rightarrow> 'r" where
  "rx_consume f buffer = fst (f buffer)"

definition dump_bytes :: "u8 list \<Rightarrow> nic_world \<Rightarrow> nic_world" where
  "dump_bytes data w = say_line '''' (fold serial_write_hex_byte (take 64 data) w)"

definition tx_consume ::
    "(nat \<Rightarrow> memory \<Rightarrow> memory) \<Rightarrow> nat \<Rightarrow> (u8 list \<Rightarrow> 'r \<times> u8 list) \<Rightarrow> nics \<Rightarrow> ('r \<times> nics) option" where
  "tx_consume dma len f s = do {
     let buffer = replicate len 0;
     let (result, buffer) = f buffer;
     let s = on_world (say_dec_line '''' (of_nat len) \<circ> say ''[DEVICE] transmit() sending packet, len='') s;
     let s = on_world (dump_bytes buffer \<circ> say ''[DEVICE] TX DUMP (first 64 bytes): '') s;
     s \<leftarrow> driver_transmit dma buffer s;
     Some (result, s)
   }"

definition device_receive :: "NetDevice \<Rightarrow> nics \<Rightarrow> u8 list option \<times> nics" where
  "device_receive dev s =
     (let buffer = replicate 2048 0;
          (len, buffer, s) =
            (case dev of
               Net_Rtl8139 _ \<Rightarrow>
                 let (n, b, g, w) = rtl8139_receive buffer 2048 (RTL8139_DEVICE s) (nic_world_of s)
                 in (n, b, s\<lparr>RTL8139_DEVICE := g, nic_world_of := w\<rparr>)
             | Net_E1000 _ \<Rightarrow>
                 let (n, b, g, w) = e1000_receive buffer 2048 (E1000_DEVICE s) (nic_world_of s)
                 in (n, b, s\<lparr>E1000_DEVICE := g, nic_world_of := w\<rparr>)
             | Net_Pcnet _ \<Rightarrow>
                 let (n, b, g, w) = pcnet_receive buffer 2048 (PCNET_DEVICE s) (nic_world_of s)
                 in (n, b, s\<lparr>PCNET_DEVICE := g, nic_world_of := w\<rparr>))
      in
      if len > 0 then
        let rlen = nat len;
            s = on_world (say_dec_line '''' (of_nat rlen) \<circ> say ''[DEVICE] receive() called, got packet len='') s;
            s = on_world (dump_bytes (take rlen buffer) \<circ> say ''[DEVICE] RX DUMP (first 64 bytes): '') s
        in (Some (take rlen buffer), s)
      else (None, s))"

record DeviceCapabilities =
  max_transmission_unit :: nat
  max_burst_size :: "nat option"
  software_checksums :: bool

definition capabilities :: DeviceCapabilities where
  "capabilities = \<lparr>max_transmission_unit = 1500, max_burst_size = Some 1, software_checksums = True\<rparr>"

subsection \<open>PCI identification\<close>

definition VENDOR_REALTEK :: u16 where "VENDOR_REALTEK = 0x10EC"
definition VENDOR_INTEL :: u16 where "VENDOR_INTEL = 0x8086"
definition VENDOR_AMD :: u16 where "VENDOR_AMD = 0x1022"
definition DEVICE_RTL8139 :: u16 where "DEVICE_RTL8139 = 0x8139"
definition DEVICE_E1000 :: u16 where "DEVICE_E1000 = 0x100E"
definition DEVICE_E1000_82540EM :: u16 where "DEVICE_E1000_82540EM = 0x100E"
definition DEVICE_E1000_82545EM :: u16 where "DEVICE_E1000_82545EM = 0x100F"
definition DEVICE_E1000_82574L :: u16 where "DEVICE_E1000_82574L = 0x10D3"
definition DEVICE_PCNET_FAST3 :: u16 where "DEVICE_PCNET_FAST3 = 0x2000"
definition DEVICE_PCNET_HOME :: u16 where "DEVICE_PCNET_HOME = 0x2001"

datatype NetworkDeviceType = Nic_Rtl | Nic_Intel | Nic_Amd | Nic_Unknown

definition identify :: "u16 \<Rightarrow> u16 \<Rightarrow> NetworkDeviceType" where
  "identify vendor_id device_id =
     (if vendor_id = VENDOR_REALTEK \<and> device_id = DEVICE_RTL8139 then Nic_Rtl
      else if vendor_id = VENDOR_INTEL \<and> device_id \<in> {DEVICE_E1000, DEVICE_E1000_82540EM, DEVICE_E1000_82545EM, DEVICE_E1000_82574L}
      then Nic_Intel
      else if vendor_id = VENDOR_AMD \<and> device_id \<in> {DEVICE_PCNET_FAST3, DEVICE_PCNET_HOME} then Nic_Amd
      else Nic_Unknown)"

fun device_name :: "NetworkDeviceType \<Rightarrow> u8 list" where
  "device_name Nic_Rtl = bytes ''RTL8139''"
| "device_name Nic_Intel = bytes ''Intel E1000''"
| "device_name Nic_Amd = bytes ''AMD PCnet''"
| "device_name Nic_Unknown = bytes ''Unknown''"

definition pci_net_identify_device :: "u16 \<Rightarrow> u16 \<Rightarrow> int" where
  "pci_net_identify_device vendor_id device_id =
     (case identify vendor_id device_id of Nic_Rtl \<Rightarrow> 1 | Nic_Intel \<Rightarrow> 2 | Nic_Amd \<Rightarrow> 3 | Nic_Unknown \<Rightarrow> 0)"

text \<open>The names are byte arrays of sixteen bytes, padded with zeros.\<close>

definition nic_name :: "NetworkDeviceType \<Rightarrow> u8 list" where
  "nic_name t = padded 16
     (case t of Nic_Rtl \<Rightarrow> bytes ''Realtek RTL8139'' | Nic_Intel \<Rightarrow> bytes ''Intel E1000''
              | Nic_Amd \<Rightarrow> bytes ''AMD PCnet'' | Nic_Unknown \<Rightarrow> bytes ''Unknown NIC'')"

definition pci_net_get_device_name :: "u16 \<Rightarrow> u16 \<Rightarrow> u8 list \<Rightarrow> usize \<Rightarrow> u8 list" where
  "pci_net_get_device_name vendor_id device_id name_out max_len =
     (let name = nic_name (identify vendor_id device_id);
          copy_len = min (length name) (unat max_len)
      in take copy_len name @ drop copy_len name_out)"

section \<open>Well-formed drivers\<close>

definition p_ok :: "PcnetDevice \<Rightarrow> bool" where
  "p_ok d \<longleftrightarrow> length (p_rx_buffers d) = 32 \<and> length (p_tx_buffers d) = 32 \<and>
     unat (p_rx_current d) < 32 \<and> unat (p_tx_current d) < 32"

definition nics_ok :: "nics \<Rightarrow> bool" where
  "nics_ok s \<longleftrightarrow> pred_option rtl_ok (RTL8139_DEVICE s) \<and> pred_option e_laid (E1000_DEVICE s) \<and> pred_option p_ok (PCNET_DEVICE s)"

lemma nics_ok_world [simp]: "nics_ok (on_world f s) = nics_ok s"
  by (simp add: nics_ok_def on_world_def)

lemma e_receive_keeps: "e_laid d \<Longrightarrow> e_laid (fst (snd (e_receive d w)))"
  by (simp add: e_receive_def Let_def e1000_NUM_RX_DESC_def e_laid_next)

lemma e_transmit_keeps: "e_laid d \<Longrightarrow> e_transmit dma data d w = Some (r, d', w') \<Longrightarrow> e_laid d'"
  by (auto simp: e_transmit_def Let_def e1000_NUM_TX_DESC_def bind_eq_Some_conv e_laid_next split: if_splits)

lemma p_receive_keeps: "p_ok d \<Longrightarrow> p_ok (fst (snd (p_receive d w)))"
  by (simp add: p_receive_def Let_def pcnet_NUM_RX_DESC_def p_ok_def slot_step)

lemma p_transmit_keeps: "p_ok d \<Longrightarrow> p_transmit dma data d w = Some (r, d', w') \<Longrightarrow> p_ok d'"
  by (auto simp: p_transmit_def Let_def pcnet_NUM_TX_DESC_def bind_eq_Some_conv p_ok_def slot_step split_beta split: if_splits)

text \<open>The exported functions keep the global devices well-formed.\<close>

lemma rtl8139_transmit_ok: "pred_option rtl_ok g \<Longrightarrow> pred_option rtl_ok (fst (snd (rtl8139_transmit data g w)))"
  using rtl_transmit_keeps by (cases g; cases "rtl_transmit data (the g) w") (auto simp: rtl8139_transmit_def)

lemma e1000_transmit_ok: "pred_option e_laid g \<Longrightarrow> e1000_transmit dma data g w = Some (r, g', w') \<Longrightarrow> pred_option e_laid g'"
  by (cases g) (auto simp: e1000_transmit_def bind_eq_Some_conv dest: e_transmit_keeps)

lemma pcnet_transmit_ok: "pred_option p_ok g \<Longrightarrow> pcnet_transmit dma data g w = Some (r, g', w') \<Longrightarrow> pred_option p_ok g'"
  by (cases g) (auto simp: pcnet_transmit_def bind_eq_Some_conv dest: p_transmit_keeps)

lemma rtl8139_receive_ok: "pred_option rtl_ok g \<Longrightarrow> pred_option rtl_ok (fst (snd (snd (rtl8139_receive b n g w))))"
  using rtl_receive_keeps(1) by (cases g; cases "rtl_receive (the g) w") (auto simp: rtl8139_receive_def Let_def split: option.split)

lemma e1000_receive_ok: "pred_option e_laid g \<Longrightarrow> pred_option e_laid (fst (snd (snd (e1000_receive b n g w))))"
  using e_receive_keeps [of "the g" w] by (cases g; cases "e_receive (the g) w") (auto simp: e1000_receive_def Let_def split: option.split)

lemma pcnet_receive_ok: "pred_option p_ok g \<Longrightarrow> pred_option p_ok (fst (snd (snd (pcnet_receive b n g w))))"
  using p_receive_keeps [of "the g" w] by (cases g; cases "p_receive (the g) w") (auto simp: pcnet_receive_def Let_def split: option.split)

lemma driver_transmit_ok:
  assumes "nics_ok s" "driver_transmit dma data s = Some s'"
  shows "nics_ok s'"
proof (cases "ACTIVE_DRIVER s")
  case None
  with assms show ?thesis by (simp add: driver_transmit_def)
next
  case (Some k)
  then show ?thesis using assms
    by (cases k) (auto simp: driver_transmit_def nics_ok_def bind_eq_Some_conv split_beta rtl8139_transmit_ok
        intro: e1000_transmit_ok pcnet_transmit_ok)
qed

lemma tx_consume_ok: "nics_ok s \<Longrightarrow> tx_consume dma len f s = Some (r, s') \<Longrightarrow> nics_ok s'"
  by (auto simp: tx_consume_def Let_def split_beta bind_eq_Some_conv intro: driver_transmit_ok [rotated])

lemma device_receive_ok: "nics_ok s \<Longrightarrow> nics_ok (snd (device_receive dev s))"
  by (cases dev; simp add: device_receive_def Let_def split_beta; simp add: nics_ok_def rtl8139_receive_ok e1000_receive_ok
      pcnet_receive_ok)

text \<open>What the protocol library can do to the drivers: receive a frame, or transmit one.\<close>

inductive nic_step :: "nics \<Rightarrow> nics \<Rightarrow> bool" where
  receive: "device_receive dev s = (r, s') \<Longrightarrow> nic_step s s'"
| transmit: "tx_consume dma len (\<lambda>b. ((), f b)) s = Some (r, s') \<Longrightarrow> nic_step s s'"

lemma nic_step_ok: "nic_step s s' \<Longrightarrow> nics_ok s \<Longrightarrow> nics_ok s'"
  by (induction rule: nic_step.induct) (metis device_receive_ok snd_conv, rule tx_consume_ok)

lemma nic_steps_ok: "nic_step\<^sup>*\<^sup>* s s' \<Longrightarrow> nics_ok s \<Longrightarrow> nics_ok s'"
  by (induction rule: rtranclp_induct) (auto intro: nic_step_ok)

lemma nic_step_active: "nic_step s s' \<Longrightarrow> ACTIVE_DRIVER s' = ACTIVE_DRIVER s"
proof (induction rule: nic_step.induct)
  case (receive dev s r s')
  then show ?case by (cases dev) (auto simp: device_receive_def Let_def split_beta on_world_def split: if_splits)
next
  case (transmit dma len f s r s')
  then show ?case by (auto simp: tx_consume_def Let_def split_beta bind_eq_Some_conv driver_transmit_def on_world_def
      split: option.splits DriverType.splits)
qed

section \<open>Initialisation\<close>

text \<open>The device found after a first initialisation owns exactly its blocks, and dropping it returns them.\<close>

lemma rtl8139_init_blocks:
  assumes "heap_inv base (kheap w)" "rtl8139_init io_base None w = Some (r, g, w')"
  shows "case g of None \<Rightarrow> r = - 1 \<and> holds_blocks base w [] w'
    | Some d \<Rightarrow> r = 0 \<and> rtl_ok d \<and> holds_blocks base w (rtl_blocks d) w' \<and> holds_blocks base w [] (rtl_drop d w')"
proof -
  obtain dev where n: "rtl_new io_base w = Some (dev, w')" "g = dev" "r = (if dev = None then - 1 else 0)"
    using assms(2) by (auto simp: rtl8139_init_def bind_eq_Some_conv split: option.splits)
  show ?thesis using rtl_new_blocks [OF assms(1) n(1)] rtl_drop_restores n(2,3)
    by (auto simp: rtl_ok_def split: option.splits)
qed

lemma e1000_init_blocks:
  assumes "heap_inv base (kheap w)" "e1000_init mem_base None w = Some (r, g, w')"
  shows "case g of None \<Rightarrow> r = - 1 \<and> holds_blocks base w [] w'
    | Some d \<Rightarrow> r = 0 \<and> e_laid d \<and> holds_blocks base w (e_blocks d) w' \<and> holds_blocks base w [] (e_drop d w')"
proof -
  obtain dev where n: "e_new mem_base w = Some (dev, w')" "g = dev" "r = (if dev = None then - 1 else 0)"
    using assms(2) by (auto simp: e1000_init_def bind_eq_Some_conv split: option.splits)
  show ?thesis using e_new_blocks [OF assms(1) n(1)] e_drop_restores e_laid_init n(2,3)
    by (auto split: option.splits)
qed

lemma pcnet_init_blocks:
  assumes "heap_inv base (kheap w)" "pcnet_init io_base None w = Some (r, g, w')"
  shows "case g of None \<Rightarrow> r = - 1 \<and> holds_blocks base w [] w'
    | Some d \<Rightarrow> r = 0 \<and> p_ok d \<and> holds_blocks base w (p_blocks d) w' \<and> holds_blocks base w [] (p_drop d w')"
proof -
  obtain dev where n: "p_new io_base w = Some (dev, w')" "g = dev" "r = (if dev = None then - 1 else 0)"
    using assms(2) by (auto simp: pcnet_init_def bind_eq_Some_conv split: option.splits)
  show ?thesis using p_new_blocks [OF assms(1) n(1)] p_drop_restores n(2,3)
    by (auto simp: p_ok_def split: option.splits)
qed

text \<open>The calls return: every allocation does, and only the RTL8139 waits for its device.\<close>

lemma w_malloc_inv: "w_malloc n w = Some (p, w') \<Longrightarrow> heap_inv base (kheap w) \<Longrightarrow> heap_inv base (kheap w')"
  by (auto simp: w_malloc_def bind_eq_Some_conv intro: kernel_heap.malloc_inv)

lemma w_alloc_bufs_inv:
  assumes "w_alloc_bufs k n w = Some (ps, full, w')" "heap_inv base (kheap w)"
  shows "heap_inv base (kheap w')"
proof -
  have "alloc_bufs rust_kmalloc k n (kheap w) = Some (ps, full, kheap w')"
    using assms(1) by (auto simp: w_alloc_bufs_def bind_eq_Some_conv)
  with kernel_heap.holding_alloc_bufs [OF kernel_heap.holding_Nil [OF assms(2)] this] show ?thesis
    using kernel_heap.holding_inv by blast
qed

lemma e_new_returns:
  assumes "heap_inv base (kheap w)"
  shows "\<exists>r w'. e_new mem_base w = Some (r, w')"
proof -
  obtain p w1 where p: "w_malloc (of_nat (size_of_e1000_desc * e1000_NUM_RX_DESC)) w = Some (p, w1)"
    using w_malloc_returns [OF assms] by blast
  note i1 = w_malloc_inv [OF p assms]
  obtain q w2 where q: "w_malloc (of_nat (size_of_e1000_desc * e1000_NUM_TX_DESC)) w1 = Some (q, w2)"
    using w_malloc_returns [OF i1] by blast
  note i2 = w_malloc_inv [OF q i1]
  obtain xs f w3 where x: "w_alloc_bufs e1000_NUM_RX_DESC 2048 w2 = Some (xs, f, w3)" using w_alloc_bufs_returns [OF i2] by blast
  obtain ys g w4 where y: "w_alloc_bufs e1000_NUM_TX_DESC 2048 w3 = Some (ys, g, w4)"
    using w_alloc_bufs_returns [OF w_alloc_bufs_inv [OF x i2]] by blast
  show ?thesis by (simp add: e_new_def p q x y Let_def split_beta del: of_nat_mult)
qed

lemma p_new_returns:
  assumes "heap_inv base (kheap w)"
  shows "\<exists>r w'. p_new io_base w = Some (r, w')"
proof -
  obtain b w0 where b: "w_malloc (of_nat size_of_InitBlock) w = Some (b, w0)" using w_malloc_returns [OF assms] by blast
  note i0 = w_malloc_inv [OF b assms]
  obtain p w1 where p: "w_malloc (of_nat (size_of_pcnet_desc * pcnet_NUM_RX_DESC)) w0 = Some (p, w1)"
    using w_malloc_returns [OF i0] by blast
  note i1 = w_malloc_inv [OF p i0]
  obtain q w2 where q: "w_malloc (of_nat (size_of_pcnet_desc * pcnet_NUM_TX_DESC)) w1 = Some (q, w2)"
    using w_malloc_returns [OF i1] by blast
  note i2 = w_malloc_inv [OF q i1]
  obtain xs f w3 where x: "w_alloc_bufs pcnet_NUM_RX_DESC 1536 w2 = Some (xs, f, w3)" using w_alloc_bufs_returns [OF i2] by blast
  obtain ys g w4 where y: "w_alloc_bufs pcnet_NUM_TX_DESC 1536 w3 = Some (ys, g, w4)"
    using w_alloc_bufs_returns [OF w_alloc_bufs_inv [OF x i2]] by blast
  show ?thesis by (simp add: p_new_def b p q x y Let_def split_beta del: of_nat_mult)
qed

lemma driver_inits_return:
  assumes "heap_inv base (kheap w)"
  shows "n \<ge> reads w \<Longrightarrow> (ucast (answers w n) :: u8) AND CMD_RESET = 0 \<Longrightarrow> \<exists>r g w'. rtl8139_init io_base None w = Some (r, g, w')"
    and "\<exists>r g w'. e1000_init mem_base None w = Some (r, g, w')" "\<exists>r g w'. pcnet_init io_base None w = Some (r, g, w')"
proof -
  show "\<exists>r g w'. rtl8139_init io_base None w = Some (r, g, w')" if "n \<ge> reads w" "(ucast (answers w n) :: u8) AND CMD_RESET = 0"
  proof -
    note wait = that
    obtain r w' where "rtl_new io_base w = Some (r, w')" using rtl_new_returns [OF assms wait] by blast
    then show ?thesis by (cases r) (simp_all add: rtl8139_init_def)
  qed
  obtain r w' where "e_new mem_base w = Some (r, w')" using e_new_returns [OF assms] by blast
  then show "\<exists>r g w'. e1000_init mem_base None w = Some (r, g, w')" by (cases r) (simp_all add: e1000_init_def)
  obtain r w' where "p_new io_base w = Some (r, w')" using p_new_returns [OF assms] by blast
  then show "\<exists>r g w'. pcnet_init io_base None w = Some (r, g, w')" by (cases r) (simp_all add: pcnet_init_def)
qed

section \<open>Properties\<close>


lemma booted_heap: "\<exists>h. heap_inv 0x100000 h"
  using heap_demo by (metis heap_inv_def)


section \<open>Frames through the adapter\<close>

lemma dump_bytes_frame [nic_simps]:
  "kmem (dump_bytes bs w) = kmem w" "kheap (dump_bytes bs w) = kheap w" "wire (dump_bytes bs w) = wire w"
  "reads (dump_bytes bs w) = reads w" "answers (dump_bytes bs w) = answers w"
  by (simp_all add: dump_bytes_def nic_simps serial_write_hex_byte_def fold_frame [where f = kmem] fold_frame [where f = kheap]
      fold_frame [where f = wire] fold_frame [where f = reads] fold_frame [where f = answers])

lemma rtl8139_frames:
  assumes "RTL8139_DEVICE s = Some d" "rtl_ok d"
  shows "ACTIVE_DRIVER s = Some Rtl8139 \<Longrightarrow> length (snd (f (replicate len 0))) = len \<Longrightarrow> len \<le> 1536 \<Longrightarrow>
      \<exists>s'. tx_consume dma len f s = Some (fst (f (replicate len 0)), s') \<and>
        load_bytes (rtl_tx_buffers d ! unat (rtl_current_tx d)) len (kmem (nic_world_of s')) = snd (f (replicate len 0)) \<and>
        wire (nic_world_of s') = wire (nic_world_of s) @
          [Outl (rtl_io_base d + (REG_TSAD0 + ucast (rtl_current_tx d) * 4)) (ucast (rtl_tx_buffers d ! unat (rtl_current_tx d))),
           Outl (rtl_io_base d + (REG_TSD0 + ucast (rtl_current_tx d) * 4)) (of_nat len)]"
    and "packet_at (kmem (nic_world_of s)) (rtl_rx_buffer d + ucast (rtl_rx_offset d)) frame \<Longrightarrow> frame \<noteq> [] \<Longrightarrow>
      (ucast (answers (nic_world_of s) (reads (nic_world_of s))) :: u8) AND 1 = 0 \<Longrightarrow>
      \<exists>s'. device_receive (Net_Rtl8139 mac) s = (Some frame, s') \<and> RTL8139_DEVICE s' = Some (rtl_past (of_nat (length frame + 4)) d)"
proof -
  show "\<exists>s'. tx_consume dma len f s = Some (fst (f (replicate len 0)), s') \<and>
        load_bytes (rtl_tx_buffers d ! unat (rtl_current_tx d)) len (kmem (nic_world_of s')) = snd (f (replicate len 0)) \<and>
        wire (nic_world_of s') = wire (nic_world_of s) @
          [Outl (rtl_io_base d + (REG_TSAD0 + ucast (rtl_current_tx d) * 4)) (ucast (rtl_tx_buffers d ! unat (rtl_current_tx d))),
           Outl (rtl_io_base d + (REG_TSD0 + ucast (rtl_current_tx d) * 4)) (of_nat len)]"
    if "ACTIVE_DRIVER s = Some Rtl8139" "length (snd (f (replicate len 0))) = len" "len \<le> 1536"
    using that assms rtl_transmit_exact [OF assms(2), of "snd (f (replicate len 0))"]
      load_store_same [of "snd (f (replicate len 0))" len]
    by (simp add: tx_consume_def Let_def split_beta driver_transmit_def on_world_def rtl8139_transmit_def nic_simps)
  show "\<exists>s'. device_receive (Net_Rtl8139 mac) s = (Some frame, s') \<and> RTL8139_DEVICE s' = Some (rtl_past (of_nat (length frame + 4)) d)"
    if "packet_at (kmem (nic_world_of s)) (rtl_rx_buffer d + ucast (rtl_rx_offset d)) frame" "frame \<noteq> []"
      "(ucast (answers (nic_world_of s) (reads (nic_world_of s))) :: u8) AND 1 = 0"
  proof -
    note at = that
    obtain w' where w': "rtl_receive d (nic_world_of s) = (Some frame, rtl_past (of_nat (length frame + 4)) d, w')"
      using rtl_receive_packet [OF at(3) _ at(1)] assms(2) by (auto simp: rtl_ok_def)
    have "length frame \<le> 1514" using at(1) by (simp add: packet_at_def)
    with w' at(2) assms(1) show ?thesis
      by (simp add: device_receive_def Let_def split_beta on_world_def rtl8139_receive_def)
  qed
qed

section \<open>Properties of the adapter\<close>

text \<open>C39: With the RTL8139 active, the transmit token returns the closure's result and puts the bytes the closure
  wrote, all of them and nothing else, into the driver's current transmit buffer, then starts the
  transmission of exactly that buffer and length; a packet waiting in the receive buffer comes out of the
  receive token as the same frame.\<close>

theorem rtl8139_frame_path:
  assumes "RTL8139_DEVICE s = Some d" "rtl_ok d"
  shows "(ACTIVE_DRIVER s = Some Rtl8139 \<and> length (snd (f (replicate len 0))) = len \<and> len \<le> 1536 \<longrightarrow>
      (\<exists>s'. tx_consume dma len f s = Some (fst (f (replicate len 0)), s') \<and>
        load_bytes (rtl_tx_buffers d ! unat (rtl_current_tx d)) len (kmem (nic_world_of s')) = snd (f (replicate len 0)) \<and>
        wire (nic_world_of s') = wire (nic_world_of s) @
          [Outl (rtl_io_base d + (REG_TSAD0 + ucast (rtl_current_tx d) * 4)) (ucast (rtl_tx_buffers d ! unat (rtl_current_tx d))),
           Outl (rtl_io_base d + (REG_TSD0 + ucast (rtl_current_tx d) * 4)) (of_nat len)])) \<and>
    (packet_at (kmem (nic_world_of s)) (rtl_rx_buffer d + ucast (rtl_rx_offset d)) frame \<and> frame \<noteq> [] \<and>
      (ucast (answers (nic_world_of s) (reads (nic_world_of s))) :: u8) AND 1 = 0 \<longrightarrow>
      (\<exists>s'. device_receive (Net_Rtl8139 mac) s = (Some frame, s') \<and> RTL8139_DEVICE s' = Some (rtl_past (of_nat (length frame + 4)) d)))"
  using rtl8139_frames [OF assms] by blast

definition demo_nics :: nics where
  "demo_nics = \<lparr>RTL8139_DEVICE = Some demo_rtl, E1000_DEVICE = None, PCNET_DEVICE = None, ACTIVE_DRIVER = Some Rtl8139,
     nic_world_of = demo_rtl_world\<rparr>"

theorem rtl8139_frame_path_witness:
  "(\<exists>s'. tx_consume (\<lambda>_ m. m) 3 (\<lambda>b. (length b, [1, 2, 3])) demo_nics = Some (3, s') \<and>
      load_bytes 0x20000 3 (kmem (nic_world_of s')) = [1, 2, 3]) \<and>
   (\<exists>s'. device_receive (Net_Rtl8139 []) demo_nics = (Some [10, 20, 30, 40], s'))"
proof -
  have d: "RTL8139_DEVICE demo_nics = Some demo_rtl" "rtl_ok demo_rtl" by (simp_all add: demo_nics_def demo_rtl_def rtl_ok_def)
  have at: "packet_at (kmem (nic_world_of demo_nics)) (rtl_rx_buffer demo_rtl + ucast (rtl_rx_offset demo_rtl)) [10, 20, 30, 40]"
    using demo_rtl_ring by (simp add: demo_nics_def demo_rtl_def)
  show ?thesis using rtl8139_frame_path [OF d, of "\<lambda>b. (length b, [1, 2, 3])" 3 "\<lambda>_ m. m" "[10, 20, 30, 40]" "[]"] at
    by (auto simp: demo_nics_def demo_rtl_world_def demo_rtl_def)
qed

text \<open>The identification codes and the driver types: the code is 0 exactly for an unknown card, and the name written
  is one of four texts with its terminating zero when the buffer has sixteen bytes.\<close>

lemma pci_name_text:
  assumes "16 \<le> unat max_len"
  shows "c_text (pci_net_get_device_name v dv name_out max_len) =
    (case identify v dv of Nic_Rtl \<Rightarrow> bytes ''Realtek RTL8139'' | Nic_Intel \<Rightarrow> bytes ''Intel E1000''
       | Nic_Amd \<Rightarrow> bytes ''AMD PCnet'' | Nic_Unknown \<Rightarrow> bytes ''Unknown NIC'')"
  using assms by (cases "identify v dv")
    (simp_all add: pci_net_get_device_name_def nic_name_def Let_def padded_def c_text_def bytes_def of_char_def)

end
