(* ===== verification/Rust_Loop.thy ===== *)
theory Rust_Loop
  imports Kernel_Prelude
begin

text \<open>
  Rust's \<^verbatim>\<open>loop\<close>: the body either goes round again with a new state (\<open>Inl\<close>), leaves the loop with a value
  (\<open>Inr\<close>), or stops the machine (\<open>None\<close>). A loop that goes round for ever has the value \<open>None\<close>. The two
  rules below are what the components use: one for what holds of the value of a loop that ends, one that
  a loop ends because a measure falls.
\<close>

partial_function (option) loop_until :: "('s \<Rightarrow> ('s + 'r) option) \<Rightarrow> 's \<Rightarrow> 'r option" where
  "loop_until body s =
     (case body s of
        None \<Rightarrow> None
      | Some v \<Rightarrow> (case v of Inl s' \<Rightarrow> loop_until body s' | Inr r \<Rightarrow> Some r))"

lemma loop_until_value:
  fixes body :: "'s \<Rightarrow> ('s + 'r) option"
  assumes "loop_until body s = Some r" "P s"
    and "\<And>s s'. P s \<Longrightarrow> body s = Some (Inl s') \<Longrightarrow> P s'"
    and "\<And>s r. P s \<Longrightarrow> body s = Some (Inr r) \<Longrightarrow> Q r"
  shows "Q r"
proof -
  have "P s \<longrightarrow> Q r"
  proof (rule loop_until.raw_induct [of "\<lambda>b s r. b = body \<longrightarrow> P s \<longrightarrow> Q r", OF _ assms(1), THEN mp, OF _ refl])
    fix f :: "('s \<Rightarrow> ('s + 'r) option) \<Rightarrow> 's \<Rightarrow> 'r option" and b s r
    assume IH: "\<And>b s r. f b s = Some r \<Longrightarrow> b = body \<longrightarrow> P s \<longrightarrow> Q r"
      and s: "(case b s of None \<Rightarrow> None | Some v \<Rightarrow> (case v of Inl s' \<Rightarrow> f b s' | Inr r \<Rightarrow> Some r)) = Some r"
    show "b = body \<longrightarrow> P s \<longrightarrow> Q r"
    proof (intro impI)
      assume b: "b = body" and p: "P s"
      from s b show "Q r"
        using IH [of body _ r] assms(3) [OF p] assms(4) [OF p] by (auto split: option.splits sum.splits)
    qed
  qed
  with assms(2) show ?thesis by blast
qed

lemma loop_until_ends:
  assumes "P s"
    and "\<And>s. P s \<Longrightarrow> \<exists>v. body s = Some v \<and> (case v of Inl s' \<Rightarrow> P s' \<and> m s' < (m s :: nat) | Inr r \<Rightarrow> Q r)"
  shows "\<exists>r. loop_until body s = Some r \<and> Q r"
  using assms(1)
proof (induction "m s" arbitrary: s rule: less_induct)
  case less
  obtain v where v: "body s = Some v" "case v of Inl s' \<Rightarrow> P s' \<and> m s' < m s | Inr r \<Rightarrow> Q r" using assms(2) [OF less.prems] by blast
  show ?case
  proof (cases v)
    case (Inl s')
    with v less.hyps [of s'] obtain r where "loop_until body s' = Some r" "Q r" by auto
    with v Inl show ?thesis by (subst loop_until.simps) simp
  next
    case (Inr r)
    with v show ?thesis by (subst loop_until.simps) simp
  qed
qed

end
