(* ===== verification/Net_Stack.thy ===== *)
theory Net_Stack
  imports Net_Device Ordered_Map Rust_Loop
begin

text \<open>
  The network stack (\<^verbatim>\<open>kernel-rs/src/network.rs\<close>): descriptor table, polling, DHCP, ping, TCP calls and
  the exported functions.

  The protocol library (the crate smoltcp) is not part of the kernel's sources: it is the record
  \<open>smoltcp\<close> of its functions over a state \<open>'s\<close> (interface and socket set), an argument of every
  definition. What the kernel relies on is the predicate \<open>smoltcp_ok\<close>. Asking the socket set for a socket
  that is not there, or is of another kind, panics: \<open>need\<close>. A poll of the library runs the drivers, which
  may spin for ever: \<open>lib_poll\<close> is \<open>None\<close> then. The tick counter is a stream of readings;
  times in milliseconds are 64-bit words compared as signed numbers, as the \<open>i64\<close> of the code.
  The diagnostic lines of these functions are left out.
\<close>

section \<open>The protocol library\<close>

datatype sock_kind = Tcp_sock | Udp_sock | Icmp_sock | Dhcp_sock

datatype new_socket = New_tcp nat nat | New_udp nat nat nat nat | New_icmp nat nat nat nat u16 | New_dhcp

fun kind_of :: "new_socket \<Rightarrow> sock_kind" where
  "kind_of (New_tcp _ _) = Tcp_sock"
| "kind_of (New_udp _ _ _ _) = Udp_sock"
| "kind_of (New_icmp _ _ _ _ _) = Icmp_sock"
| "kind_of New_dhcp = Dhcp_sock"

type_synonym ip4 = "u8 list"
type_synonym cidr = "ip4 \<times> nat"

datatype dhcp_event = Configured cidr "ip4 option" "ip4 list" | Deconfigured

datatype tcp_state = St_closed | St_listen | St_syn_sent | St_syn_received | St_established | St_fin_wait1 | St_fin_wait2
  | St_close_wait | St_closing | St_last_ack | St_time_wait

record 's smoltcp =
  lib_new :: "u8 list \<Rightarrow> u64 \<Rightarrow> 's"
  lib_poll :: "u64 \<Rightarrow> NetDevice \<Rightarrow> 's \<Rightarrow> nics \<Rightarrow> (bool \<times> 's \<times> nics) option"
  lib_addrs :: "'s \<Rightarrow> cidr list"
  lib_set_addrs :: "cidr list \<Rightarrow> 's \<Rightarrow> 's"
  lib_add_route :: "ip4 \<Rightarrow> 's \<Rightarrow> 's option"
  lib_kind :: "'s \<Rightarrow> nat \<Rightarrow> sock_kind option"
  lib_add :: "new_socket \<Rightarrow> 's \<Rightarrow> nat \<times> 's"
  lib_remove :: "nat \<Rightarrow> 's \<Rightarrow> 's"
  lib_dhcp_poll :: "nat \<Rightarrow> 's \<Rightarrow> dhcp_event option \<times> 's"
  lib_icmp_can_send :: "nat \<Rightarrow> 's \<Rightarrow> bool"
  lib_icmp_send :: "nat \<Rightarrow> u8 list \<Rightarrow> ip4 \<Rightarrow> 's \<Rightarrow> bool \<times> 's"
  lib_icmp_can_recv :: "nat \<Rightarrow> 's \<Rightarrow> bool"
  lib_icmp_recv :: "nat \<Rightarrow> 's \<Rightarrow> u8 list option \<times> 's"
  lib_tcp_connect :: "nat \<Rightarrow> ip4 \<Rightarrow> u16 \<Rightarrow> u16 \<Rightarrow> 's \<Rightarrow> bool \<times> 's"
  lib_tcp_state :: "nat \<Rightarrow> 's \<Rightarrow> tcp_state"
  lib_tcp_is_active :: "nat \<Rightarrow> 's \<Rightarrow> bool"
  lib_tcp_listen :: "nat \<Rightarrow> u16 \<Rightarrow> 's \<Rightarrow> bool \<times> 's"
  lib_tcp_may_send :: "nat \<Rightarrow> 's \<Rightarrow> bool"
  lib_tcp_can_send :: "nat \<Rightarrow> 's \<Rightarrow> bool"
  lib_tcp_send :: "nat \<Rightarrow> u8 list \<Rightarrow> 's \<Rightarrow> nat option \<times> 's"
  lib_tcp_recv :: "nat \<Rightarrow> nat \<Rightarrow> 's \<Rightarrow> u8 list option \<times> 's"
  lib_tcp_remote :: "nat \<Rightarrow> 's \<Rightarrow> (ip4 \<times> u16) option"

definition need :: "'s smoltcp \<Rightarrow> sock_kind \<Rightarrow> nat \<Rightarrow> 's \<Rightarrow> unit option" where
  "need S k h s = (if lib_kind S s h = Some k then Some () else None)"

text \<open>\<^verbatim>\<open>SocketSet::remove\<close> panics when the handle is not in the set.\<close>

definition remove_socket :: "'s smoltcp \<Rightarrow> nat \<Rightarrow> 's \<Rightarrow> 's option" where
  "remove_socket S h s = (if lib_kind S s h = None then None else Some (lib_remove S h s))"

section \<open>Definitions\<close>

record net_env =
  e_nics :: nics
  ticks :: "nat \<Rightarrow> u64"
  ticks_read :: nat

definition timer_get_ticks :: "net_env \<Rightarrow> u64 \<times> net_env" where
  "timer_get_ticks e = (ticks e (ticks_read e), e\<lparr>ticks_read := Suc (ticks_read e)\<rparr>)"

datatype SocketType = Tcp | Udp | Icmp

datatype SocketState = Closed | Open | Listening | Connected

record SocketEntry =
  socket_type :: SocketType
  handle :: nat
  state :: SocketState
  listening_socket :: "nat option"

record 's NetworkStack =
  device :: NetDevice
  interface :: 's
  socket_map :: "(int \<times> SocketEntry) list"
  next_fd :: int
  gateway :: "ip4 option"
  dns_servers :: "ip4 list"

definition new_with_ip :: "'s smoltcp \<Rightarrow> ip4 \<Rightarrow> ip4 \<Rightarrow> net_env \<Rightarrow> ('s NetworkStack \<times> net_env) option" where
  "new_with_ip S ip gw e = do {
     dev \<leftarrow> new_from_active_driver (e_nics e);
     let (seed, e) = timer_get_ticks e;
     let s = lib_new S (device_mac dev) seed;
     let s = lib_set_addrs S (lib_addrs S s @ [(ip, 24)]) s;
     let has_gateway = (gw \<noteq> [0, 0, 0, 0]);
     s \<leftarrow> if has_gateway then lib_add_route S gw s else Some s;
     Some (\<lparr>device = dev, interface = s, socket_map = [], next_fd = 1,
            gateway = if has_gateway then Some gw else None, dns_servers = []\<rparr>, e)
   }"

text \<open>The Cargo feature \<^verbatim>\<open>fallback-qemu\<close> is the first argument.\<close>

definition new_with_static_fallback :: "bool \<Rightarrow> 's smoltcp \<Rightarrow> net_env \<Rightarrow> ('s NetworkStack \<times> net_env) option" where
  "new_with_static_fallback fallback_qemu S e =
     (if fallback_qemu then new_with_ip S [10, 0, 2, 15] [10, 0, 2, 2] e
      else new_with_ip S [0, 0, 0, 0] [0, 0, 0, 0] e)"

definition dhcp_round ::
    "'s smoltcp \<Rightarrow> NetDevice \<Rightarrow> nat \<Rightarrow> u64 \<Rightarrow> 's \<times> net_env \<Rightarrow>
     (('s \<times> net_env) + (cidr \<times> ip4 option \<times> ip4 list) option \<times> 's \<times> net_env) option" where
  "dhcp_round S dev dhcp_handle start_time = (\<lambda>(s, e). do {
     let (now_ticks, e) = timer_get_ticks e;
     if (now_ticks - start_time) * 10 > 10000 then Some (Inr (None, s, e))
     else do {
       (_, s, n) \<leftarrow> lib_poll S (now_ticks * 10) dev s (e_nics e);
       let e = e\<lparr>e_nics := n\<rparr>;
       need S Dhcp_sock dhcp_handle s;
       let (event, s) = lib_dhcp_poll S dhcp_handle s;
       case event of
         Some (Configured addr router dns) \<Rightarrow> Some (Inr (Some (addr, router, dns), s, e))
       | _ \<Rightarrow> Some (Inl (s, e))
     }
   })"

definition new_with_dhcp :: "bool \<Rightarrow> 's smoltcp \<Rightarrow> net_env \<Rightarrow> ('s NetworkStack \<times> net_env) option" where
  "new_with_dhcp fallback_qemu S e = do {
     dev \<leftarrow> new_from_active_driver (e_nics e);
     let (seed, e) = timer_get_ticks e;
     let s = lib_new S (device_mac dev) seed;
     let s = lib_set_addrs S (lib_addrs S s @ [([0, 0, 0, 0], 0)]) s;
     let (dhcp_handle, s) = lib_add S New_dhcp s;
     let (start_time, e) = timer_get_ticks e;
     (config, s, e) \<leftarrow> loop_until (dhcp_round S dev dhcp_handle start_time) (s, e);
     case config of
       None \<Rightarrow> new_with_static_fallback fallback_qemu S e
     | Some (addr, router, dns) \<Rightarrow> do {
         let s = lib_set_addrs S [addr] s;
         let s = (case router of None \<Rightarrow> s | Some gw \<Rightarrow> (case lib_add_route S gw s of None \<Rightarrow> s | Some s' \<Rightarrow> s'));
         s \<leftarrow> remove_socket S dhcp_handle s;
         Some (\<lparr>device = dev, interface = s, socket_map = [], next_fd = 1, gateway = router, dns_servers = dns\<rparr>, e)
       }
   }"

definition new_stack :: "bool \<Rightarrow> 's smoltcp \<Rightarrow> net_env \<Rightarrow> ('s NetworkStack \<times> net_env) option" where
  "new_stack = new_with_dhcp"

subsection \<open>Polling\<close>

type_synonym 's running = "'s NetworkStack \<times> net_env"

definition poll_once :: "'s smoltcp \<Rightarrow> 's running \<Rightarrow> (bool \<times> 's running) option" where
  "poll_once S = (\<lambda>(k, e). do {
     let (t, e) = timer_get_ticks e;
     (did_work, s, n) \<leftarrow> lib_poll S (t * 10) (device k) (interface k) (e_nics e);
     Some (did_work, k\<lparr>interface := s\<rparr>, e\<lparr>e_nics := n\<rparr>)
   })"

definition MAX_POLL_ITERATIONS :: nat where "MAX_POLL_ITERATIONS = 200"
definition IDLE_THRESHOLD :: nat where "IDLE_THRESHOLD = 3"

text \<open>\<open>poll_loop S r idle\<close>: \<open>r\<close> iterations are left before the limit, \<open>idle\<close> polls in a row did nothing.\<close>

fun poll_loop :: "'s smoltcp \<Rightarrow> nat \<Rightarrow> nat \<Rightarrow> 's running \<Rightarrow> 's running option" where
  "poll_loop S 0 idle st = Some st"
| "poll_loop S (Suc r) idle st =
     (case poll_once S st of
        None \<Rightarrow> None
      | Some (did_work, st) \<Rightarrow>
          if did_work then poll_loop S r 0 st
          else if Suc idle \<ge> IDLE_THRESHOLD then Some st
          else poll_loop S r (Suc idle) st)"

definition poll :: "'s smoltcp \<Rightarrow> 's running \<Rightarrow> 's running option" where
  "poll S st = poll_loop S MAX_POLL_ITERATIONS 0 st"

fun polls :: "nat \<Rightarrow> 's smoltcp \<Rightarrow> 's running \<Rightarrow> 's running option" where
  "polls 0 S st = Some st"
| "polls (Suc n) S st = poll S st \<bind> polls n S"

subsection \<open>Ping\<close>

definition ping_payload :: "u8 list" where "ping_payload = [0, 1, 2, 3, 4, 5, 6, 7]"

text \<open>A request at most every 200 ms and at most five of them; a request that was sent is followed by a poll.\<close>

definition ping_send ::
    "'s smoltcp \<Rightarrow> nat \<Rightarrow> ip4 \<Rightarrow> u64 \<Rightarrow> u64 \<times> nat \<times> 's running \<Rightarrow> (u64 \<times> nat \<times> 's running) option" where
  "ping_send S h dest now = (\<lambda>(last_tx_ms, sent, k, e).
     if sent < 5 \<and> sint (now - last_tx_ms) \<ge> 200 then do {
       need S Icmp_sock h (interface k);
       if lib_icmp_can_send S h (interface k) then
         let (ok, s) = lib_icmp_send S h ping_payload dest (interface k);
             k = k\<lparr>interface := s\<rparr>
         in if ok then poll S (k, e) \<bind> (\<lambda>(k, e). Some (now, sent + 1, k, e))
            else Some (last_tx_ms, sent, k, e)
       else Some (last_tx_ms, sent, k, e)
     }
     else Some (last_tx_ms, sent, k, e))"

definition ping_round ::
    "'s smoltcp \<Rightarrow> nat \<Rightarrow> ip4 \<Rightarrow> u64 \<Rightarrow> u64 \<Rightarrow> u64 \<times> nat \<times> 's running \<Rightarrow>
     ((u64 \<times> nat \<times> 's running) + nat \<times> int \<times> 's running) option" where
  "ping_round S h dest start_ms deadline = (\<lambda>(last_tx_ms, sent, k, e). do {
     let (ticks_now, e) = timer_get_ticks e;
     let now = ticks_now * 10;
     if sint now \<ge> sint deadline then Some (Inr (sent, - 1, k, e))
     else do {
       (last_tx_ms, sent, k, e) \<leftarrow> ping_send S h dest now (last_tx_ms, sent, k, e);
       (k, e) \<leftarrow> polls 5 S (k, e);
       need S Icmp_sock h (interface k);
       if lib_icmp_can_recv S h (interface k) then
         let (r, s) = lib_icmp_recv S h (interface k);
             k = k\<lparr>interface := s\<rparr>
         in case r of
              Some data \<Rightarrow>
                if length data \<ge> length ping_payload then Some (Inr (sent, sint (ucast (now - start_ms) :: u32), k, e))
                else Some (Inl (last_tx_ms, sent, k, e))
            | None \<Rightarrow> Some (Inl (last_tx_ms, sent, k, e))
       else Some (Inl (last_tx_ms, sent, k, e))
     }
   })"

text \<open>The number of requests sent is kept beside the result.\<close>

definition icmp_ping :: "'s smoltcp \<Rightarrow> ip4 \<Rightarrow> int \<Rightarrow> 's running \<Rightarrow> (nat \<times> int \<times> 's running) option" where
  "icmp_ping S ip timeout_ms = (\<lambda>(k, e). do {
     let (h, s) = lib_add S (New_icmp 4 1024 4 1024 0x1234) (interface k);
     let k = k\<lparr>interface := s\<rparr>;
     let (ticks_start, e) = timer_get_ticks e;
     let start_ms = ticks_start * 10;
     let deadline = start_ms + of_int timeout_ms;
     (k, e) \<leftarrow> polls 20 S (k, e);
     (sent, rtt_ms, k, e) \<leftarrow> loop_until (ping_round S h ip start_ms deadline) (start_ms - 100000, 0, k, e);
     s \<leftarrow> remove_socket S h (interface k);
     Some (sent, rtt_ms, k\<lparr>interface := s\<rparr>, e)
   })"

subsection \<open>Sockets\<close>

text \<open>\<^verbatim>\<open>next_fd += 1\<close> on an \<open>i32\<close> wraps.\<close>

definition next_i32 :: "int \<Rightarrow> int" where
  "next_i32 n = sint (of_int (n + 1) :: u32)"

definition add_entry :: "SocketType \<Rightarrow> new_socket \<Rightarrow> 's smoltcp \<Rightarrow> 's NetworkStack \<Rightarrow> int \<times> 's NetworkStack" where
  "add_entry t sock S k =
     (let (h, s) = lib_add S sock (interface k);
          fd = next_fd k
      in (fd, k\<lparr>interface := s, next_fd := next_i32 fd,
                socket_map := bt_insert fd \<lparr>socket_type = t, handle = h, state = Open, listening_socket = None\<rparr> (socket_map k)\<rparr>))"

definition create_tcp_socket :: "'s smoltcp \<Rightarrow> 's NetworkStack \<Rightarrow> int \<times> 's NetworkStack" where
  "create_tcp_socket = add_entry Tcp (New_tcp 4096 4096)"

definition create_udp_socket :: "'s smoltcp \<Rightarrow> 's NetworkStack \<Rightarrow> int \<times> 's NetworkStack" where
  "create_udp_socket = add_entry Udp (New_udp 16 4096 16 4096)"

definition tcp_handle :: "int \<Rightarrow> 's NetworkStack \<Rightarrow> nat option" where
  "tcp_handle fd k =
     (case bt_get fd (socket_map k) of
        None \<Rightarrow> None
      | Some entry \<Rightarrow> if socket_type entry \<noteq> Tcp then None else Some (handle entry))"

definition local_port_of :: "int \<Rightarrow> u16" where
  "local_port_of fd = 49152 + of_int fd mod 16384"

text \<open>After a timeout the code fetches the socket once more for its report.\<close>

definition connect_round ::
    "'s smoltcp \<Rightarrow> nat \<Rightarrow> u64 \<Rightarrow> 's running \<Rightarrow> ('s running + int \<times> 's running) option" where
  "connect_round S h handshake_deadline = (\<lambda>(k, e). do {
     let (t, e) = timer_get_ticks e;
     if sint (t * 10) \<ge> sint handshake_deadline then need S Tcp_sock h (interface k) \<bind> (\<lambda>_. Some (Inr (- 1, k, e)))
     else do {
       (k, e) \<leftarrow> poll S (k, e);
       need S Tcp_sock h (interface k);
       if lib_tcp_is_active S h (interface k) \<and> lib_tcp_state S h (interface k) = St_established then Some (Inr (0, k, e))
       else Some (Inl (k, e))
     }
   })"

definition tcp_connect :: "'s smoltcp \<Rightarrow> int \<Rightarrow> ip4 \<Rightarrow> u16 \<Rightarrow> 's running \<Rightarrow> (int \<times> 's running) option" where
  "tcp_connect S fd ip port = (\<lambda>(k, e).
     case tcp_handle fd k of
       None \<Rightarrow> Some (- 1, k, e)
     | Some h \<Rightarrow> do {
         need S Tcp_sock h (interface k);
         let (ok, s) = lib_tcp_connect S h ip port (local_port_of fd) (interface k);
         let k = k\<lparr>interface := s\<rparr>;
         if \<not> ok then Some (- 1, k, e)
         else do {
           let (t, e) = timer_get_ticks e;
           loop_until (connect_round S h (t * 10 + 3000)) (k, e)
         }
       })"

definition tcp_bind :: "'s smoltcp \<Rightarrow> int \<Rightarrow> u16 \<Rightarrow> 's NetworkStack \<Rightarrow> (int \<times> 's NetworkStack) option" where
  "tcp_bind S fd port k =
     (case bt_get fd (socket_map k) of
        None \<Rightarrow> Some (- 1, k)
      | Some entry \<Rightarrow>
          if socket_type entry \<noteq> Tcp then Some (- 1, k)
          else do {
            need S Tcp_sock (handle entry) (interface k);
            let (ok, s) = lib_tcp_listen S (handle entry) port (interface k);
            let k = k\<lparr>interface := s\<rparr>;
            if ok then Some (0, k\<lparr>socket_map := bt_insert fd (entry\<lparr>state := Listening\<rparr>) (socket_map k)\<rparr>)
            else Some (- 1, k)
          })"

text \<open>Up to a hundred polls until the socket is active.\<close>

fun poll_until_active :: "nat \<Rightarrow> 's smoltcp \<Rightarrow> nat \<Rightarrow> 's running \<Rightarrow> 's running option" where
  "poll_until_active 0 S h st = Some st"
| "poll_until_active (Suc n) S h st = do {
     (k, e) \<leftarrow> poll S st;
     need S Tcp_sock h (interface k);
     if lib_tcp_is_active S h (interface k) then Some (k, e) else poll_until_active n S h (k, e)
   }"

definition send_round ::
    "'s smoltcp \<Rightarrow> nat \<Rightarrow> u8 list \<Rightarrow> u64 \<Rightarrow> 's running \<Rightarrow> ('s running + nat \<times> 's running) option" where
  "send_round S h data deadline = (\<lambda>(k, e). do {
     let (t, e) = timer_get_ticks e;
     if sint (t * 10) \<ge> sint deadline then Some (Inr (0, k, e))
     else do {
       need S Tcp_sock h (interface k);
       if \<not> lib_tcp_is_active S h (interface k) then Some (Inr (0, k, e))
       else if lib_tcp_may_send S h (interface k) \<and> lib_tcp_can_send S h (interface k) then
         let (r, s) = lib_tcp_send S h data (interface k);
             k = k\<lparr>interface := s\<rparr>
         in case r of
              Some len \<Rightarrow> Some (Inr (len, k, e))
            | None \<Rightarrow> polls 5 S (k, e) \<bind> (\<lambda>st. Some (Inl st))
       else polls 5 S (k, e) \<bind> (\<lambda>st. Some (Inl st))
     }
   })"

definition tcp_send :: "'s smoltcp \<Rightarrow> int \<Rightarrow> u8 list \<Rightarrow> 's running \<Rightarrow> (int \<times> 's running) option" where
  "tcp_send S fd data = (\<lambda>(k, e).
     case tcp_handle fd k of
       None \<Rightarrow> Some (- 1, k, e)
     | Some h \<Rightarrow> do {
         (k, e) \<leftarrow> poll_until_active 100 S h (k, e);
         need S Tcp_sock h (interface k);
         if \<not> lib_tcp_is_active S h (interface k) then Some (- 1, k, e)
         else do {
           let (t, e) = timer_get_ticks e;
           (total_sent, k, e) \<leftarrow> loop_until (send_round S h data (t * 10 + 10000)) (k, e);
           Some (if total_sent > 0 then int total_sent else - 1, k, e)
         }
       })"

text \<open>The received bytes go to the start of the caller's buffer.\<close>

definition tcp_recv :: "'s smoltcp \<Rightarrow> int \<Rightarrow> u8 list \<Rightarrow> 's NetworkStack \<Rightarrow> (int \<times> u8 list \<times> 's NetworkStack) option" where
  "tcp_recv S fd buffer k =
     (case tcp_handle fd k of
        None \<Rightarrow> Some (- 1, buffer, k)
      | Some h \<Rightarrow> do {
          need S Tcp_sock h (interface k);
          let (r, s) = lib_tcp_recv S h (length buffer) (interface k);
          let k = k\<lparr>interface := s\<rparr>;
          case r of
            Some data \<Rightarrow> Some (int (length data), data @ drop (length data) buffer, k)
          | None \<Rightarrow> Some (- 1, buffer, k)
        })"

definition close_socket :: "'s smoltcp \<Rightarrow> int \<Rightarrow> 's NetworkStack \<Rightarrow> (int \<times> 's NetworkStack) option" where
  "close_socket S fd k =
     (case bt_get fd (socket_map k) of
        None \<Rightarrow> Some (- 1, k)
      | Some entry \<Rightarrow> do {
          s \<leftarrow> remove_socket S (handle entry) (interface k);
          Some (0, k\<lparr>socket_map := bt_remove fd (socket_map k), interface := s\<rparr>)
        })"

subsection \<open>Exported functions\<close>

text \<open>The global stack behind its spin lock. A second \<^verbatim>\<open>lock\<close> while the lock is held never returns.\<close>

record 's net_sys =
  NETWORK_STACK :: "'s NetworkStack option"
  locked :: bool
  env :: net_env

definition with_stack :: "'r \<Rightarrow> ('s running \<Rightarrow> ('r \<times> 's running) option) \<Rightarrow> 's net_sys \<Rightarrow> ('r \<times> 's net_sys) option" where
  "with_stack absent f y =
     (if locked y then None
      else case NETWORK_STACK y of
             None \<Rightarrow> Some (absent, y)
           | Some k \<Rightarrow> f (k, env y) \<bind> (\<lambda>(r, k, e). Some (r, y\<lparr>NETWORK_STACK := Some k, env := e\<rparr>)))"

definition on_stack :: "('s NetworkStack \<Rightarrow> ('r \<times> 's NetworkStack) option) \<Rightarrow> 's running \<Rightarrow> ('r \<times> 's running) option" where
  "on_stack f = (\<lambda>(k, e). f k \<bind> (\<lambda>(r, k). Some (r, k, e)))"

definition install_stack :: "('s NetworkStack \<times> net_env) option \<Rightarrow> 's net_sys \<Rightarrow> (int \<times> 's net_sys) option" where
  "install_stack made y = do {
     (k, e) \<leftarrow> made;
     if locked y then None else Some (0, y\<lparr>NETWORK_STACK := Some k, env := e\<rparr>)
   }"

definition network_init_rtl8139 :: "bool \<Rightarrow> 's smoltcp \<Rightarrow> u16 \<Rightarrow> 's net_sys \<Rightarrow> (int \<times> 's net_sys) option" where
  "network_init_rtl8139 qemu S io_base y = do {
     let n = e_nics (env y);
     (r, g, w) \<leftarrow> rtl8139_init io_base (RTL8139_DEVICE n) (nic_world_of n);
     let n = n\<lparr>RTL8139_DEVICE := g, nic_world_of := w\<rparr>;
     if r = 0 then
       let e = (env y)\<lparr>e_nics := n\<lparr>ACTIVE_DRIVER := Some Rtl8139\<rparr>\<rparr> in install_stack (new_stack qemu S e) (y\<lparr>env := e\<rparr>)
     else Some (- 1, y\<lparr>env := (env y)\<lparr>e_nics := n\<rparr>\<rparr>)
   }"

definition network_init_e1000 :: "bool \<Rightarrow> 's smoltcp \<Rightarrow> u64 \<Rightarrow> 's net_sys \<Rightarrow> (int \<times> 's net_sys) option" where
  "network_init_e1000 qemu S mem_base y = do {
     let n = e_nics (env y);
     (r, g, w) \<leftarrow> e1000_init mem_base (E1000_DEVICE n) (nic_world_of n);
     let n = n\<lparr>E1000_DEVICE := g, nic_world_of := w\<rparr>;
     if r = 0 then
       let e = (env y)\<lparr>e_nics := n\<lparr>ACTIVE_DRIVER := Some E1000\<rparr>\<rparr> in install_stack (new_stack qemu S e) (y\<lparr>env := e\<rparr>)
     else Some (- 1, y\<lparr>env := (env y)\<lparr>e_nics := n\<rparr>\<rparr>)
   }"

definition network_init_pcnet :: "bool \<Rightarrow> 's smoltcp \<Rightarrow> u16 \<Rightarrow> 's net_sys \<Rightarrow> (int \<times> 's net_sys) option" where
  "network_init_pcnet qemu S io_base y = do {
     let n = e_nics (env y);
     (r, g, w) \<leftarrow> pcnet_init io_base (PCNET_DEVICE n) (nic_world_of n);
     let n = n\<lparr>PCNET_DEVICE := g, nic_world_of := w\<rparr>;
     if r = 0 then
       let e = (env y)\<lparr>e_nics := n\<lparr>ACTIVE_DRIVER := Some Pcnet\<rparr>\<rparr> in install_stack (new_stack qemu S e) (y\<lparr>env := e\<rparr>)
     else Some (- 1, y\<lparr>env := (env y)\<lparr>e_nics := n\<rparr>\<rparr>)
   }"

definition network_init :: "bool \<Rightarrow> 's smoltcp \<Rightarrow> 's net_sys \<Rightarrow> (int \<times> 's net_sys) option" where
  "network_init qemu S y =
     (if ACTIVE_DRIVER (e_nics (env y)) \<noteq> None then install_stack (new_stack qemu S (env y)) y else Some (- 1, y))"

definition network_init_with_ip :: "'s smoltcp \<Rightarrow> ip4 \<Rightarrow> ip4 \<Rightarrow> 's net_sys \<Rightarrow> (int \<times> 's net_sys) option" where
  "network_init_with_ip S ip gw y =
     (if ACTIVE_DRIVER (e_nics (env y)) \<noteq> None then install_stack (new_with_ip S ip gw (env y)) y else Some (- 1, y))"

definition network_poll :: "'s smoltcp \<Rightarrow> 's net_sys \<Rightarrow> 's net_sys option" where
  "network_poll S y =
     (if locked y then Some y
      else case NETWORK_STACK y of
             None \<Rightarrow> Some y
           | Some k \<Rightarrow> poll S (k, env y) \<bind> (\<lambda>(k, e). Some (y\<lparr>NETWORK_STACK := Some k, env := e\<rparr>)))"

definition net_icmp_ping :: "'s smoltcp \<Rightarrow> ip4 option \<Rightarrow> int \<Rightarrow> 's net_sys \<Rightarrow> (int \<times> 's net_sys) option" where
  "net_icmp_ping S ip timeout_ms y =
     (case ip of
        None \<Rightarrow> Some (- 1, y)
      | Some a \<Rightarrow> with_stack (- 1) (\<lambda>st. icmp_ping S a timeout_ms st \<bind> (\<lambda>(_, r, st). Some (r, st))) y)"

definition sock_socket :: "'s smoltcp \<Rightarrow> 's net_sys \<Rightarrow> (int \<times> 's net_sys) option" where
  "sock_socket S = with_stack (- 1) (on_stack (\<lambda>k. Some (create_tcp_socket S k)))"

definition sock_connect :: "'s smoltcp \<Rightarrow> int \<Rightarrow> ip4 \<Rightarrow> u16 \<Rightarrow> 's net_sys \<Rightarrow> (int \<times> 's net_sys) option" where
  "sock_connect S fd ip port = with_stack (- 1) (tcp_connect S fd ip port)"

definition sock_bind :: "'s smoltcp \<Rightarrow> int \<Rightarrow> u16 \<Rightarrow> 's net_sys \<Rightarrow> (int \<times> 's net_sys) option" where
  "sock_bind S fd port = with_stack (- 1) (on_stack (tcp_bind S fd port))"

definition sock_listen :: "int \<Rightarrow> int \<Rightarrow> 's net_sys \<Rightarrow> (int \<times> 's net_sys) option" where
  "sock_listen fd backlog = with_stack (- 1) (\<lambda>st. Some (0, st))"

text \<open>A null output pointer is \<open>None\<close>; otherwise the value is what the pointer refers to.\<close>

definition fill :: "u8 list \<Rightarrow> u8 list option \<Rightarrow> u8 list option" where
  "fill v out = map_option (\<lambda>old. v @ drop (length v) old) out"

definition accept_on ::
    "'s smoltcp \<Rightarrow> int \<Rightarrow> u8 list option \<Rightarrow> u16 option \<Rightarrow> 's NetworkStack \<Rightarrow>
     ((int \<times> u8 list option \<times> u16 option) \<times> 's NetworkStack) option" where
  "accept_on S fd out_ip out_port k =
     (case bt_get fd (socket_map k) of
        None \<Rightarrow> Some ((- 1, out_ip, out_port), k)
      | Some listening_entry \<Rightarrow>
          if state listening_entry \<noteq> Listening then Some ((- 1, out_ip, out_port), k)
          else do {
            need S Tcp_sock (handle listening_entry) (interface k);
            if lib_tcp_is_active S (handle listening_entry) (interface k) then
              let k' = k\<lparr>socket_map := bt_insert fd (listening_entry\<lparr>state := Connected\<rparr>) (socket_map k)\<rparr> in
              case lib_tcp_remote S (handle listening_entry) (interface k) of
                None \<Rightarrow> Some ((fd, out_ip, out_port), k')
              | Some (addr, port) \<Rightarrow> Some ((fd, fill addr out_ip, map_option (\<lambda>_. port) out_port), k')
            else Some ((- 1, out_ip, out_port), k)
          })"

definition sock_accept ::
    "'s smoltcp \<Rightarrow> int \<Rightarrow> u8 list option \<Rightarrow> u16 option \<Rightarrow> 's net_sys \<Rightarrow>
     ((int \<times> u8 list option \<times> u16 option) \<times> 's net_sys) option" where
  "sock_accept S fd out_ip out_port = with_stack (- 1, out_ip, out_port) (on_stack (accept_on S fd out_ip out_port))"

definition sock_send :: "'s smoltcp \<Rightarrow> int \<Rightarrow> u8 list \<Rightarrow> 's net_sys \<Rightarrow> (int \<times> 's net_sys) option" where
  "sock_send S fd data = with_stack (- 1) (tcp_send S fd data)"

definition sock_recv :: "'s smoltcp \<Rightarrow> int \<Rightarrow> u8 list \<Rightarrow> 's net_sys \<Rightarrow> ((int \<times> u8 list) \<times> 's net_sys) option" where
  "sock_recv S fd buffer =
     with_stack (- 1, buffer) (on_stack (\<lambda>k. tcp_recv S fd buffer k \<bind> (\<lambda>(r, b, k). Some ((r, b), k))))"

definition sock_close :: "'s smoltcp \<Rightarrow> int \<Rightarrow> 's net_sys \<Rightarrow> (int \<times> 's net_sys) option" where
  "sock_close S fd = with_stack (- 1) (on_stack (close_socket S fd))"

definition sock_set_nonblock :: "int \<Rightarrow> int \<Rightarrow> int" where
  "sock_set_nonblock fd nonblock = 0"

definition sock_poll :: "'s smoltcp \<Rightarrow> 's net_sys \<Rightarrow> (int \<times> 's net_sys) option" where
  "sock_poll S y = network_poll S y \<bind> (\<lambda>y. Some (0, y))"

definition netmask :: "nat \<Rightarrow> u32" where
  "netmask prefix_len = (if prefix_len = 0 then 0 else push_bit (32 - prefix_len) (NOT 0))"

definition be_bytes32 :: "u32 \<Rightarrow> u8 list" where
  "be_bytes32 v = [ucast (drop_bit 24 v), ucast (drop_bit 16 v), ucast (drop_bit 8 v), ucast v]"

record net_outputs =
  ip_out :: "u8 list option"
  netmask_out :: "u8 list option"
  gateway_out :: "u8 list option"
  mac_out :: "u8 list option"

definition config_of :: "'s smoltcp \<Rightarrow> net_outputs \<Rightarrow> 's NetworkStack \<Rightarrow> int \<times> net_outputs" where
  "config_of S out k =
     (let out = out\<lparr>mac_out := fill (device_mac (device k)) (mac_out out)\<rparr> in
      case lib_addrs S (interface k) of
        [] \<Rightarrow> (0, out)
      | (ip, prefix_len) # _ \<Rightarrow>
          let out = out\<lparr>ip_out := fill ip (ip_out out), netmask_out := fill (be_bytes32 (netmask prefix_len)) (netmask_out out)\<rparr>;
              out = out\<lparr>gateway_out := fill (case gateway k of Some gw \<Rightarrow> gw | None \<Rightarrow> [0, 0, 0, 0]) (gateway_out out)\<rparr>
          in (1, out))"

definition net_get_config :: "'s smoltcp \<Rightarrow> net_outputs \<Rightarrow> 's net_sys \<Rightarrow> ((int \<times> net_outputs) \<times> 's net_sys) option" where
  "net_get_config S out = with_stack (- 1, out) (on_stack (\<lambda>k. Some (config_of S out k, k)))"

text \<open>The dispatch of \<^verbatim>\<open>pci_net.rs\<close> over the three initialisations.\<close>

definition pci_net_init_device :: "bool \<Rightarrow> 's smoltcp \<Rightarrow> u16 \<Rightarrow> u16 \<Rightarrow> u16 \<Rightarrow> u64 \<Rightarrow> 's net_sys \<Rightarrow> (int \<times> 's net_sys) option" where
  "pci_net_init_device qemu S vendor_id device_id io_base mem_base y =
     (let report = (\<lambda>t. y\<lparr>env := (env y)\<lparr>e_nics := on_world (say_line t) (e_nics (env y))\<rparr>\<rparr>) in
      case identify vendor_id device_id of
        Nic_Rtl \<Rightarrow> network_init_rtl8139 qemu S io_base (report ''[PCI] Found RTL8139 network card, initializing...'')
      | Nic_Intel \<Rightarrow> network_init_e1000 qemu S mem_base (report ''[PCI] Found Intel E1000 network card, initializing...'')
      | Nic_Amd \<Rightarrow> network_init_pcnet qemu S io_base (report ''[PCI] Found AMD PCnet network card, initializing...'')
      | Nic_Unknown \<Rightarrow> Some (- 1, report ''[PCI] Unknown network device''))"


section \<open>What the library promises\<close>

text \<open>A new socket set and interface are empty; adding a socket gives an unused handle; only adding and
  removing change which sockets there are; a poll reaches the drivers only through the device adapter;
  addresses and a default route can be set on a new interface; no more bytes are taken or returned than
  there are.\<close>

definition smoltcp_ok :: "'s smoltcp \<Rightarrow> bool" where
  "smoltcp_ok S \<longleftrightarrow>
     (\<forall>m t h. lib_kind S (lib_new S m t) h = None) \<and> (\<forall>m t. lib_addrs S (lib_new S m t) = []) \<and>
     (\<forall>x s. lib_kind S s (fst (lib_add S x s)) = None \<and>
        lib_kind S (snd (lib_add S x s)) = (lib_kind S s)(fst (lib_add S x s) \<mapsto> kind_of x)) \<and>
     (\<forall>h s. lib_kind S (lib_remove S h s) = (lib_kind S s)(h := None)) \<and>
     (\<forall>t d s n b s' n'. lib_poll S t d s n = Some (b, s', n') \<longrightarrow> lib_kind S s' = lib_kind S s \<and> nic_step\<^sup>*\<^sup>* n n') \<and>
     (\<forall>l s. lib_kind S (lib_set_addrs S l s) = lib_kind S s \<and> lib_addrs S (lib_set_addrs S l s) = l) \<and>
     (\<forall>g s s'. lib_add_route S g s = Some s' \<longrightarrow> lib_kind S s' = lib_kind S s \<and> lib_addrs S s' = lib_addrs S s) \<and>
     (\<forall>g l m t. lib_add_route S g (lib_set_addrs S l (lib_new S m t)) \<noteq> None) \<and>
     (\<forall>h s. lib_kind S (snd (lib_dhcp_poll S h s)) = lib_kind S s) \<and>
     (\<forall>h d a s. lib_kind S (snd (lib_icmp_send S h d a s)) = lib_kind S s) \<and>
     (\<forall>h s. lib_kind S (snd (lib_icmp_recv S h s)) = lib_kind S s) \<and>
     (\<forall>h a p q s. lib_kind S (snd (lib_tcp_connect S h a p q s)) = lib_kind S s) \<and>
     (\<forall>h p s. lib_kind S (snd (lib_tcp_listen S h p s)) = lib_kind S s) \<and>
     (\<forall>h d s. lib_kind S (snd (lib_tcp_send S h d s)) = lib_kind S s) \<and>
     (\<forall>h d s n. fst (lib_tcp_send S h d s) = Some n \<longrightarrow> n \<le> length d) \<and>
     (\<forall>h m s. lib_kind S (snd (lib_tcp_recv S h m s)) = lib_kind S s) \<and>
     (\<forall>h m s d. fst (lib_tcp_recv S h m s) = Some d \<longrightarrow> length d \<le> m)"

lemma smoltcp_okD:
  assumes "smoltcp_ok S"
  shows "lib_kind S (lib_new S m t) h = None" "lib_addrs S (lib_new S m t) = []"
    "lib_kind S s (fst (lib_add S x s)) = None"
    "lib_kind S (snd (lib_add S x s)) = (lib_kind S s)(fst (lib_add S x s) \<mapsto> kind_of x)"
    "lib_kind S (lib_remove S h s) = (lib_kind S s)(h := None)"
    "lib_kind S (lib_set_addrs S l s) = lib_kind S s" "lib_addrs S (lib_set_addrs S l s) = l"
    "lib_kind S (snd (lib_dhcp_poll S h s)) = lib_kind S s"
    "lib_kind S (snd (lib_icmp_send S h d a s)) = lib_kind S s"
    "lib_kind S (snd (lib_icmp_recv S h s)) = lib_kind S s"
    "lib_kind S (snd (lib_tcp_connect S h a p q s)) = lib_kind S s"
    "lib_kind S (snd (lib_tcp_listen S h p s)) = lib_kind S s"
    "lib_kind S (snd (lib_tcp_send S h d s)) = lib_kind S s"
    "lib_kind S (snd (lib_tcp_recv S h n s)) = lib_kind S s"
  using assms unfolding smoltcp_ok_def by metis+

lemma smoltcp_ok_poll:
  assumes "smoltcp_ok S" "lib_poll S t d s n = Some (b, s', n')"
  shows "lib_kind S s' = lib_kind S s" "nic_step\<^sup>*\<^sup>* n n'"
  using assms unfolding smoltcp_ok_def by metis+

lemma smoltcp_ok_route:
  assumes "smoltcp_ok S"
  shows "lib_add_route S g s = Some s' \<Longrightarrow> lib_kind S s' = lib_kind S s"
    and "lib_add_route S g s = Some s' \<Longrightarrow> lib_addrs S s' = lib_addrs S s"
    and "\<exists>s'. lib_add_route S g (lib_set_addrs S l (lib_new S m t)) = Some s'"
  using assms unfolding smoltcp_ok_def by (metis option.exhaust)+

lemma smoltcp_ok_counts:
  assumes "smoltcp_ok S"
  shows "fst (lib_tcp_send S h d s) = Some n \<Longrightarrow> n \<le> length d" "fst (lib_tcp_recv S h m s) = Some b \<Longrightarrow> length b \<le> m"
  using assms unfolding smoltcp_ok_def by metis+

text \<open>The drivers return from every call the library makes.\<close>

definition polls_return :: "'s smoltcp \<Rightarrow> bool" where
  "polls_return S \<longleftrightarrow> (\<forall>t d s n. lib_poll S t d s n \<noteq> None)"

section \<open>Steps that leave the descriptors alone\<close>

text \<open>\<open>follows\<close>: same descriptors and sockets, the drivers moved by adapter calls, time went on.\<close>

definition follows :: "'s smoltcp \<Rightarrow> 's running \<Rightarrow> 's running \<Rightarrow> bool" where
  "follows S = (\<lambda>(k, e) (k', e').
     device k' = device k \<and> socket_map k' = socket_map k \<and> next_fd k' = next_fd k \<and> gateway k' = gateway k \<and>
     lib_kind S (interface k') = lib_kind S (interface k) \<and> nic_step\<^sup>*\<^sup>* (e_nics e) (e_nics e') \<and>
     ticks e' = ticks e \<and> ticks_read e \<le> ticks_read e')"

lemma follows_refl [simp]: "follows S st st"
  by (simp add: follows_def split_beta)

lemma follows_trans: "follows S st st' \<Longrightarrow> follows S st' st'' \<Longrightarrow> follows S st st''"
  by (auto simp: follows_def split_beta)

lemma follows_interface:
  "lib_kind S s = lib_kind S (interface k) \<Longrightarrow> follows S (k, e) (k\<lparr>interface := s\<rparr>, e)"
  by (simp add: follows_def)

lemma follows_tick: "follows S (k, e) (k, e\<lparr>ticks_read := Suc (ticks_read e)\<rparr>)"
  by (simp add: follows_def)

lemma poll_once_follows:
  assumes "smoltcp_ok S" "poll_once S (k, e) = Some (b, k', e')"
  shows "follows S (k, e) (k', e')" "ticks_read e' = Suc (ticks_read e)"
  using assms smoltcp_ok_poll [OF assms(1)]
  by (auto simp: poll_once_def timer_get_ticks_def bind_eq_Some_conv follows_def Let_def)

lemma poll_once_returns: "polls_return S \<Longrightarrow> \<exists>b k' e'. poll_once S (k, e) = Some (b, k', e')"
  by (auto simp: polls_return_def poll_once_def timer_get_ticks_def Let_def split: option.splits bind_split)

lemma poll_loop_follows:
  assumes "smoltcp_ok S" "poll_loop S r idle (k, e) = Some (k', e')"
  shows "follows S (k, e) (k', e') \<and> ticks_read e' \<le> ticks_read e + r \<and>
    (idle < 3 \<longrightarrow> ticks_read e + min r (3 - idle) \<le> ticks_read e')"
  using assms(2)
proof (induction r arbitrary: idle k e)
  case (Suc r)
  obtain b k1 e1 where p: "poll_once S (k, e) = Some (b, k1, e1)" using Suc.prems by (auto split: option.splits)
  note f = poll_once_follows [OF assms(1) p]
  consider "b" "poll_loop S r 0 (k1, e1) = Some (k', e')"
    | "\<not> b" "Suc idle \<ge> 3" "k' = k1" "e' = e1"
    | "\<not> b" "Suc idle < 3" "poll_loop S r (Suc idle) (k1, e1) = Some (k', e')"
    using Suc.prems p by (auto simp: IDLE_THRESHOLD_def split: if_splits)
  then show ?case
  proof cases
    case 1
    show ?thesis using f Suc.IH [OF 1(2)] by (auto intro: follows_trans)
  next
    case 2
    with f show ?thesis by auto
  next
    case 3
    show ?thesis using f Suc.IH [OF 3(3)] 3(2) by (auto intro: follows_trans)
  qed
qed simp

lemma poll_loop_returns: "polls_return S \<Longrightarrow> \<exists>k' e'. poll_loop S r idle (k, e) = Some (k', e')"
proof (induction r arbitrary: idle k e)
  case (Suc r)
  obtain b k1 e1 where "poll_once S (k, e) = Some (b, k1, e1)" using poll_once_returns [OF Suc.prems] by blast
  with Suc.IH [OF Suc.prems] show ?case by auto
qed simp

lemma poll_follows:
  assumes "smoltcp_ok S" "poll S (k, e) = Some (k', e')"
  shows "follows S (k, e) (k', e')" "ticks_read e + 3 \<le> ticks_read e'" "ticks_read e' \<le> ticks_read e + 200"
  using poll_loop_follows [OF assms(1) assms(2) [unfolded poll_def]] by (simp_all add: MAX_POLL_ITERATIONS_def)

lemma poll_returns: "polls_return S \<Longrightarrow> \<exists>k' e'. poll S (k, e) = Some (k', e')"
  by (simp add: poll_def poll_loop_returns)

lemma polls_follows:
  assumes "smoltcp_ok S" "polls n S (k, e) = Some (k', e')"
  shows "follows S (k, e) (k', e') \<and> ticks_read e' \<le> ticks_read e + 200 * n"
  using assms(2)
proof (induction n arbitrary: k e)
  case (Suc n)
  obtain k1 e1 where p: "poll S (k, e) = Some (k1, e1)" "polls n S (k1, e1) = Some (k', e')"
    using Suc.prems by (auto simp: bind_eq_Some_conv)
  show ?case using poll_follows [OF assms(1) p(1)] Suc.IH [OF p(2)] by (auto intro: follows_trans)
qed simp

lemma polls_returns: "polls_return S \<Longrightarrow> \<exists>k' e'. polls n S (k, e) = Some (k', e')"
proof (induction n arbitrary: k e)
  case (Suc n)
  obtain k1 e1 where "poll S (k, e) = Some (k1, e1)" using poll_returns [OF Suc.prems] by blast
  with Suc.IH [OF Suc.prems] show ?case by simp
qed simp

end
