(* ===== verification/Net_Waits.thy ===== *)
theory Net_Waits
  imports Net_Stack
begin

text \<open>
  The waiting loops of the network stack. They end because the tick counter runs: \<open>clock_serves\<close> says of the
  stream of readings that it never falls, stays below \<open>2 ^ 59\<close> and comes to a given number of ticks after
  every reading a call can start its wait from (no call reads the clock 30000 times before its wait).
  \<open>wait_loop_value\<close> and \<open>wait_loop_ends\<close> are the two rules the connect, send and ping loops share.
\<close>

section \<open>Time\<close>

definition clock_serves :: "nat \<Rightarrow> net_env \<Rightarrow> bool" where
  "clock_serves D e \<longleftrightarrow>
     (\<forall>i j. i \<le> j \<longrightarrow> unat (ticks e i) \<le> unat (ticks e j)) \<and> (\<forall>i. unat (ticks e i) < 2 ^ 59) \<and>
     (\<exists>j. unat (ticks e (ticks_read e + 30000)) + D \<le> unat (ticks e j))"

lemma tick_ms:
  assumes "unat (t :: u64) < 2 ^ 59" "- (2 ^ 31) \<le> d" "d < 2 ^ 31"
  shows "sint (t * 10 + of_int d) = 10 * int (unat t) + d"
proof -
  have "t * 10 + of_int d = (of_int (10 * int (unat t) + d) :: u64)" by simp
  then have "sint (t * 10 + of_int d) = signed_take_bit 63 (10 * int (unat t) + d)"
    by (simp only: sint_sbintrunc' len_bit0 len_num1) simp
  also have "\<dots> = 10 * int (unat t) + d"
  proof (rule signed_take_bit_int_eq_self)
    have t: "unat t < 576460752303423488" "- 2147483648 \<le> d" "d < 2147483648" using assms by simp_all
    have "- 9223372036854775808 \<le> 10 * int (unat t) + d" "10 * int (unat t) + d < 9223372036854775808" using t by linarith+
    then show "- (2 ^ 63) \<le> 10 * int (unat t) + d" "10 * int (unat t) + d < 2 ^ 63" by (simp_all del: unat_eq_nat_uint of_nat_unat)
  qed
  finally show ?thesis .
qed

lemma tick_ms0: "unat (t :: u64) < 2 ^ 59 \<Longrightarrow> sint (t * 10) = 10 * int (unat t)"
  using tick_ms [of t 0] by simp

lemma clock_mono: "clock_serves D e \<Longrightarrow> i \<le> j \<Longrightarrow> unat (ticks e i) \<le> unat (ticks e j)"
  unfolding clock_serves_def by blast

lemma clock_bound: "clock_serves D e \<Longrightarrow> unat (ticks e i) < 2 ^ 59"
  unfolding clock_serves_def by blast

lemma clock_from:
  assumes "clock_serves D e" "i \<le> ticks_read e + 30000"
  shows "\<exists>J. \<forall>j \<ge> J. unat (ticks e i) + D \<le> unat (ticks e j)"
proof -
  from assms(1) obtain J where J: "unat (ticks e (ticks_read e + 30000)) + D \<le> unat (ticks e J)" unfolding clock_serves_def by blast
  show ?thesis
  proof (intro exI [of _ J] allI impI)
    fix j assume "J \<le> j"
    from clock_mono [OF assms(1) this] clock_mono [OF assms] J show "unat (ticks e i) + D \<le> unat (ticks e j)" by linarith
  qed
qed

text \<open>A loop whose rounds each read the clock ends when a round started late enough leaves it.\<close>

lemma clock_loop_ends:
  fixes body :: "'x \<Rightarrow> ('x + 'r) option"
  assumes "P s"
    and "\<And>s. P s \<Longrightarrow> \<exists>v. body s = Some v \<and>
      (case v of Inl s' \<Rightarrow> P s' \<and> at s < at s' \<and> at s < (J :: nat) | Inr r \<Rightarrow> Q r)"
  shows "\<exists>r. loop_until body s = Some r \<and> Q r"
proof (rule loop_until_ends [where P = P and m = "\<lambda>s. J - at s"])
  show "P s" by fact
  fix s assume "P s"
  then obtain v where v: "body s = Some v" "case v of Inl s' \<Rightarrow> P s' \<and> at s < at s' \<and> at s < J | Inr r \<Rightarrow> Q r"
    using assms(2) by blast
  then show "\<exists>v. body s = Some v \<and> (case v of Inl s' \<Rightarrow> P s' \<and> J - at s' < J - at s | Inr r \<Rightarrow> Q r)"
    by (intro exI [of _ v]) (auto split: sum.splits)
qed

section \<open>The rounds\<close>

lemma need_iff: "need S x h s = Some () \<longleftrightarrow> lib_kind S s h = Some x" "need S x h s = None \<longleftrightarrow> lib_kind S s h \<noteq> Some x"
  by (simp_all add: need_def)

lemma follows_kind: "follows S (k, e) (k', e') \<Longrightarrow> lib_kind S (interface k') = lib_kind S (interface k)"
  by (simp add: follows_def)

lemma follows_step:
  assumes "follows S (k, e\<lparr>ticks_read := Suc (ticks_read e)\<rparr>) (k', e')"
  shows "follows S (k, e) (k', e')" "ticks_read e < ticks_read e'"
  using assms follows_trans [OF follows_tick assms] by (auto simp: follows_def)

lemma follows_iface:
  assumes "follows S (k\<lparr>interface := s\<rparr>, e) st" "lib_kind S s = lib_kind S (interface k)"
  shows "follows S (k, e) st"
  using follows_trans [OF follows_interface [of S s k e] assms(1)] assms(2) by simp

lemma connect_round_follows:
  assumes "smoltcp_ok S" "connect_round S h dl (k, e) = Some v"
  shows "case v of Inl (k', e') \<Rightarrow> follows S (k, e) (k', e') \<and> ticks_read e < ticks_read e' \<and> sint (ticks e (ticks_read e) * 10) < sint dl
    | Inr (r, k', e') \<Rightarrow> follows S (k, e) (k', e') \<and> r \<in> {0, - 1} \<and>
        (r = 0 \<longrightarrow> lib_tcp_state S h (interface k') = St_established)"
proof (cases "sint (ticks e (ticks_read e) * 10) \<ge> sint dl")
  case True
  then show ?thesis using assms(2) follows_tick
    by (auto simp: connect_round_def timer_get_ticks_def Let_def bind_eq_Some_conv)
next
  case False
  then obtain k1 e1 where p: "poll S (k, e\<lparr>ticks_read := Suc (ticks_read e)\<rparr>) = Some (k1, e1)"
    using assms(2) by (auto simp: connect_round_def timer_get_ticks_def Let_def bind_eq_Some_conv)
  note f = follows_step [OF poll_follows(1) [OF assms(1) p]]
  show ?thesis using assms(2) False f p
    by (auto simp: connect_round_def timer_get_ticks_def Let_def bind_eq_Some_conv split: if_splits)
qed

lemma connect_round_returns:
  assumes "smoltcp_ok S" "polls_return S" "lib_kind S (interface k) h = Some Tcp_sock"
  shows "\<exists>v. connect_round S h dl (k, e) = Some v"
proof -
  obtain k1 e1 where p: "poll S (k, e\<lparr>ticks_read := Suc (ticks_read e)\<rparr>) = Some (k1, e1)" using poll_returns [OF assms(2)] by blast
  have "lib_kind S (interface k1) h = Some Tcp_sock" using follows_kind [OF poll_follows(1) [OF assms(1) p]] assms(3) by simp
  with p assms(3) show ?thesis by (auto simp: connect_round_def timer_get_ticks_def need_def)
qed

lemma send_round_follows:
  assumes "smoltcp_ok S" "send_round S h data dl (k, e) = Some v"
  shows "case v of Inl (k', e') \<Rightarrow> follows S (k, e) (k', e') \<and> ticks_read e < ticks_read e' \<and> sint (ticks e (ticks_read e) * 10) < sint dl
    | Inr (n, k', e') \<Rightarrow> follows S (k, e) (k', e') \<and> n \<le> length data"
proof -
  let ?e = "e\<lparr>ticks_read := Suc (ticks_read e)\<rparr>"
  let ?s = "snd (lib_tcp_send S h data (interface k))"
  have kind: "lib_kind S ?s = lib_kind S (interface k)" by (rule smoltcp_okD(13) [OF assms(1)])
  have a: "follows S (k, e) (k', e') \<and> ticks_read e < ticks_read e'" if "polls 5 S (k, ?e) = Some (k', e')" for k' e'
    using polls_follows [OF assms(1) that] follows_step by blast
  have b: "follows S (k, e) (k', e') \<and> ticks_read e < ticks_read e'" if "polls 5 S (k\<lparr>interface := ?s\<rparr>, ?e) = Some (k', e')" for k' e'
    using polls_follows [OF assms(1) that] follows_step [OF follows_iface [OF _ kind]] by blast
  have c: "follows S (k, e) (k\<lparr>interface := ?s\<rparr>, ?e)" using follows_iface [OF follows_refl kind] follows_step(1) by blast
  show ?thesis
    using assms(2) follows_tick [of S k e] a b c smoltcp_ok_counts(1) [OF assms(1), of h data "interface k"]
    by (auto simp: send_round_def timer_get_ticks_def Let_def bind_eq_Some_conv split_beta split: if_splits option.splits)
qed

lemma send_round_returns:
  assumes "smoltcp_ok S" "polls_return S" "lib_kind S (interface k) h = Some Tcp_sock"
  shows "\<exists>v. send_round S h data dl (k, e) = Some v"
proof -
  let ?e = "e\<lparr>ticks_read := Suc (ticks_read e)\<rparr>"
  obtain a b where "polls 5 S (k, ?e) = Some (a, b)" using polls_returns [OF assms(2)] by blast
  moreover obtain c d where "polls 5 S (k\<lparr>interface := snd (lib_tcp_send S h data (interface k))\<rparr>, ?e) = Some (c, d)"
    using polls_returns [OF assms(2)] by blast
  ultimately show ?thesis using assms(3)
    by (simp add: send_round_def timer_get_ticks_def need_def Let_def split_beta split: option.split)
qed

lemma ping_send_follows:
  assumes "smoltcp_ok S" "ping_send S h dest now (l, n, k, e) = Some (l', n', k', e')" "n \<le> 5"
  shows "follows S (k, e) (k', e')" "n' \<le> 5"
proof -
  have kind: "lib_kind S (snd (lib_icmp_send S h ping_payload dest (interface k))) = lib_kind S (interface k)"
    by (rule smoltcp_okD(9) [OF assms(1)])
  let ?k = "k\<lparr>interface := snd (lib_icmp_send S h ping_payload dest (interface k))\<rparr>"
  consider "k' = k" "e' = e" "n' = n" | "k' = ?k" "e' = e" "n' = n" | "n' = Suc n" "n < 5" "poll S (?k, e) = Some (k', e')"
    using assms(2) by (auto simp: ping_send_def Let_def split_beta bind_eq_Some_conv split: if_splits)
  then have "follows S (k, e) (k', e') \<and> n' \<le> 5"
  proof cases
    case 3
    then show ?thesis using follows_iface [OF poll_follows(1) [OF assms(1) 3(3)] kind] by simp
  qed (use assms(3) follows_interface [OF kind] in simp_all)
  then show "follows S (k, e) (k', e')" "n' \<le> 5" by simp_all
qed

lemma ping_round_follows:
  assumes "smoltcp_ok S" "ping_round S h dest st dl (l, n, k, e) = Some v" "n \<le> 5"
  shows "case v of
      Inl (l', n', k', e') \<Rightarrow> follows S (k, e) (k', e') \<and> n' \<le> 5 \<and> ticks_read e < ticks_read e' \<and> sint (ticks e (ticks_read e) * 10) < sint dl
    | Inr (n', r, k', e') \<Rightarrow> follows S (k, e) (k', e') \<and> n' \<le> 5 \<and>
        (r = - 1 \<or> sint (ticks e (ticks_read e) * 10) < sint dl \<and> r = sint (ucast (ticks e (ticks_read e) * 10 - st) :: u32))"
proof (cases "sint (ticks e (ticks_read e) * 10) \<ge> sint dl")
  case True
  then show ?thesis using assms(2,3) follows_tick by (auto simp: ping_round_def timer_get_ticks_def Let_def)
next
  case False
  let ?e = "e\<lparr>ticks_read := Suc (ticks_read e)\<rparr>"
  obtain l1 n1 k1 e1 k2 e2 where p: "ping_send S h dest (ticks e (ticks_read e) * 10) (l, n, k, ?e) = Some (l1, n1, k1, e1)"
      "polls 5 S (k1, e1) = Some (k2, e2)"
    using assms(2) False by (auto simp: ping_round_def timer_get_ticks_def Let_def bind_eq_Some_conv)
  note q = ping_send_follows [OF assms(1) p(1) assms(3)]
  have f: "follows S (k, ?e) (k2, e2)" using follows_trans [OF q(1)] polls_follows [OF assms(1) p(2)] by blast
  have kind: "lib_kind S (snd (lib_icmp_recv S h (interface k2))) = lib_kind S (interface k2)" by (rule smoltcp_okD(10) [OF assms(1)])
  note g = follows_step [OF f] follows_step [OF follows_trans [OF f follows_interface [OF kind]]]
  from assms(2) False p q(2) g show ?thesis
    by (auto simp: ping_round_def timer_get_ticks_def Let_def bind_eq_Some_conv split_beta split: if_splits option.splits)
qed

lemma ping_round_returns:
  assumes "smoltcp_ok S" "polls_return S" "lib_kind S (interface k) h = Some Icmp_sock" "n \<le> 5"
  shows "\<exists>v. ping_round S h dest st dl (l, n, k, e) = Some v"
proof -
  let ?e = "e\<lparr>ticks_read := Suc (ticks_read e)\<rparr>" and ?now = "ticks e (ticks_read e) * 10"
  obtain kp ep where "poll S (k\<lparr>interface := snd (lib_icmp_send S h ping_payload dest (interface k))\<rparr>, ?e) = Some (kp, ep)"
    using poll_returns [OF assms(2)] by blast
  then have "ping_send S h dest ?now (l, n, k, ?e) \<noteq> None"
    using assms(3) by (simp add: ping_send_def need_def Let_def split_beta)
  then obtain l1 n1 k1 e1 where p: "ping_send S h dest ?now (l, n, k, ?e) = Some (l1, n1, k1, e1)" by auto
  obtain k2 e2 where q: "polls 5 S (k1, e1) = Some (k2, e2)" using polls_returns [OF assms(2)] by blast
  have "follows S (k, ?e) (k2, e2)"
    using follows_trans [OF ping_send_follows(1) [OF assms(1) p assms(4)]] polls_follows [OF assms(1) q] by blast
  then have "lib_kind S (interface k2) h = Some Icmp_sock" using follows_kind assms(3) by fastforce
  with p q show ?thesis by (simp add: ping_round_def timer_get_ticks_def need_def Let_def split_beta split: option.split)
qed

section \<open>The calls on a stack\<close>

text \<open>The tick at which a wait must have ended.\<close>

lemma deadline_read:
  assumes "clock_serves D e0" "ticks e = ticks e0" "i \<le> ticks_read e0 + 30000" "d \<le> 10 * int D" "- (2 ^ 31) \<le> d" "d < 2 ^ 31"
  obtains J where "\<And>j. sint (ticks e j * 10) < sint (ticks e i * 10 + of_int d) \<Longrightarrow> j < J"
proof -
  obtain J where J: "\<forall>j \<ge> J. unat (ticks e0 i) + D \<le> unat (ticks e0 j)" using clock_from [OF assms(1,3)] by blast
  show ?thesis
  proof (rule that [of J], rule ccontr)
    fix j assume lt: "sint (ticks e j * 10) < sint (ticks e i * 10 + of_int d)" and "\<not> j < J"
    then have "unat (ticks e i) + D \<le> unat (ticks e j)" using J assms(2) by simp
    moreover have "10 * int (unat (ticks e j)) < 10 * int (unat (ticks e i)) + d"
      using lt clock_bound [OF assms(1)] assms(2) by (simp add: tick_ms0 tick_ms [OF _ assms(5,6)] del: of_nat_unat)
    ultimately show False using assms(4) by linarith
  qed
qed

lemma follows_ticks: "follows S (k, e) (k', e') \<Longrightarrow> ticks e' = ticks e \<and> ticks_read e \<le> ticks_read e'"
  by (simp add: follows_def)

text \<open>The waiting loops have one shape: a round follows the state it started from, and goes round again only
  when it read a time before the deadline.\<close>

definition goes_on :: "'s smoltcp \<Rightarrow> u64 \<Rightarrow> 's running \<Rightarrow> 's running \<Rightarrow> bool" where
  "goes_on S dl st st' \<longleftrightarrow> follows S st st' \<and> ticks_read (snd st) < ticks_read (snd st') \<and>
     sint (ticks (snd st) (ticks_read (snd st)) * 10) < sint dl"

lemma wait_loop_value:
  fixes body :: "'x \<Rightarrow> ('x + 'r) option"
  assumes "loop_until body x = Some r" "I x"
    and round: "\<And>x x'. I x \<Longrightarrow> body x = Some (Inl x') \<Longrightarrow> I x' \<and> goes_on S dl (run x) (run x')"
    and leave: "\<And>y r. I y \<Longrightarrow> follows S (run x) (run y) \<Longrightarrow> body y = Some (Inr r) \<Longrightarrow> Q r"
  shows "Q r"
proof (rule loop_until_value [OF assms(1), where P = "\<lambda>y. I y \<and> follows S (run x) (run y)" and Q = Q])
  fix y y' assume y: "I y \<and> follows S (run x) (run y)" "body y = Some (Inl y')"
  show "I y' \<and> follows S (run x) (run y')" using round [of y y'] y follows_trans unfolding goes_on_def by blast
next
  show "Q r" if "I y \<and> follows S (run x) (run y)" "body y = Some (Inr r)" for y r using leave that by blast
qed (simp add: assms(2))

lemma wait_loop_ends:
  fixes body :: "'x \<Rightarrow> ('x + 'r) option"
  assumes "I x" and J: "\<And>j. sint (ticks (snd (run x)) j * 10) < sint dl \<Longrightarrow> j < J"
    and returns: "\<And>y. I y \<Longrightarrow> follows S (run x) (run y) \<Longrightarrow> \<exists>v. body y = Some v"
    and round: "\<And>y y'. I y \<Longrightarrow> body y = Some (Inl y') \<Longrightarrow> I y' \<and> goes_on S dl (run y) (run y')"
  shows "\<exists>r. loop_until body x = Some r"
proof -
  have "\<exists>r. loop_until body x = Some r \<and> True"
  proof (rule clock_loop_ends [where P = "\<lambda>y. I y \<and> follows S (run x) (run y)" and at = "\<lambda>y. ticks_read (snd (run y))" and J = J])
    fix y assume y: "I y \<and> follows S (run x) (run y)"
    then obtain v where v: "body y = Some v" using returns by blast
    have "ticks (snd (run y)) = ticks (snd (run x))" using y by (simp add: follows_def split_beta)
    then show "\<exists>v. body y = Some v \<and> (case v of
        Inl y' \<Rightarrow> (I y' \<and> follows S (run x) (run y')) \<and> ticks_read (snd (run y)) < ticks_read (snd (run y')) \<and> ticks_read (snd (run y)) < J
      | Inr _ \<Rightarrow> True)"
      using y v round [of y] J by (auto simp: goes_on_def split: sum.split intro: follows_trans)
  qed (simp add: assms(1))
  then show ?thesis by simp
qed

text \<open>The rounds in that shape.\<close>

lemma connect_round_again: "smoltcp_ok S \<Longrightarrow> connect_round S h dl x = Some (Inl x') \<Longrightarrow> goes_on S dl x x'"
  using connect_round_follows [of S h dl "fst x" "snd x" "Inl x'"] by (cases x; cases x') (simp add: goes_on_def)

lemma send_round_again: "smoltcp_ok S \<Longrightarrow> send_round S h data dl x = Some (Inl x') \<Longrightarrow> goes_on S dl x x'"
  using send_round_follows [of S h data dl "fst x" "snd x" "Inl x'"] by (cases x; cases x') (simp add: goes_on_def)

lemma ping_round_again:
  "smoltcp_ok S \<Longrightarrow> fst (snd x) \<le> 5 \<Longrightarrow> ping_round S h dest st dl x = Some (Inl x') \<Longrightarrow>
    fst (snd x') \<le> 5 \<and> goes_on S dl (snd (snd x)) (snd (snd x'))"
  using ping_round_follows [of S h dest st dl "fst x" "fst (snd x)" "fst (snd (snd x))" "snd (snd (snd x))" "Inl x'"]
  by (cases x; cases x') (simp add: goes_on_def)

lemma connect_loop_follows:
  assumes "smoltcp_ok S" "loop_until (connect_round S h dl) (k, e) = Some (r, k', e')"
  shows "follows S (k, e) (k', e') \<and> r \<in> {0, - 1} \<and> (r = 0 \<longrightarrow> lib_tcp_state S h (interface k') = St_established)"
proof -
  let ?Q = "\<lambda>(r, st). follows S (k, e) st \<and> r \<in> {0, - 1} \<and> (r = 0 \<longrightarrow> lib_tcp_state S h (interface (fst st)) = St_established)"
  have "?Q (r, k', e')"
  proof (rule wait_loop_value [OF assms(2), where I = "\<lambda>_. True" and run = "\<lambda>x. x" and S = S and dl = dl])
    fix y r assume f: "follows S (k, e) y" and r: "connect_round S h dl y = Some (Inr r)"
    show "?Q r" using connect_round_follows [OF assms(1), of h dl "fst y" "snd y" "Inr r"] f r
      by (cases r) (auto intro: follows_trans)
  qed (simp_all add: connect_round_again [OF assms(1)])
  then show ?thesis by simp
qed

lemma connect_loop_ends:
  assumes "smoltcp_ok S" "polls_return S" "lib_kind S (interface k) h = Some Tcp_sock"
    and "\<And>j. sint (ticks e j * 10) < sint dl \<Longrightarrow> j < J"
  shows "\<exists>r. loop_until (connect_round S h dl) (k, e) = Some r"
proof (rule wait_loop_ends [where I = "\<lambda>_. True" and run = "\<lambda>x. x" and S = S and dl = dl and J = J])
  show "\<exists>v. connect_round S h dl y = Some v" if "follows S (k, e) y" for y
    using connect_round_returns [OF assms(1,2), of "fst y" h dl "snd y"] follows_kind [of S k e "fst y" "snd y"] that assms(3) by simp
qed (simp_all add: assms(4) connect_round_again [OF assms(1)])

lemma send_loop_follows:
  assumes "smoltcp_ok S" "loop_until (send_round S h data dl) (k, e) = Some (n, k', e')"
  shows "follows S (k, e) (k', e') \<and> n \<le> length data"
proof -
  let ?Q = "\<lambda>(n, st). follows S (k, e) st \<and> n \<le> length data"
  have "?Q (n, k', e')"
  proof (rule wait_loop_value [OF assms(2), where I = "\<lambda>_. True" and run = "\<lambda>x. x" and S = S and dl = dl])
    fix y r assume f: "follows S (k, e) y" and r: "send_round S h data dl y = Some (Inr r)"
    show "?Q r" using send_round_follows [OF assms(1), of h data dl "fst y" "snd y" "Inr r"] f r
      by (cases r) (auto intro: follows_trans)
  qed (simp_all add: send_round_again [OF assms(1)])
  then show ?thesis by simp
qed

lemma send_loop_ends:
  assumes "smoltcp_ok S" "polls_return S" "lib_kind S (interface k) h = Some Tcp_sock"
    and "\<And>j. sint (ticks e j * 10) < sint dl \<Longrightarrow> j < J"
  shows "\<exists>r. loop_until (send_round S h data dl) (k, e) = Some r"
proof (rule wait_loop_ends [where I = "\<lambda>_. True" and run = "\<lambda>x. x" and S = S and dl = dl and J = J])
  show "\<exists>v. send_round S h data dl y = Some v" if "follows S (k, e) y" for y
    using send_round_returns [OF assms(1,2), of "fst y" h data dl "snd y"] follows_kind [of S k e "fst y" "snd y"] that assms(3) by simp
qed (simp_all add: assms(4) send_round_again [OF assms(1)])

lemma ping_loop_follows:
  assumes "smoltcp_ok S" "loop_until (ping_round S h dest st dl) (l, 0, k, e) = Some (n, r, k', e')"
  shows "follows S (k, e) (k', e') \<and> n \<le> 5 \<and> (r = - 1 \<or>
    (\<exists>i \<ge> ticks_read e. sint (ticks e i * 10) < sint dl \<and> r = sint (ucast (ticks e i * 10 - st) :: u32)))"
proof -
  let ?Q = "\<lambda>(n, r, st'). follows S (k, e) st' \<and> n \<le> (5::nat) \<and> (r = - 1 \<or>
    (\<exists>i \<ge> ticks_read e. sint (ticks e i * 10) < sint dl \<and> r = sint (ucast (ticks e i * 10 - st) :: u32)))"
  have "?Q (n, r, k', e')"
  proof (rule wait_loop_value [OF assms(2), where I = "\<lambda>x. fst (snd x) \<le> 5" and run = "\<lambda>x. snd (snd x)" and S = S and dl = dl])
    fix x r assume x: "fst (snd x) \<le> 5" "follows S (snd (snd (l, 0, k, e))) (snd (snd x))" "ping_round S h dest st dl x = Some (Inr r)"
    obtain l1 n1 k1 e1 n2 r2 k2 e2 where [simp]: "x = (l1, n1, k1, e1)" "r = (n2, r2, k2, e2)" by (cases x; cases r)
    note f = x(2) [simplified]
    from ping_round_follows [OF assms(1) x(3) [simplified] x(1) [simplified]] follows_ticks [OF f] follows_trans [OF f]
    show "?Q r" by auto
  qed (use ping_round_again [OF assms(1)] in auto)
  then show ?thesis by simp
qed

lemma ping_loop_ends:
  assumes "smoltcp_ok S" "polls_return S" "lib_kind S (interface k) h = Some Icmp_sock"
    and "\<And>j. sint (ticks e j * 10) < sint dl \<Longrightarrow> j < J"
  shows "\<exists>r. loop_until (ping_round S h dest st dl) (l, 0, k, e) = Some r"
proof (rule wait_loop_ends [where I = "\<lambda>x. fst (snd x) \<le> 5" and run = "\<lambda>x. snd (snd x)" and S = S and dl = dl and J = J])
  show "\<exists>v. ping_round S h dest st dl y = Some v" if "fst (snd y) \<le> 5" "follows S (snd (snd (l, 0, k, e))) (snd (snd y))" for y
    using ping_round_returns [OF assms(1,2), of "fst (snd (snd y))" h "fst (snd y)" dest st dl "fst y" "snd (snd (snd y))"]
      follows_kind [of S k e "fst (snd (snd y))" "snd (snd (snd y))"] that assms(3) by simp
qed (use assms(4) ping_round_again [OF assms(1)] in auto)

lemma poll_until_active_follows:
  assumes "smoltcp_ok S" "poll_until_active n S h (k, e) = Some (k', e')"
  shows "follows S (k, e) (k', e') \<and> ticks_read e' \<le> ticks_read e + 200 * n"
  using assms(2)
proof (induction n arbitrary: k e)
  case (Suc n)
  obtain k1 e1 where p: "poll S (k, e) = Some (k1, e1)" "k' = k1 \<and> e' = e1 \<or> poll_until_active n S h (k1, e1) = Some (k', e')"
    using Suc.prems by (auto simp: bind_eq_Some_conv split: if_splits)
  then show ?case using poll_follows [OF assms(1) p(1)] Suc.IH [of k1 e1] by (auto intro: follows_trans)
qed simp

lemma poll_until_active_returns:
  assumes "smoltcp_ok S" "polls_return S" "lib_kind S (interface k) h = Some Tcp_sock"
  shows "\<exists>k' e'. poll_until_active n S h (k, e) = Some (k', e')"
  using assms(3)
proof (induction n arbitrary: k e)
  case (Suc n)
  obtain k1 e1 where p: "poll S (k, e) = Some (k1, e1)" using poll_returns [OF assms(2)] by blast
  with Suc.prems have "lib_kind S (interface k1) h = Some Tcp_sock"
    using follows_kind [OF poll_follows(1) [OF assms(1) p]] by simp
  then show ?case using p Suc.IH [of k1 e1] by (auto simp: need_def)
qed simp

text \<open>What the three waiting calls do, and that they return.\<close>

lemma tcp_connect_follows:
  assumes "smoltcp_ok S" "tcp_connect S fd ip port (k, e) = Some (r, k', e')"
  shows "follows S (k, e) (k', e') \<and> r \<in> {0, - 1} \<and>
    (r = 0 \<longrightarrow> (\<exists>h. tcp_handle fd k = Some h \<and> lib_tcp_state S h (interface k') = St_established))"
proof (cases "tcp_handle fd k")
  case None
  with assms(2) show ?thesis by (simp add: tcp_connect_def)
next
  case (Some h)
  let ?c = "lib_tcp_connect S h ip port (local_port_of fd) (interface k)"
  have kind: "lib_kind S (snd ?c) = lib_kind S (interface k)" by (rule smoltcp_okD(11) [OF assms(1)])
  have live: "lib_kind S (interface k) h = Some Tcp_sock"
    using assms(2) Some by (simp add: tcp_connect_def need_def split: if_splits)
  show ?thesis
  proof (cases "fst ?c")
    case False
    with assms(2) Some live have "r = - 1" "k' = k\<lparr>interface := snd ?c\<rparr>" "e' = e"
      by (simp_all add: tcp_connect_def need_def split_beta)
    then show ?thesis using follows_interface [OF kind] by simp
  next
    case True
    with assms(2) Some live have "loop_until (connect_round S h (ticks e (ticks_read e) * 10 + 3000))
        (k\<lparr>interface := snd ?c\<rparr>, e\<lparr>ticks_read := Suc (ticks_read e)\<rparr>) = Some (r, k', e')"
      by (simp add: tcp_connect_def need_def split_beta timer_get_ticks_def)
    note l = connect_loop_follows [OF assms(1) this]
    have "follows S (k, e) (k', e')" by (rule follows_step(1) [OF follows_iface [OF conjunct1 [OF l] kind]])
    with l Some show ?thesis by simp
  qed
qed

lemma tcp_connect_returns:
  assumes "smoltcp_ok S" "polls_return S" "clock_serves 1001 e"
    and typed: "\<And>h. tcp_handle fd k = Some h \<Longrightarrow> lib_kind S (interface k) h = Some Tcp_sock"
  shows "\<exists>v. tcp_connect S fd ip port (k, e) = Some v"
proof (cases "tcp_handle fd k")
  case (Some h)
  let ?c = "lib_tcp_connect S h ip port (local_port_of fd) (interface k)"
  let ?e = "e\<lparr>ticks_read := Suc (ticks_read e)\<rparr>"
  obtain J where "\<And>j. sint (ticks ?e j * 10) < sint (ticks ?e (ticks_read e) * 10 + of_int 3000) \<Longrightarrow> j < J"
    using deadline_read [OF assms(3), of ?e "ticks_read e" 3000] by auto
  then have "\<exists>v. loop_until (connect_round S h (ticks e (ticks_read e) * 10 + 3000)) (k\<lparr>interface := snd ?c\<rparr>, ?e) = Some v"
    by (intro connect_loop_ends [OF assms(1,2), where J = J]) (simp_all add: smoltcp_okD(11) [OF assms(1)] typed [OF Some])
  then show ?thesis using Some typed [OF Some] by (auto simp: tcp_connect_def timer_get_ticks_def Let_def split_beta need_def)
qed (simp add: tcp_connect_def)

lemma tcp_send_follows:
  assumes "smoltcp_ok S" "tcp_send S fd data (k, e) = Some (r, k', e')"
  shows "follows S (k, e) (k', e') \<and> (r = - 1 \<or> 0 < r \<and> r \<le> int (length data) \<and> tcp_handle fd k \<noteq> None)"
proof (cases "tcp_handle fd k")
  case None
  with assms(2) show ?thesis by (simp add: tcp_send_def)
next
  case (Some h)
  obtain k1 e1 where p: "poll_until_active 100 S h (k, e) = Some (k1, e1)"
    using assms(2) Some by (auto simp: tcp_send_def bind_eq_Some_conv)
  note f = poll_until_active_follows [OF assms(1) p]
  consider "r = - 1" "k' = k1" "e' = e1"
    | n where "loop_until (send_round S h data (ticks e1 (ticks_read e1) * 10 + 10000)) (k1, e1\<lparr>ticks_read := Suc (ticks_read e1)\<rparr>) =
        Some (n, k', e')" "r = (if n > 0 then int n else - 1)"
    using assms(2) Some p
    by (auto simp: tcp_send_def timer_get_ticks_def Let_def split_beta bind_eq_Some_conv split: if_splits)
  then show ?thesis
  proof cases
    case 1
    with f show ?thesis by simp
  next
    case 2
    note l = send_loop_follows [OF assms(1) 2(1)]
    have "follows S (k, e) (k', e')" by (rule follows_trans [OF conjunct1 [OF f] follows_step(1) [OF conjunct1 [OF l]]])
    with l 2(2) Some show ?thesis by simp
  qed
qed

lemma tcp_send_returns:
  assumes "smoltcp_ok S" "polls_return S" "clock_serves 1001 e"
    and typed: "\<And>h. tcp_handle fd k = Some h \<Longrightarrow> lib_kind S (interface k) h = Some Tcp_sock"
  shows "\<exists>v. tcp_send S fd data (k, e) = Some v"
proof (cases "tcp_handle fd k")
  case (Some h)
  obtain k1 e1 where p: "poll_until_active 100 S h (k, e) = Some (k1, e1)"
    using poll_until_active_returns [OF assms(1,2) typed [OF Some]] by blast
  note f = poll_until_active_follows [OF assms(1) p]
  have kind: "lib_kind S (interface k1) h = Some Tcp_sock" using follows_kind [of S k e k1 e1] f typed [OF Some] by simp
  let ?e = "e1\<lparr>ticks_read := Suc (ticks_read e1)\<rparr>"
  obtain J where "\<And>j. sint (ticks ?e j * 10) < sint (ticks ?e (ticks_read e1) * 10 + of_int 10000) \<Longrightarrow> j < J"
    using deadline_read [OF assms(3), of ?e "ticks_read e1" 10000] f follows_ticks [of S k e k1 e1] by auto
  then have "\<exists>v. loop_until (send_round S h data (ticks e1 (ticks_read e1) * 10 + 10000)) (k1, ?e) = Some v"
    by (intro send_loop_ends [OF assms(1,2), where J = J]) (simp_all add: kind)
  then show ?thesis using Some p kind by (auto simp: tcp_send_def timer_get_ticks_def Let_def split_beta need_def)
qed (simp add: tcp_send_def)

end
