(* ===== verification/Net_Setup.thy ===== *)
theory Net_Setup
  imports Net_Waits
begin

text \<open>
  The ping call and the making of a stack (static address or DHCP): what they change, what they return, and
  that they return.
\<close>

section \<open>Ping\<close>

lemma ucast_of_int: "(ucast (of_int i :: u64) :: u32) = of_int i"
  by transfer (simp add: take_bit_take_bit)

lemma rtt_value:
  assumes "unat (a :: u64) < 2 ^ 59" "unat b < 2 ^ 59" "unat a \<le> unat b" "- (2 ^ 31) \<le> d" "d < 2 ^ 31"
    "sint (b * 10) < sint (a * 10 + of_int d)"
  shows "sint (ucast (b * 10 - a * 10) :: u32) = 10 * (int (unat b) - int (unat a)) \<and> 10 * (int (unat b) - int (unat a)) < d"
proof -
  have lt: "10 * (int (unat b) - int (unat a)) < d" 
    using assms(6) unfolding tick_ms0 [OF assms(2)] tick_ms [OF assms(1,4,5)] by (simp add: algebra_simps del: of_nat_unat)
  have "b * 10 - a * 10 = (of_int (10 * (int (unat b) - int (unat a))) :: u64)" by (simp add: algebra_simps)
  then have "(ucast (b * 10 - a * 10) :: u32) = of_int (10 * (int (unat b) - int (unat a)))"
    by (simp only: ucast_of_int)
  then have "sint (ucast (b * 10 - a * 10) :: u32) = signed_take_bit 31 (10 * (int (unat b) - int (unat a)))"
    by (simp only: sint_sbintrunc' len_bit0 len_num1) simp
  also have "\<dots> = 10 * (int (unat b) - int (unat a))"
  proof (rule signed_take_bit_int_eq_self)
    have "0 \<le> int (unat b) - int (unat a)" using assms(3) by (simp del: of_nat_unat)
    then show "- (2 ^ 31) \<le> 10 * (int (unat b) - int (unat a))" by (simp del: of_nat_unat)
    show "10 * (int (unat b) - int (unat a)) < 2 ^ 31" using lt assms(5) by (rule less_trans)
  qed
  finally show ?thesis using lt by simp
qed

lemma icmp_ping_follows:
  assumes "smoltcp_ok S" "icmp_ping S ip timeout (k, e) = Some (n, r, k', e')"
  shows "follows S (k, e) (k', e') \<and> n \<le> 5 \<and> (r = - 1 \<or> (\<exists>i \<ge> ticks_read e.
    sint (ticks e i * 10) < sint (ticks e (ticks_read e) * 10 + of_int timeout) \<and>
    r = sint (ucast (ticks e i * 10 - ticks e (ticks_read e) * 10) :: u32)))"
proof -
  let ?st = "ticks e (ticks_read e) * 10" and ?add = "lib_add S (New_icmp 4 1024 4 1024 0x1234) (interface k)"
  let ?k = "k\<lparr>interface := snd ?add\<rparr>" and ?e = "e\<lparr>ticks_read := Suc (ticks_read e)\<rparr>"
  obtain k1 e1 where p1: "polls 20 S (?k, ?e) = Some (k1, e1)"
    using assms(2) by (cases "polls 20 S (?k, ?e)") (auto simp: icmp_ping_def timer_get_ticks_def split_beta)
  let ?loop = "loop_until (ping_round S (fst ?add) ip ?st (?st + of_int timeout)) (?st - 100000, 0, k1, e1)"
  obtain n2 r2 k2 e2 where p2: "?loop = Some (n2, r2, k2, e2)"
    using assms(2) p1 by (cases ?loop) (auto simp: icmp_ping_def timer_get_ticks_def Let_def split_beta)
  with p1 assms(2) have p: "polls 20 S (?k, ?e) = Some (k1, e1)" "?loop = Some (n, r, k2, e')"
      "k' = k2\<lparr>interface := lib_remove S (fst ?add) (interface k2)\<rparr>"
    by (auto simp: icmp_ping_def timer_get_ticks_def Let_def split_beta remove_socket_def split: if_splits)
  have f1: "follows S (?k, ?e) (k1, e1)" using polls_follows [OF assms(1) p(1)] by simp
  note l = ping_loop_follows [OF assms(1) p(2)]
  have f2: "follows S (?k, ?e) (k2, e')" using follows_trans [OF f1] l by blast
  have "lib_kind S (interface k') = lib_kind S (interface k)"
    using follows_kind [OF f2] smoltcp_okD(3,4,5) [OF assms(1)] by (simp add: p(3) fun_upd_idem)
  with f2 have "follows S (k, e) (k', e')" by (simp add: follows_def p(3))
  moreover have "ticks e1 = ticks e \<and> ticks_read e \<le> ticks_read e1" using follows_ticks [OF f1] by simp
  ultimately show ?thesis using l by (auto dest: le_trans)
qed

lemma icmp_ping_returns:
  assumes "smoltcp_ok S" "polls_return S" "clock_serves D e" "timeout \<le> 10 * int D" "- (2 ^ 31) \<le> timeout" "timeout < 2 ^ 31"
  shows "\<exists>v. icmp_ping S ip timeout (k, e) = Some v"
proof -
  let ?st = "ticks e (ticks_read e) * 10" and ?add = "lib_add S (New_icmp 4 1024 4 1024 0x1234) (interface k)"
  let ?k = "k\<lparr>interface := snd ?add\<rparr>" and ?e = "e\<lparr>ticks_read := Suc (ticks_read e)\<rparr>"
  obtain k1 e1 where p: "polls 20 S (?k, ?e) = Some (k1, e1)" using polls_returns [OF assms(2)] by blast
  have f1: "follows S (?k, ?e) (k1, e1)" using polls_follows [OF assms(1) p(1)] by simp
  have kind: "lib_kind S (interface k1) (fst ?add) = Some Icmp_sock"
    using follows_kind [OF f1] smoltcp_okD(4) [OF assms(1)] by simp
  have t: "ticks e1 = ticks e" using follows_ticks [OF f1] by simp
  obtain J where J: "\<And>j. sint (ticks e1 j * 10) < sint (ticks e1 (ticks_read e) * 10 + of_int timeout) \<Longrightarrow> j < J"
    using deadline_read [OF assms(3) t _ assms(4-6), of "ticks_read e"] by auto
  obtain n r k2 e2 where l: "loop_until (ping_round S (fst ?add) ip ?st (?st + of_int timeout)) (?st - 100000, 0, k1, e1) = Some (n, r, k2, e2)"
    using ping_loop_ends [OF assms(1,2) kind J [unfolded t]] t by (metis prod_cases4)
  have "lib_kind S (interface k2) (fst ?add) = Some Icmp_sock"
    using ping_loop_follows [OF assms(1) l] follows_kind kind by metis
  with p l show ?thesis by (simp add: icmp_ping_def timer_get_ticks_def remove_socket_def Let_def split_beta)
qed

section \<open>A new stack\<close>

lemma new_from_active_driver_iff: "new_from_active_driver n = None \<longleftrightarrow> ACTIVE_DRIVER n = None"
  by (auto simp: new_from_active_driver_def Let_def split: option.splits DriverType.splits)

lemma new_with_ip_value:
  assumes "smoltcp_ok S" "ACTIVE_DRIVER (e_nics e) \<noteq> None"
  obtains dev s where "new_from_active_driver (e_nics e) = Some dev"
    "new_with_ip S ip gw e = Some (\<lparr>device = dev, interface = s, socket_map = [], next_fd = 1,
       gateway = if gw \<noteq> [0, 0, 0, 0] then Some gw else None, dns_servers = []\<rparr>, e\<lparr>ticks_read := Suc (ticks_read e)\<rparr>)"
    "lib_addrs S s = [(ip, 24)]"
proof -
  obtain dev where d: "new_from_active_driver (e_nics e) = Some dev" using new_from_active_driver_iff assms(2) by (metis option.exhaust)
  let ?s = "lib_set_addrs S [(ip, 24)] (lib_new S (device_mac dev) (ticks e (ticks_read e)))"
  obtain s' where r: "lib_add_route S gw ?s = Some s'" using smoltcp_ok_route(3) [OF assms(1)] by blast
  have a: "lib_addrs S s' = [(ip, 24)]" "lib_addrs S ?s = [(ip, 24)]"
    using smoltcp_ok_route(2) [OF assms(1) r] smoltcp_okD(7) [OF assms(1)] by simp_all
  show ?thesis
    by (rule that [of dev "if gw \<noteq> [0, 0, 0, 0] then s' else ?s"])
      (simp_all add: d new_with_ip_def timer_get_ticks_def smoltcp_okD(2) [OF assms(1)] r a)
qed

text \<open>The environment a stack was made in: drivers moved by adapter calls, the same clock.\<close>

definition later :: "net_env \<Rightarrow> net_env \<Rightarrow> bool" where
  "later e e' \<longleftrightarrow> nic_step\<^sup>*\<^sup>* (e_nics e) (e_nics e') \<and> ticks e' = ticks e \<and> ticks_read e \<le> ticks_read e'"

lemma later_trans: "later e e' \<Longrightarrow> later e' e'' \<Longrightarrow> later e e''"
  by (auto simp: later_def)

lemma later_active: "later e e' \<Longrightarrow> ACTIVE_DRIVER (e_nics e') = ACTIVE_DRIVER (e_nics e)"
proof -
  have "nic_step\<^sup>*\<^sup>* n n' \<Longrightarrow> ACTIVE_DRIVER n' = ACTIVE_DRIVER n" for n n'
    by (induction rule: rtranclp_induct) (simp_all add: nic_step_active)
  then show "later e e' \<Longrightarrow> ?thesis" by (simp add: later_def)
qed

lemma dhcp_round_later:
  assumes "smoltcp_ok S" "dhcp_round S dev h t0 (s, e) = Some v"
  shows "case v of
      Inl (s', e') \<Rightarrow> later e e' \<and> lib_kind S s' = lib_kind S s \<and> ticks_read e' = Suc (ticks_read e) \<and> \<not> (ticks e (ticks_read e) - t0) * 10 > 10000
    | Inr (c, s', e') \<Rightarrow> later e e' \<and> lib_kind S s' = lib_kind S s"
proof (cases "(ticks e (ticks_read e) - t0) * 10 > 10000")
  case True
  with assms(2) show ?thesis by (auto simp: dhcp_round_def timer_get_ticks_def later_def)
next
  case False
  let ?e = "e\<lparr>ticks_read := Suc (ticks_read e)\<rparr>"
  obtain b s1 n where p: "lib_poll S (ticks e (ticks_read e) * 10) dev s (e_nics e) = Some (b, s1, n)"
    using assms(2) False by (cases "lib_poll S (ticks e (ticks_read e) * 10) dev s (e_nics e)")
      (auto simp: dhcp_round_def timer_get_ticks_def)
  have l: "later e (?e\<lparr>e_nics := n\<rparr>)" using smoltcp_ok_poll(2) [OF assms(1) p] by (simp add: later_def)
  have kind: "lib_kind S (snd (lib_dhcp_poll S h s1)) = lib_kind S s"
    using smoltcp_ok_poll(1) [OF assms(1) p] smoltcp_okD(8) [OF assms(1)] by simp
  from assms(2) False p l kind show ?thesis
    by (auto simp: dhcp_round_def timer_get_ticks_def split_beta bind_eq_Some_conv Let_def split: option.splits dhcp_event.splits)
qed

lemma dhcp_round_returns:
  assumes "smoltcp_ok S" "polls_return S" "lib_kind S s h = Some Dhcp_sock"
  shows "\<exists>v. dhcp_round S dev h t0 (s, e) = Some v"
proof -
  obtain b s1 n where p: "lib_poll S (ticks e (ticks_read e) * 10) dev s (e_nics e) = Some (b, s1, n)"
    using assms(2) by (metis polls_return_def option.exhaust prod_cases3)
  with assms(3) smoltcp_ok_poll(1) [OF assms(1) p] show ?thesis
    by (simp add: dhcp_round_def timer_get_ticks_def need_def Let_def split_beta split: option.split dhcp_event.split)
qed

text \<open>Ten seconds are over once the counter has gone on by 1001 ticks.\<close>

lemma dhcp_time_up:
  assumes "unat (t0 :: u64) + 1001 \<le> unat t" "unat t < 2 ^ 59"
  shows "(t - t0) * 10 > 10000"
proof -
  have d: "unat (t - t0) = unat t - unat t0" using assms(1) by (intro unat_sub) (simp add: word_le_nat_alt)
  have "unat (t - t0) * unat (10 :: u64) < 2 ^ LENGTH(64)" using assms(2) d by simp
  note m = unat_mult_lem [THEN iffD1, OF this]
  show ?thesis unfolding word_less_nat_alt m d using assms(1) by simp
qed

lemma dhcp_loop_later:
  assumes "smoltcp_ok S" "loop_until (dhcp_round S dev h t0) (s, e) = Some (c, s', e')"
  shows "later e e' \<and> lib_kind S s' = lib_kind S s"
proof -
  have "(\<lambda>(c, s', e'). later e e' \<and> lib_kind S s' = lib_kind S s) (c, s', e')"
  proof (rule loop_until_value [OF assms(2), where P = "\<lambda>(s', e'). later e e' \<and> lib_kind S s' = lib_kind S s"])
    fix x y assume "(\<lambda>(s', e'). later e e' \<and> lib_kind S s' = lib_kind S s) x" "dhcp_round S dev h t0 x = Some (Inl y)"
    then show "(\<lambda>(s', e'). later e e' \<and> lib_kind S s' = lib_kind S s) y"
      using dhcp_round_later [OF assms(1), of dev h t0 "fst x" "snd x" "Inl y"] by (auto intro: later_trans simp: split_beta)
  next
    fix x r assume "(\<lambda>(s', e'). later e e' \<and> lib_kind S s' = lib_kind S s) x" "dhcp_round S dev h t0 x = Some (Inr r)"
    then show "(\<lambda>(c, s', e'). later e e' \<and> lib_kind S s' = lib_kind S s) r"
      using dhcp_round_later [OF assms(1), of dev h t0 "fst x" "snd x" "Inr r"] by (auto intro: later_trans simp: split_beta)
  qed (simp add: later_def)
  then show ?thesis by simp
qed

lemma dhcp_loop_ends:
  assumes "smoltcp_ok S" "polls_return S" "lib_kind S s h = Some Dhcp_sock"
    and J: "\<And>j. \<not> (ticks e j - t0) * 10 > 10000 \<Longrightarrow> j < J"
  shows "\<exists>v. loop_until (dhcp_round S dev h t0) (s, e) = Some v"
proof -
  let ?P = "\<lambda>(s', e'). later e e' \<and> lib_kind S s' = lib_kind S s"
  have "\<exists>v. loop_until (dhcp_round S dev h t0) (s, e) = Some v \<and> True"
  proof (rule clock_loop_ends [where P = ?P and at = "\<lambda>x. ticks_read (snd x)" and J = J])
    fix x assume x: "?P x"
    then obtain v where v: "dhcp_round S dev h t0 x = Some v"
      using dhcp_round_returns [OF assms(1,2), of "fst x" h dev t0 "snd x"] assms(3) by (auto simp: split_beta)
    have t: "ticks (snd x) = ticks e" using x by (auto simp: later_def)
    show "\<exists>v. dhcp_round S dev h t0 x = Some v \<and> (case v of
        Inl x' \<Rightarrow> ?P x' \<and> ticks_read (snd x) < ticks_read (snd x') \<and> ticks_read (snd x) < J | Inr _ \<Rightarrow> True)"
    proof (intro exI conjI)
      show "dhcp_round S dev h t0 x = Some v" by (rule v)
      show "case v of Inl x' \<Rightarrow> ?P x' \<and> ticks_read (snd x) < ticks_read (snd x') \<and> ticks_read (snd x) < J | Inr _ \<Rightarrow> True"
        using dhcp_round_later [OF assms(1), of dev h t0 "fst x" "snd x" v] v x t J [of "ticks_read (snd x)"]
        by (auto simp: split_beta split: sum.split intro: later_trans)
    qed
  qed (simp add: later_def)
  then show ?thesis by simp
qed

lemma later_tick: "later e (e\<lparr>ticks_read := Suc (ticks_read e)\<rparr>)"
  by (simp add: later_def)

lemma new_with_ip_later:
  assumes "smoltcp_ok S" "new_with_ip S ip gw e = Some (k, e')"
  shows "socket_map k = [] \<and> later e e'"
proof -
  have "ACTIVE_DRIVER (e_nics e) \<noteq> None" using assms(2) new_from_active_driver_iff [of "e_nics e"] by (auto simp: new_with_ip_def)
  from new_with_ip_value [OF assms(1) this, of ip gw] obtain dev s where
    "new_with_ip S ip gw e = Some (\<lparr>device = dev, interface = s, socket_map = [], next_fd = 1,
       gateway = if gw \<noteq> [0, 0, 0, 0] then Some gw else None, dns_servers = []\<rparr>, e\<lparr>ticks_read := Suc (ticks_read e)\<rparr>)" by blast
  with assms(2) later_tick [of e] show ?thesis by auto
qed

lemma new_with_ip_returns:
  assumes "smoltcp_ok S" "ACTIVE_DRIVER (e_nics e) \<noteq> None"
  shows "\<exists>v. new_with_ip S ip gw e = Some v"
  by (rule new_with_ip_value [OF assms, of ip gw]) blast

text \<open>The search for an address: the socket it uses, and the start of its wait.\<close>

definition dhcp_start :: "'s smoltcp \<Rightarrow> NetDevice \<Rightarrow> net_env \<Rightarrow> nat \<times> 's" where
  "dhcp_start S dev e = lib_add S New_dhcp (lib_set_addrs S (lib_addrs S (lib_new S (device_mac dev) (ticks e (ticks_read e))) @ [([0, 0, 0, 0], 0)])
     (lib_new S (device_mac dev) (ticks e (ticks_read e))))"

definition dhcp_search :: "'s smoltcp \<Rightarrow> NetDevice \<Rightarrow> net_env \<Rightarrow> ((cidr \<times> ip4 option \<times> ip4 list) option \<times> 's \<times> net_env) option" where
  "dhcp_search S dev e = loop_until (dhcp_round S dev (fst (dhcp_start S dev e)) (ticks e (Suc (ticks_read e))))
     (snd (dhcp_start S dev e), e\<lparr>ticks_read := Suc (Suc (ticks_read e))\<rparr>)"

lemma new_stack_search:
  assumes "new_from_active_driver (e_nics e) = Some dev"
  shows "dhcp_search S dev e = None \<Longrightarrow> new_stack qemu S e = None"
    and "dhcp_search S dev e = Some (None, s, e') \<Longrightarrow> new_stack qemu S e = new_with_static_fallback qemu S e'"
    and "dhcp_search S dev e = Some (Some (addr, router, dns), s, e') \<Longrightarrow> new_stack qemu S e =
      (let s = lib_set_addrs S [addr] s;
           s = (case router of None \<Rightarrow> s | Some gw \<Rightarrow> (case lib_add_route S gw s of None \<Rightarrow> s | Some s' \<Rightarrow> s'))
       in remove_socket S (fst (dhcp_start S dev e)) s \<bind> (\<lambda>s.
         Some (\<lparr>device = dev, interface = s, socket_map = [], next_fd = 1, gateway = router, dns_servers = dns\<rparr>, e')))"
  using assms by (simp_all add: dhcp_search_def dhcp_start_def new_stack_def new_with_dhcp_def timer_get_ticks_def Let_def split_beta
    split: option.split)

lemma dhcp_search_later:
  assumes "smoltcp_ok S" "dhcp_search S dev e = Some (c, s', e')"
  shows "later e e'" "lib_kind S s' (fst (dhcp_start S dev e)) = Some Dhcp_sock"
proof -
  note l = dhcp_loop_later [OF assms(1) assms(2) [unfolded dhcp_search_def]]
  show "later e e'" using l by (simp add: later_def)
  show "lib_kind S s' (fst (dhcp_start S dev e)) = Some Dhcp_sock"
    using l smoltcp_okD(4) [OF assms(1)] by (simp add: dhcp_start_def)
qed

lemma new_stack_later:
  assumes "smoltcp_ok S" "new_stack qemu S e = Some (k, e')"
  shows "socket_map k = [] \<and> later e e'"
proof -
  obtain dev where d: "new_from_active_driver (e_nics e) = Some dev"
    using assms(2) by (cases "new_from_active_driver (e_nics e)") (auto simp: new_stack_def new_with_dhcp_def)
  obtain c s1 e1 where l: "dhcp_search S dev e = Some (c, s1, e1)"
    using assms(2) new_stack_search(1) [OF d, of S qemu] by (cases "dhcp_search S dev e") auto
  note l1 = dhcp_search_later(1) [OF assms(1) l]
  show ?thesis
  proof (cases c)
    case None
    then have "\<exists>ip gw. new_with_ip S ip gw e1 = Some (k, e')"
      using assms(2) l new_stack_search(2) [OF d, of S s1 e1 qemu] by (auto simp: new_with_static_fallback_def split: if_splits)
    then show ?thesis using new_with_ip_later [OF assms(1)] later_trans [OF l1] by blast
  next
    case (Some cfg)
    obtain addr router dns where cfg: "cfg = (addr, router, dns)" by (cases cfg)
    from assms(2) l Some l1 show ?thesis unfolding cfg
      by (auto simp: new_stack_search(3) [OF d] Let_def bind_eq_Some_conv)
  qed
qed

lemma dhcp_search_returns:
  assumes "smoltcp_ok S" "polls_return S" "clock_serves 1001 e"
  shows "\<exists>c s e'. dhcp_search S dev e = Some (c, s, e')"
proof -
  let ?s = "dhcp_start S dev e" and ?e = "e\<lparr>ticks_read := Suc (Suc (ticks_read e))\<rparr>" and ?t0 = "ticks e (Suc (ticks_read e))"
  have kind: "lib_kind S (snd ?s) (fst ?s) = Some Dhcp_sock" by (simp add: dhcp_start_def smoltcp_okD(4) [OF assms(1)])
  have "Suc (ticks_read e) \<le> ticks_read e + 30000" by simp
  from clock_from [OF assms(3) this] obtain J where J: "\<forall>j \<ge> J. unat ?t0 + 1001 \<le> unat (ticks e j)" by blast
  have up: "j < J" if late: "\<not> (ticks ?e j - ?t0) * 10 > 10000" for j
  proof (rule ccontr)
    assume "\<not> j < J"
    then have "unat ?t0 + 1001 \<le> unat (ticks e j)" using J by simp
    from dhcp_time_up [OF this clock_bound [OF assms(3)]] late show False by simp
  qed
  have "\<exists>v. dhcp_search S dev e = Some v" unfolding dhcp_search_def by (rule dhcp_loop_ends [OF assms(1,2) kind up])
  then show ?thesis by auto
qed

lemma new_stack_returns:
  assumes "smoltcp_ok S" "polls_return S" "clock_serves 1001 e" "ACTIVE_DRIVER (e_nics e) \<noteq> None"
  shows "\<exists>v. new_stack qemu S e = Some v"
proof -
  obtain dev where d: "new_from_active_driver (e_nics e) = Some dev"
    using new_from_active_driver_iff [of "e_nics e"] assms(4) by (cases "new_from_active_driver (e_nics e)") auto
  obtain c s1 e1 where l: "dhcp_search S dev e = Some (c, s1, e1)" using dhcp_search_returns [OF assms(1-3)] by blast
  note l1 = dhcp_search_later [OF assms(1) l]
  show ?thesis
  proof (cases c)
    case None
    have "ACTIVE_DRIVER (e_nics e1) \<noteq> None" using later_active [OF l1(1)] assms(4) by simp
    then show ?thesis using new_with_ip_returns [OF assms(1)] l None
      by (simp add: new_stack_search(2) [OF d] new_with_static_fallback_def)
  next
    case (Some cfg)
    obtain addr router dns where cfg: "cfg = (addr, router, dns)" by (cases cfg)
    have "lib_kind S (lib_set_addrs S [addr] s1) = lib_kind S s1" by (rule smoltcp_okD(6) [OF assms(1)])
    moreover have "lib_kind S s' = lib_kind S s1" if "lib_add_route S gw (lib_set_addrs S [addr] s1) = Some s'" for gw s'
      using smoltcp_ok_route(1) [OF assms(1) that] smoltcp_okD(6) [OF assms(1)] by simp
    ultimately show ?thesis using l Some l1(2) unfolding cfg
      by (simp add: new_stack_search(3) [OF d] remove_socket_def Let_def split: option.split)
  qed
qed

end
