(* ===== verification/Net_Calls.thy ===== *)
theory Net_Calls
  imports Net_Setup
begin

text \<open>
  The calls on the network stack in any order: which sockets the descriptors refer to, that every call
  returns, and what the calls return.
\<close>

section \<open>The descriptors\<close>

text \<open>A typed table: every entry names a live socket of its own kind, no two descriptors share a socket, and
  only TCP sockets listen.\<close>

fun kind_of_type :: "SocketType \<Rightarrow> sock_kind" where
  "kind_of_type Tcp = Tcp_sock"
| "kind_of_type Udp = Udp_sock"
| "kind_of_type Icmp = Icmp_sock"

definition stack_ok :: "'s smoltcp \<Rightarrow> 's NetworkStack \<Rightarrow> bool" where
  "stack_ok S k \<longleftrightarrow>
     (\<forall>fd t. bt_get fd (socket_map k) = Some t \<longrightarrow>
        lib_kind S (interface k) (handle t) = Some (kind_of_type (socket_type t)) \<and> (state t = Listening \<longrightarrow> socket_type t = Tcp)) \<and>
     (\<forall>fd fd' t t'. bt_get fd (socket_map k) = Some t \<longrightarrow> bt_get fd' (socket_map k) = Some t' \<longrightarrow> handle t = handle t' \<longrightarrow> fd = fd')"

definition run_ok :: "'s smoltcp \<Rightarrow> 's running \<Rightarrow> bool" where
  "run_ok S = (\<lambda>(k, e). stack_ok S k \<and> nics_ok (e_nics e))"

lemma stack_ok_entry:
  assumes "stack_ok S k" "bt_get fd (socket_map k) = Some t"
  shows "lib_kind S (interface k) (handle t) = Some (kind_of_type (socket_type t))" "state t = Listening \<Longrightarrow> socket_type t = Tcp"
    "bt_get fd' (socket_map k) = Some t' \<Longrightarrow> handle t' = handle t \<Longrightarrow> fd' = fd"
  using assms unfolding stack_ok_def by metis+

lemma stack_ok_tcp: "stack_ok S k \<Longrightarrow> tcp_handle fd k = Some h \<Longrightarrow> lib_kind S (interface k) h = Some Tcp_sock"
  using stack_ok_entry(1) [of S k fd] by (auto simp: tcp_handle_def split: option.splits if_splits)

lemma follows_run_ok: "follows S st st' \<Longrightarrow> run_ok S st \<Longrightarrow> run_ok S st'"
  by (auto simp: follows_def run_ok_def stack_ok_def intro: nic_steps_ok)

lemma follows_call: "follows S (k, e) (k', e') \<Longrightarrow> run_ok S (k, e) \<Longrightarrow> run_ok S (k', e')"
  by (rule follows_run_ok)

lemma add_entry_ok:
  assumes "smoltcp_ok S" "stack_ok S k" "kind_of sock = kind_of_type t"
  shows "stack_ok S (snd (add_entry t sock S k))"
proof -
  let ?h = "fst (lib_add S sock (interface k))"
  have "handle t \<noteq> ?h" if "bt_get fd (socket_map k) = Some t" for fd t
    using stack_ok_entry(1) [OF assms(2) that] smoltcp_okD(3) [OF assms(1), of "interface k" sock] by auto
  then have "\<forall>fd t. bt_get fd (socket_map k) = Some t \<longrightarrow> handle t \<noteq> ?h \<and> ?h \<noteq> handle t" by metis
  then show ?thesis using assms(2,3) smoltcp_okD(4) [OF assms(1), of sock "interface k"]
    by (auto simp: stack_ok_def add_entry_def Let_def split_beta bt_get_insert)
qed

lemma change_state_ok:
  assumes "stack_ok S k" "bt_get fd (socket_map k) = Some t" "x = Listening \<longrightarrow> socket_type t = Tcp"
    "lib_kind S s = lib_kind S (interface k)"
  shows "stack_ok S (k\<lparr>interface := s, socket_map := bt_insert fd (t\<lparr>state := x\<rparr>) (socket_map k)\<rparr>)"
  using stack_ok_entry [OF assms(1,2)] assms(1,3,4) by (auto simp: stack_ok_def bt_get_insert)

lemma interface_ok: "stack_ok S k \<Longrightarrow> lib_kind S s = lib_kind S (interface k) \<Longrightarrow> stack_ok S (k\<lparr>interface := s\<rparr>)"
  by (simp add: stack_ok_def)

lemma tcp_bind_ok:
  assumes "smoltcp_ok S" "stack_ok S k"
  shows "\<exists>r k'. tcp_bind S fd port k = Some (r, k') \<and> stack_ok S k'"
proof (cases "bt_get fd (socket_map k)")
  case (Some t)
  let ?s = "snd (lib_tcp_listen S (handle t) port (interface k))"
  have kind: "lib_kind S ?s = lib_kind S (interface k)" by (rule smoltcp_okD(12) [OF assms(1)])
  show ?thesis
  proof (cases "socket_type t = Tcp")
    case True
    then have "stack_ok S (k\<lparr>interface := ?s, socket_map := bt_insert fd (t\<lparr>state := Listening\<rparr>) (socket_map k)\<rparr>)"
      using change_state_ok [OF assms(2) Some _ kind] by simp
    then show ?thesis using Some True stack_ok_entry(1) [OF assms(2) Some] interface_ok [OF assms(2) kind]
      by (simp add: tcp_bind_def need_def Let_def split_beta)
  qed (use Some assms(2) in \<open>simp add: tcp_bind_def\<close>)
qed (use assms in \<open>simp add: tcp_bind_def\<close>)

lemma accept_on_ok:
  assumes "stack_ok S k"
  shows "\<exists>r k'. accept_on S fd a p k = Some (r, k') \<and> stack_ok S k'"
proof (cases "bt_get fd (socket_map k)")
  case (Some t)
  have "stack_ok S (k\<lparr>socket_map := bt_insert fd (t\<lparr>state := Connected\<rparr>) (socket_map k)\<rparr>)"
    using change_state_ok [OF assms Some, of Connected "interface k"] by simp
  moreover have "state t = Listening \<Longrightarrow> lib_kind S (interface k) (handle t) = Some Tcp_sock"
    using stack_ok_entry(1,2) [OF assms Some] by simp
  ultimately show ?thesis using Some assms
    by (simp add: accept_on_def need_def Let_def split: option.split)
qed (use assms in \<open>simp add: accept_on_def\<close>)

lemma tcp_recv_ok:
  assumes "smoltcp_ok S" "stack_ok S k"
  shows "\<exists>r b k'. tcp_recv S fd buf k = Some (r, b, k') \<and> stack_ok S k'"
proof (cases "tcp_handle fd k")
  case (Some h)
  have "stack_ok S (k\<lparr>interface := snd (lib_tcp_recv S h (length buf) (interface k))\<rparr>)"
    by (rule interface_ok [OF assms(2) smoltcp_okD(14) [OF assms(1)]])
  then show ?thesis using Some stack_ok_tcp [OF assms(2) Some]
    by (simp add: tcp_recv_def need_def Let_def split_beta split: option.split)
qed (use assms in \<open>simp add: tcp_recv_def\<close>)

lemma close_socket_ok:
  assumes "smoltcp_ok S" "stack_ok S k"
  shows "\<exists>r k'. close_socket S fd k = Some (r, k') \<and> stack_ok S k'"
proof (cases "bt_get fd (socket_map k)")
  case (Some t)
  note e = stack_ok_entry [OF assms(2) Some] smoltcp_okD(5) [OF assms(1), of "handle t" "interface k"]
  have "stack_ok S (k\<lparr>socket_map := bt_remove fd (socket_map k), interface := lib_remove S (handle t) (interface k)\<rparr>)"
    using assms(2) e(3,4) by (auto simp: stack_ok_def bt_get_remove)
  then show ?thesis using Some e(1) by (simp add: close_socket_def remove_socket_def)
qed (use assms in \<open>simp add: close_socket_def\<close>)

section \<open>Sequences of calls\<close>

datatype net_call =
    Call_init bool | Call_init_with_ip ip4 ip4 | Call_poll | Call_ping "ip4 option" int | Call_socket
  | Call_connect int ip4 u16 | Call_bind int u16 | Call_listen int int | Call_accept int "u8 list option" "u16 option"
  | Call_send int "u8 list" | Call_recv int "u8 list" | Call_close int | Call_get_config net_outputs

fun net_do :: "'s smoltcp \<Rightarrow> net_call \<Rightarrow> 's net_sys \<Rightarrow> (int \<times> 's net_sys) option" where
  "net_do S (Call_init qemu) y = network_init qemu S y"
| "net_do S (Call_init_with_ip ip gw) y = network_init_with_ip S ip gw y"
| "net_do S Call_poll y = sock_poll S y"
| "net_do S (Call_ping ip timeout) y = net_icmp_ping S ip timeout y"
| "net_do S Call_socket y = sock_socket S y"
| "net_do S (Call_connect fd ip port) y = sock_connect S fd ip port y"
| "net_do S (Call_bind fd port) y = sock_bind S fd port y"
| "net_do S (Call_listen fd backlog) y = sock_listen fd backlog y"
| "net_do S (Call_accept fd a p) y = sock_accept S fd a p y \<bind> (\<lambda>(r, y). Some (fst r, y))"
| "net_do S (Call_send fd data) y = sock_send S fd data y"
| "net_do S (Call_recv fd buf) y = sock_recv S fd buf y \<bind> (\<lambda>(r, y). Some (fst r, y))"
| "net_do S (Call_close fd) y = sock_close S fd y"
| "net_do S (Call_get_config out) y = net_get_config S out y \<bind> (\<lambda>(r, y). Some (fst r, y))"

inductive net_reach :: "'s smoltcp \<Rightarrow> 's net_sys \<Rightarrow> 's net_sys \<Rightarrow> bool" for S y0 where
  start: "net_reach S y0 y0"
| call: "net_reach S y0 y \<Longrightarrow> net_do S c y = Some (r, y') \<Longrightarrow> net_reach S y0 y'"

definition net_ok :: "'s smoltcp \<Rightarrow> 's net_sys \<Rightarrow> bool" where
  "net_ok S y \<longleftrightarrow> (\<forall>k. NETWORK_STACK y = Some k \<longrightarrow> stack_ok S k) \<and> nics_ok (e_nics (env y))"

text \<open>A call through the lock keeps what its body keeps.\<close>

lemma with_stack_ok:
  assumes "net_ok S y" "with_stack a f y = Some (r, y')"
    and "\<And>k e r k' e'. run_ok S (k, e) \<Longrightarrow> f (k, e) = Some (r, k', e') \<Longrightarrow> run_ok S (k', e')"
  shows "net_ok S y' \<and> locked y' = locked y"
  using assms(1,2) assms(3) [of "the (NETWORK_STACK y)" "env y"]
  by (auto simp: with_stack_def net_ok_def run_ok_def bind_eq_Some_conv split: if_splits option.splits)

lemma with_stack_returns:
  assumes "\<not> locked y" "\<And>k. NETWORK_STACK y = Some k \<Longrightarrow> \<exists>r k' e'. f (k, env y) = Some (r, k', e')"
  shows "\<exists>r y'. with_stack a f y = Some (r, y')"
proof (cases "NETWORK_STACK y")
  case (Some k)
  from assms(2) [OF Some] obtain r k' e' where "f (k, env y) = Some (r, k', e')" by blast
  with assms(1) Some show ?thesis by (simp add: with_stack_def)
qed (use assms in \<open>simp add: with_stack_def\<close>)

lemma install_stack_ok:
  assumes "install_stack made y = Some (r, y')" "nics_ok (e_nics (env y))"
    and "\<And>k e. made = Some (k, e) \<Longrightarrow> socket_map k = [] \<and> later (env y) e"
  shows "net_ok S y' \<and> locked y' = locked y"
proof -
  obtain k e where m: "made = Some (k, e)" "y' = y\<lparr>NETWORK_STACK := Some k, env := e\<rparr>"
    using assms(1) by (auto simp: install_stack_def bind_eq_Some_conv split: if_splits)
  have "nics_ok (e_nics e)" using assms(2,3) m(1) nic_steps_ok by (auto simp: later_def)
  then show ?thesis using assms(3) [OF m(1)] m(2) by (simp add: net_ok_def stack_ok_def bt_get_def)
qed

lemma on_stack_ok:
  assumes "run_ok S (k, e)" "on_stack f (k, e) = Some (r, k', e')" "stack_ok S k \<Longrightarrow> \<exists>r k'. f k = Some (r, k') \<and> stack_ok S k'"
  shows "run_ok S (k', e')"
proof -
  from assms(1,3) obtain r2 k2 where "f k = Some (r2, k2)" "stack_ok S k2" by (auto simp: run_ok_def)
  with assms(1,2) show ?thesis by (simp add: on_stack_def run_ok_def)
qed

lemma on_stack_returns: "\<exists>r k'. f k = Some (r, k') \<and> stack_ok S k' \<Longrightarrow> \<exists>r k' e'. on_stack f (k, e) = Some (r, k', e')"
  by (auto simp: on_stack_def)

text \<open>The bodies of the calls that change only the table and its sockets.\<close>

lemma table_bodies_ok:
  assumes "smoltcp_ok S" "stack_ok S k"
  shows "\<exists>r k'. Some (create_tcp_socket S k) = Some (r, k') \<and> stack_ok S k'"
    and "\<exists>r k'. (tcp_recv S fd buf k \<bind> (\<lambda>(r, b, k). Some ((r, b), k))) = Some (r, k') \<and> stack_ok S k'"
    and "\<exists>r k'. Some (config_of S out k, k) = Some (r, k') \<and> stack_ok S k'"
proof -
  show "\<exists>r k'. Some (create_tcp_socket S k) = Some (r, k') \<and> stack_ok S k'"
    using add_entry_ok [OF assms, of "New_tcp 4096 4096" Tcp] unfolding create_tcp_socket_def
    by (cases "add_entry Tcp (New_tcp 4096 4096) S k") simp
  obtain r b k' where "tcp_recv S fd buf k = Some (r, b, k')" "stack_ok S k'" using tcp_recv_ok [OF assms] by blast
  then show "\<exists>r k'. (tcp_recv S fd buf k \<bind> (\<lambda>(r, b, k). Some ((r, b), k))) = Some (r, k') \<and> stack_ok S k'" by simp
qed (use assms in simp)

lemma sock_calls_keep:
  assumes "smoltcp_ok S" "net_ok S y"
  shows "sock_socket S y = Some (r, y') \<Longrightarrow> net_ok S y' \<and> locked y' = locked y"
    and "sock_bind S fd port y = Some (r, y') \<Longrightarrow> net_ok S y' \<and> locked y' = locked y"
    and "sock_listen fd backlog y = Some (r, y') \<Longrightarrow> net_ok S y' \<and> locked y' = locked y"
    and "sock_accept S fd a p y = Some (r', y') \<Longrightarrow> net_ok S y' \<and> locked y' = locked y"
    and "sock_recv S fd buf y = Some (r'', y') \<Longrightarrow> net_ok S y' \<and> locked y' = locked y"
    and "sock_close S fd y = Some (r, y') \<Longrightarrow> net_ok S y' \<and> locked y' = locked y"
    and "net_get_config S out y = Some (r3, y') \<Longrightarrow> net_ok S y' \<and> locked y' = locked y"
  unfolding sock_socket_def sock_bind_def sock_listen_def sock_accept_def sock_recv_def sock_close_def net_get_config_def
  by (erule with_stack_ok [OF assms(2)], erule (1) on_stack_ok, erule table_bodies_ok [OF assms(1)] tcp_bind_ok [OF assms(1)]
      accept_on_ok close_socket_ok [OF assms(1)] | erule with_stack_ok [OF assms(2)], simp)+

lemma wait_calls_keep:
  assumes "smoltcp_ok S" "net_ok S y"
  shows "sock_connect S fd ip port y = Some (r, y') \<Longrightarrow> net_ok S y' \<and> locked y' = locked y"
    and "sock_send S fd data y = Some (r, y') \<Longrightarrow> net_ok S y' \<and> locked y' = locked y"
    and "net_icmp_ping S a t y = Some (r, y') \<Longrightarrow> net_ok S y' \<and> locked y' = locked y"
    and "sock_poll S y = Some (r, y') \<Longrightarrow> net_ok S y' \<and> locked y' = locked y"
proof -
  show "sock_connect S fd ip port y = Some (r, y') \<Longrightarrow> net_ok S y' \<and> locked y' = locked y"
    unfolding sock_connect_def
    by (erule with_stack_ok [OF assms(2)]) (metis tcp_connect_follows [OF assms(1)] follows_call)
  show "sock_send S fd data y = Some (r, y') \<Longrightarrow> net_ok S y' \<and> locked y' = locked y"
    unfolding sock_send_def
    by (erule with_stack_ok [OF assms(2)]) (metis tcp_send_follows [OF assms(1)] follows_call)
  have ping: "run_ok S (k', e')" if "run_ok S (k, e)" "icmp_ping S ip t (k, e) \<bind> (\<lambda>(_, r, st). Some (r, st)) = Some (r, k', e')" for ip k e r k' e'
  proof -
    from that(2) obtain n where "icmp_ping S ip t (k, e) = Some (n, r, k', e')" by (auto simp: bind_eq_Some_conv)
    from icmp_ping_follows [OF assms(1) this] that(1) show ?thesis using follows_call by blast
  qed
  show "net_ok S y' \<and> locked y' = locked y" if "net_icmp_ping S a t y = Some (r, y')"
  proof (cases a)
    case (Some ip)
    with that have w: "with_stack (- 1) (\<lambda>st. icmp_ping S ip t st \<bind> (\<lambda>(_, r, st). Some (r, st))) y = Some (r, y')"
      by (simp add: net_icmp_ping_def)
    show ?thesis by (rule with_stack_ok [OF assms(2) w ping])
  qed (use that assms(2) in \<open>simp add: net_icmp_ping_def\<close>)
  show "net_ok S y' \<and> locked y' = locked y" if run: "sock_poll S y = Some (r, y')"
  proof (cases "\<not> locked y \<and> NETWORK_STACK y \<noteq> None")
    case True
    then obtain k k' e' where k: "NETWORK_STACK y = Some k" "poll S (k, env y) = Some (k', e')"
        "y' = y\<lparr>NETWORK_STACK := Some k', env := e'\<rparr>"
      using run by (auto simp: sock_poll_def network_poll_def bind_eq_Some_conv)
    have "run_ok S (k', e')" using follows_call [OF poll_follows(1) [OF assms(1) k(2)]] assms(2) k(1) by (simp add: run_ok_def net_ok_def)
    then show ?thesis using k(3) by (simp add: run_ok_def net_ok_def)
  qed (use run assms(2) in \<open>auto simp: sock_poll_def network_poll_def split: option.splits if_splits\<close>)
qed

lemma init_calls_keep:
  assumes "smoltcp_ok S" "net_ok S y"
  shows "network_init qemu S y = Some (r, y') \<Longrightarrow> net_ok S y' \<and> locked y' = locked y"
    and "network_init_with_ip S ip gw y = Some (r, y') \<Longrightarrow> net_ok S y' \<and> locked y' = locked y"
proof -
  have n: "nics_ok (e_nics (env y))" using assms(2) by (simp add: net_ok_def)
  show "network_init qemu S y = Some (r, y') \<Longrightarrow> net_ok S y' \<and> locked y' = locked y"
    using install_stack_ok [OF _ n, of "new_stack qemu S (env y)" r y' S] new_stack_later [OF assms(1)] assms(2)
    by (auto simp: network_init_def split: if_splits)
  show "network_init_with_ip S ip gw y = Some (r, y') \<Longrightarrow> net_ok S y' \<and> locked y' = locked y"
    using install_stack_ok [OF _ n, of "new_with_ip S ip gw (env y)" r y' S] new_with_ip_later [OF assms(1)] assms(2)
    by (auto simp: network_init_with_ip_def split: if_splits)
qed

lemma net_do_keeps:
  assumes "smoltcp_ok S" "net_ok S y" "net_do S c y = Some (r, y')"
  shows "net_ok S y' \<and> locked y' = locked y"
  using assms(3) sock_calls_keep [OF assms(1,2)] wait_calls_keep [OF assms(1,2)] init_calls_keep [OF assms(1,2)]
  by (cases c) (auto simp: bind_eq_Some_conv)

lemma net_reach_ok:
  assumes "net_reach S y0 y" "smoltcp_ok S" "net_ok S y0"
  shows "net_ok S y \<and> locked y = locked y0"
  using assms(1) by induction (use assms(3) net_do_keeps [OF assms(2)] in \<open>blast+\<close>)

text \<open>A time limit the clock can serve.\<close>

fun call_fits :: "nat \<Rightarrow> net_call \<Rightarrow> bool" where
  "call_fits D (Call_ping ip t) = (- (2 ^ 31) \<le> t \<and> t < 2 ^ 31 \<and> t \<le> 10 * int D)"
| "call_fits D _ = True"

lemma clock_less: "clock_serves D e \<Longrightarrow> D' \<le> D \<Longrightarrow> clock_serves D' e"
  unfolding clock_serves_def by (meson add_le_cancel_left le_trans)

lemma sock_calls_return:
  assumes "smoltcp_ok S" "net_ok S y" "\<not> locked y"
  shows "\<exists>r y'. sock_socket S y = Some (r, y')" "\<exists>r y'. sock_bind S fd port y = Some (r, y')"
    "\<exists>r y'. sock_listen fd backlog y = Some (r, y')" "\<exists>r y'. sock_accept S fd a p y = Some (r, y')"
    "\<exists>r y'. sock_recv S fd buf y = Some (r, y')" "\<exists>r y'. sock_close S fd y = Some (r, y')"
    "\<exists>r y'. net_get_config S out y = Some (r, y')"
proof -
  have k: "stack_ok S k" if "NETWORK_STACK y = Some k" for k using assms(2) that by (simp add: net_ok_def)
  show "\<exists>r y'. sock_listen fd backlog y = Some (r, y')" unfolding sock_listen_def by (rule with_stack_returns [OF assms(3)]) simp
  show "\<exists>r y'. sock_socket S y = Some (r, y')" "\<exists>r y'. sock_bind S fd port y = Some (r, y')"
    "\<exists>r y'. sock_accept S fd a p y = Some (r, y')" "\<exists>r y'. sock_recv S fd buf y = Some (r, y')"
    "\<exists>r y'. sock_close S fd y = Some (r, y')" "\<exists>r y'. net_get_config S out y = Some (r, y')"
    unfolding sock_socket_def sock_bind_def sock_accept_def sock_recv_def sock_close_def net_get_config_def
    by (rule with_stack_returns [OF assms(3)], rule on_stack_returns [where S = S], drule k,
        erule table_bodies_ok [OF assms(1)] tcp_bind_ok [OF assms(1)] accept_on_ok close_socket_ok [OF assms(1)])+
qed

lemma wait_calls_return:
  assumes "smoltcp_ok S" "net_ok S y" "\<not> locked y" "polls_return S" "clock_serves D (env y)" "1001 \<le> D"
  shows "\<exists>r y'. sock_connect S fd ip port y = Some (r, y')" "\<exists>r y'. sock_send S fd data y = Some (r, y')"
    "- (2 ^ 31) \<le> t \<Longrightarrow> t < 2 ^ 31 \<Longrightarrow> t \<le> 10 * int D \<Longrightarrow> \<exists>r y'. net_icmp_ping S a t y = Some (r, y')"
    "\<exists>r y'. sock_poll S y = Some (r, y')"
proof -
  note c = clock_less [OF assms(5,6)]
  have k: "stack_ok S k" if "NETWORK_STACK y = Some k" for k using assms(2) that by (simp add: net_ok_def)
  show "\<exists>r y'. sock_connect S fd ip port y = Some (r, y')" unfolding sock_connect_def
  proof (rule with_stack_returns [OF assms(3)])
    fix x assume x: "NETWORK_STACK y = Some x"
    obtain v where "tcp_connect S fd ip port (x, env y) = Some v" 
      using tcp_connect_returns [OF assms(1,4) c, of fd x] stack_ok_tcp [OF k [OF x], of fd] by blast
    then show "\<exists>r k' e'. tcp_connect S fd ip port (x, env y) = Some (r, k', e')" by (cases v) simp
  qed
  show "\<exists>r y'. sock_send S fd data y = Some (r, y')" unfolding sock_send_def
  proof (rule with_stack_returns [OF assms(3)])
    fix x assume x: "NETWORK_STACK y = Some x"
    obtain v where "tcp_send S fd data (x, env y) = Some v" 
      using tcp_send_returns [OF assms(1,4) c, of fd x] stack_ok_tcp [OF k [OF x], of fd] by blast
    then show "\<exists>r k' e'. tcp_send S fd data (x, env y) = Some (r, k', e')" by (cases v) simp
  qed
  show "\<exists>r y'. net_icmp_ping S a t y = Some (r, y')" if lim: "- (2 ^ 31) \<le> t" "t < 2 ^ 31" "t \<le> 10 * int D"
  proof (cases a)
    case (Some ip)
    have ping: "\<exists>r k' e'. icmp_ping S ip t (x, env y) \<bind> (\<lambda>(_, r, st). Some (r, st)) = Some (r, k', e')" for x
    proof -
      obtain n r k' e' where "icmp_ping S ip t (x, env y) = Some (n, r, k', e')"
        using icmp_ping_returns [OF assms(1,4,5) lim(3,1,2), of ip x] by (metis prod_cases4)
      then show ?thesis by simp
    qed
    show ?thesis unfolding net_icmp_ping_def Some option.case by (rule with_stack_returns [OF assms(3)], rule ping)
  qed (simp add: net_icmp_ping_def)
  show "\<exists>r y'. sock_poll S y = Some (r, y')"
  proof (cases "NETWORK_STACK y")
    case (Some x)
    obtain k' e' where "poll S (x, env y) = Some (k', e')" using poll_returns [OF assms(4)] by blast
    with Some show ?thesis by (simp add: sock_poll_def network_poll_def)
  qed (simp add: sock_poll_def network_poll_def)
qed

lemma init_calls_return:
  assumes "smoltcp_ok S" "\<not> locked y" "polls_return S" "clock_serves D (env y)" "1001 \<le> D"
  shows "\<exists>r y'. network_init qemu S y = Some (r, y')" "\<exists>r y'. network_init_with_ip S ip gw y = Some (r, y')"
proof -
  have i: "\<exists>r y'. install_stack made y = Some (r, y')" if "\<exists>v. made = Some v" for made using that assms(2) by (auto simp: install_stack_def)
  show "\<exists>r y'. network_init qemu S y = Some (r, y')"
    using i [OF new_stack_returns [OF assms(1,3) clock_less [OF assms(4,5)], of qemu]] by (cases "ACTIVE_DRIVER (e_nics (env y))") (simp_all add: network_init_def)
  show "\<exists>r y'. network_init_with_ip S ip gw y = Some (r, y')"
    using i [OF new_with_ip_returns [OF assms(1), of "env y" ip gw]] by (cases "ACTIVE_DRIVER (e_nics (env y))") (simp_all add: network_init_with_ip_def)
qed

lemma returns_code: "\<exists>r y'. f = Some (r, y') \<Longrightarrow> \<exists>r y'. f \<bind> (\<lambda>(r, y). Some (fst r, y)) = Some (r, y')"
  by auto

lemma net_do_returns:
  assumes "smoltcp_ok S" "net_ok S y" "\<not> locked y" "polls_return S" "clock_serves D (env y)" "1001 \<le> D" "call_fits D c"
  shows "\<exists>r y'. net_do S c y = Some (r, y')"
proof -
  note s = sock_calls_return [OF assms(1-3)] and w = wait_calls_return [OF assms(1-6)] and i = init_calls_return [OF assms(1,3,4,5,6)]
  from assms(7) show ?thesis by (cases c) (simp_all add: s w i, (rule returns_code, rule s)+)
qed

section \<open>An instance of the library\<close>

text \<open>A small library that keeps the contract: sockets in slots, a network that answers every echo request at once
  and a peer that accepts every connection.\<close>

definition demo_lib :: "(sock_kind option list \<times> cidr list) smoltcp" where
  "demo_lib = \<lparr>
     lib_new = \<lambda>mac seed. ([], []),
     lib_poll = \<lambda>t dev s n. Some (False, s, n),
     lib_addrs = snd,
     lib_set_addrs = \<lambda>l s. (fst s, l),
     lib_add_route = \<lambda>gw s. Some s,
     lib_kind = \<lambda>s h. if h < length (fst s) then fst s ! h else None,
     lib_add = \<lambda>x s. (length (fst s), fst s @ [Some (kind_of x)], snd s),
     lib_remove = \<lambda>h s. ((fst s)[h := None], snd s),
     lib_dhcp_poll = \<lambda>h s. (Some (Configured ([10, 0, 2, 15], 24) (Some [10, 0, 2, 2]) []), s),
     lib_icmp_can_send = \<lambda>h s. True,
     lib_icmp_send = \<lambda>h data dest s. (True, s),
     lib_icmp_can_recv = \<lambda>h s. True,
     lib_icmp_recv = \<lambda>h s. (Some ping_payload, s),
     lib_tcp_connect = \<lambda>h ip port local s. (True, s),
     lib_tcp_state = \<lambda>h s. St_established,
     lib_tcp_is_active = \<lambda>h s. True,
     lib_tcp_listen = \<lambda>h port s. (True, s),
     lib_tcp_may_send = \<lambda>h s. True,
     lib_tcp_can_send = \<lambda>h s. True,
     lib_tcp_send = \<lambda>h data s. (Some (length data), s),
     lib_tcp_recv = \<lambda>h max s. (Some [], s),
     lib_tcp_remote = \<lambda>h s. None\<rparr>"

lemma demo_lib_ok: "smoltcp_ok demo_lib"
  by (auto simp: smoltcp_ok_def demo_lib_def fun_eq_iff nth_append nth_list_update)

lemma demo_lib_polls: "polls_return demo_lib"
  by (simp add: polls_return_def demo_lib_def)

definition demo_env :: net_env where
  "demo_env = \<lparr>e_nics = demo_nics, ticks = \<lambda>i. of_nat (min i 100000), ticks_read = 0\<rparr>"

lemma demo_clock: "clock_serves 1001 (demo_env\<lparr>ticks_read := i\<rparr>)" if "i \<le> 60000"
proof -
  have u: "unat (of_nat (min j 100000) :: u64) = min j 100000" for j :: nat by (rule unat_of_nat_u64) simp
  show ?thesis unfolding clock_serves_def demo_env_def net_env.simps u using that by (auto intro!: exI [of _ 100000])
qed

lemma demo_nics_ok: "nics_ok demo_nics"
  by (simp add: nics_ok_def demo_nics_def demo_rtl_def rtl_ok_def)

definition demo_sys :: "(sock_kind option list \<times> cidr list) net_sys" where
  "demo_sys = \<lparr>NETWORK_STACK = None, locked = False, env = demo_env\<rparr>"

section \<open>Properties\<close>

text \<open>C6: However the calls on the stack are interleaved, the descriptor table stays well typed. Every descriptor
  refers to a live socket of the kind its entry says, so no call can panic on a missing socket or on one of
  another kind; two descriptors never share a socket, so closing one leaves the others usable; only TCP
  sockets are marked as listening; and the ring indices of the drivers behind the stack stay in range. The
  library is any one with the documented behaviour.\<close>

theorem descriptors_typed:
  assumes "smoltcp_ok S" "NETWORK_STACK y0 = None" "nics_ok (e_nics (env y0))" "net_reach S y0 y" "NETWORK_STACK y = Some k"
    "bt_get fd (socket_map k) = Some t"
  shows "lib_kind S (interface k) (handle t) = Some (kind_of_type (socket_type t)) \<and> (state t = Listening \<longrightarrow> socket_type t = Tcp) \<and>
    (\<forall>fd' t'. fd' \<noteq> fd \<longrightarrow> bt_get fd' (socket_map k) = Some t' \<longrightarrow> handle t' \<noteq> handle t) \<and> nics_ok (e_nics (env y))"
proof -
  have "net_ok S y" using net_reach_ok [OF assms(4,1)] assms(2,3) by (simp add: net_ok_def)
  then have k: "stack_ok S k" "nics_ok (e_nics (env y))" using assms(5) by (simp_all add: net_ok_def)
  show ?thesis using stack_ok_entry [OF k(1) assms(6)] k(2) by blast
qed

text \<open>The demonstration system after a static configuration and with its first socket.\<close>

lemma demo_reach:
  "\<exists>y k. net_reach demo_lib demo_sys y \<and> NETWORK_STACK y = Some k \<and>
     bt_get 1 (socket_map k) = Some \<lparr>socket_type = Tcp, handle = 0, state = Open, listening_socket = None\<rparr> \<and>
     env y = demo_env\<lparr>ticks_read := 1\<rparr>"
proof -
  obtain dev where d: "new_from_active_driver demo_nics = Some dev"
    using new_from_active_driver_iff [of demo_nics] by (cases "new_from_active_driver demo_nics") (auto simp: demo_nics_def)
  let ?k = "\<lparr>device = dev, interface = ([], [([10, 0, 0, 2], 24)]), socket_map = [], next_fd = 1, gateway = Some [10, 0, 0, 1], dns_servers = []\<rparr>"
  let ?y = "demo_sys\<lparr>NETWORK_STACK := Some ?k, env := demo_env\<lparr>ticks_read := 1\<rparr>\<rparr>"
  have one: "net_do demo_lib (Call_init_with_ip [10, 0, 0, 2] [10, 0, 0, 1]) demo_sys = Some (0, ?y)"
    using d by (simp add: network_init_with_ip_def install_stack_def new_with_ip_def demo_sys_def demo_env_def timer_get_ticks_def demo_lib_def)
      (simp add: demo_nics_def)
  let ?t = "\<lparr>socket_type = Tcp, handle = 0, state = Open, listening_socket = None\<rparr>"
  let ?k' = "?k\<lparr>interface := ([Some Tcp_sock], [([10, 0, 0, 2], 24)]), next_fd := 2, socket_map := [(1, ?t)]\<rparr>"
  have "next_i32 1 = 2" by code_simp
  then have two: "net_do demo_lib Call_socket ?y = Some (1, ?y\<lparr>NETWORK_STACK := Some ?k'\<rparr>)"
    by (simp add: sock_socket_def with_stack_def on_stack_def create_tcp_socket_def add_entry_def demo_lib_def demo_sys_def)
  have "net_reach demo_lib demo_sys (?y\<lparr>NETWORK_STACK := Some ?k'\<rparr>)"
    by (rule net_reach.call [OF net_reach.call [OF net_reach.start one] two])
  then show ?thesis
    by (intro exI [of _ "?y\<lparr>NETWORK_STACK := Some ?k'\<rparr>"] exI [of _ ?k'] conjI) (assumption | simp add: bt_get_def)+
qed

theorem descriptors_typed_witness:
  "\<exists>y k. net_reach demo_lib demo_sys y \<and> NETWORK_STACK y = Some k \<and> lib_kind demo_lib (interface k) 0 = Some Tcp_sock"
proof -
  obtain y k where y: "net_reach demo_lib demo_sys y" "NETWORK_STACK y = Some k"
      "bt_get 1 (socket_map k) = Some \<lparr>socket_type = Tcp, handle = 0, state = Open, listening_socket = None\<rparr>"
    using demo_reach by blast
  have "nics_ok (e_nics (env demo_sys))" "NETWORK_STACK demo_sys = None" using demo_nics_ok by (simp_all add: demo_sys_def demo_env_def)
  from descriptors_typed [OF demo_lib_ok this(2,1) y] y(1,2) show ?thesis by auto
qed



text \<open>C15: A ping returns. It sends at most five requests, and its value is \<open>- 1\<close> or a round-trip time in whole
  ticks that is not negative and below the timeout, although the time is computed in 64 bits and cut to 32;
  descriptors, sockets and gateway are as before, the temporary socket being removed again.\<close>

theorem ping_rtt_bounds:
  assumes "smoltcp_ok S" "polls_return S" "clock_serves D e" "timeout \<le> 10 * int D" "- (2 ^ 31) \<le> timeout" "timeout < 2 ^ 31"
  shows "\<exists>sent rtt k' e'. icmp_ping S ip timeout (k, e) = Some (sent, rtt, k', e') \<and> sent \<le> 5 \<and>
    (rtt = - 1 \<or> 0 \<le> rtt \<and> rtt < timeout \<and> 10 dvd rtt) \<and> follows S (k, e) (k', e')"
proof -
  obtain n r k' e' where p: "icmp_ping S ip timeout (k, e) = Some (n, r, k', e')"
    using icmp_ping_returns [OF assms] by (metis prod_cases4)
  note f = icmp_ping_follows [OF assms(1) p]
  have "0 \<le> r \<and> r < timeout \<and> 10 dvd r" if "r \<noteq> - 1"
  proof -
    from f that obtain i where i: "ticks_read e \<le> i" "sint (ticks e i * 10) < sint (ticks e (ticks_read e) * 10 + of_int timeout)"
      "r = sint (ucast (ticks e i * 10 - ticks e (ticks_read e) * 10) :: u32)" by blast
    note m = clock_mono [OF assms(3) i(1)]
    from rtt_value [OF clock_bound [OF assms(3)] clock_bound [OF assms(3)] m assms(5,6) i(2)] m i(3) show ?thesis
      by (simp del: of_nat_unat)
  qed
  with f p show ?thesis by blast
qed

theorem ping_rtt_bounds_witness:
  "\<exists>sent rtt k' e'. icmp_ping demo_lib [10, 0, 0, 1] 1000
      (\<lparr>device = Net_Rtl8139 [], interface = ([], []), socket_map = [], next_fd = 1, gateway = None, dns_servers = []\<rparr>, demo_env) =
        Some (sent, rtt, k', e') \<and> sent \<le> 5 \<and> rtt < 1000"
proof -
  have "clock_serves 1001 demo_env" using demo_clock [of 0] by (simp add: demo_env_def)
  from ping_rtt_bounds [OF demo_lib_ok demo_lib_polls this, of 1000 "[10, 0, 0, 1]"
      "\<lparr>device = Net_Rtl8139 [], interface = ([], []), socket_map = [], next_fd = 1, gateway = None, dns_servers = []\<rparr>"]
  show ?thesis by fastforce
qed



end
