(* ===== verification/Spec2Isabelle.thy ===== *)
theory Spec2Isabelle
  imports Heap_Allocator Vfs_Tree Serial_Port Vga_Console Keyboard_Buffer
    Process_Manager Task_Scheduler Syscall_Interface Shell_Exec Net_Calls
begin

text \<open>
  A verification development for the Rust part of the ShadeOS kernel, the crate under
  \<^verbatim>\<open>src/kernel-rs/src\<close>. File names below are relative to that directory.

  \<^bold>\<open>The program.\<close> The crate is the upper half of a small x86-64 kernel whose boot code, page tables, timer and
  block devices are written in C and assembly. It holds the heap (\<^verbatim>\<open>heap.rs\<close>), an in-memory file system
  (\<^verbatim>\<open>vfs.rs\<close>), the serial, screen and keyboard drivers (\<^verbatim>\<open>serial.rs\<close>, \<^verbatim>\<open>vga.rs\<close>, \<^verbatim>\<open>keyboard.rs\<close>), the process
  table and the scheduler (\<^verbatim>\<open>process.rs\<close>, \<^verbatim>\<open>scheduler.rs\<close>, the task functions of \<^verbatim>\<open>lib.rs.template\<close>), the
  system calls (\<^verbatim>\<open>syscalls.rs\<close>), a shell (\<^verbatim>\<open>bash.rs\<close>), three network card drivers (\<^verbatim>\<open>rtl8139.rs\<close>, \<^verbatim>\<open>e1000.rs\<close>,
  \<^verbatim>\<open>pcnet.rs\<close>, found through \<^verbatim>\<open>pci_net.rs\<close>) and a network stack (\<^verbatim>\<open>network.rs\<close>). The system calls consult the
  process table and work on the file system; the shell keeps its tables in heap blocks and works on the
  file system; the drivers take rings and buffers from the heap and serve the stack through one adapter.

  \<^bold>\<open>Conventions.\<close> Integers of the code are words of their width and wrap, as in a release build; signed ones are
  \<open>int\<close>, or words compared as signed numbers where they can wrap. Memory is a function from 64-bit addresses
  to bytes. A C string pointer is an optional byte list, null being \<open>None\<close>. A panic, an endless loop and a
  lock that is never released all are the value \<open>None\<close> of an option; a theorem that a function returns says
  that the value is \<open>Some\<close>. What a device answers is a stream that the model reads from; what the kernel
  writes to a device is a list of events.

  \<^bold>\<open>Theories.\<close>

  \<^item> \<^verbatim>\<open>Kernel_Prelude\<close>: types, byte strings, digits, word arithmetic. \<^verbatim>\<open>Rust_Loop\<close>: the \<^verbatim>\<open>loop\<close> construct with a
    rule for the value of a loop that ends and one for its end. \<^verbatim>\<open>Ordered_Map\<close>: the operations of
    \<^verbatim>\<open>BTreeMap\<close> with their contract \<open>key_table\<close>. \<^verbatim>\<open>Kernel_Memory\<close>: \<^verbatim>\<open>memory.rs\<close>, the call trace of \<^verbatim>\<open>vm.rs\<close> and
    runs of bytes in memory.
  \<^item> \<^verbatim>\<open>Allocator_Interface\<close> states as the locale \<open>kernel_allocator\<close> what the heap promises, with the
    lemmas its clients need on rows of buffers. \<^verbatim>\<open>Heap_Allocator\<close> models \<^verbatim>\<open>heap.rs\<close> (\<open>rust_kmalloc\<close>,
    \<open>rust_kfree\<close> over the header list), shows the list invariant in every reachable state, that allocation
    refines first fit and release refines giving a block back, and interprets the locale.
  \<^item> \<^verbatim>\<open>Vfs_Tree\<close>: the file system as a tree; it refines a map from paths to entries (locale
    \<open>file_system\<close>), stays well formed, and returns what was written.
  \<^item> \<^verbatim>\<open>Serial_Port\<close>, \<^verbatim>\<open>Vga_Console\<close>, \<^verbatim>\<open>Keyboard_Buffer\<close>: bytes reach the line in order once the UART is
    ready; cursor and cells stay in range; the keyboard buffer is a queue (locale \<open>char_queue\<close>).
  \<^item> \<^verbatim>\<open>Process_Manager\<close>: identifiers are unique and a user process can reach only its regions (locale
    \<open>access_control\<close>). \<^verbatim>\<open>Task_Scheduler\<close>: the tick chooses a ready task of best priority and ends; a reused
    slot makes it hang.
  \<^item> \<^verbatim>\<open>Syscall_Interface\<close>: the dispatcher and every handler; each call returns and keeps the invariants, the
    path calls refine the map of \<^verbatim>\<open>Vfs_Tree\<close>, and pointers without access are rejected where the code checks.
  \<^item> \<^verbatim>\<open>Shell_Text\<close>, \<^verbatim>\<open>Shell_State\<close>, \<^verbatim>\<open>Shell_World\<close>, \<^verbatim>\<open>Shell_Stubs\<close>, \<^verbatim>\<open>Shell_Info\<close>, \<^verbatim>\<open>Shell_Exec\<close>: the shell from its
    text utilities to the dispatch of command lines. Shown are the line editor against a reference, the
    splitting of a command line, variables (locale \<open>variable_store\<close>), exact results of single commands, that
    a command line without aliases returns, and that a session leaves no heap block behind.
  \<^item> \<^verbatim>\<open>Nic_Hardware\<close>: ports, registers, buffers and the serial line as the drivers see them. \<^verbatim>\<open>Nic_Rtl8139\<close>,
    \<^verbatim>\<open>Nic_E1000\<close>, \<^verbatim>\<open>Nic_Pcnet\<close>: the drivers. A burst of packets in the receive buffer of the RTL8139 comes out
    unchanged and in order; a transmission of the E1000 is carried out once the card frees the descriptor;
    the PCnet driver drops frames and misreads short ones.
  \<^item> \<^verbatim>\<open>Net_Device\<close>: the adapter between drivers and stack and the PCI identification. A first initialisation
    is all or nothing on the heap, frames pass the adapter unchanged, and every sequence of adapter calls
    (\<open>nic_step\<close>) keeps the ring indices in range.
  \<^item> \<^verbatim>\<open>Net_Stack\<close>: the stack, its sockets and all exported calls. \<^verbatim>\<open>Net_Waits\<close> and \<^verbatim>\<open>Net_Setup\<close>: the waiting
    loops, ping, and the making of a stack. \<^verbatim>\<open>Net_Calls\<close>: in every order of calls (\<open>net_reach\<close>) the descriptor
    table is well typed, every call returns, a ping keeps its bounds, and the configuration is reported as
    it was set.

  \<^bold>\<open>Code that is not under \<open>src\<close>.\<close> The crate smoltcp is the record \<open>smoltcp\<close> of its functions, an argument of
  the definitions of \<^verbatim>\<open>Net_Stack\<close>. The hypothesis \<open>smoltcp_ok\<close> states what its documentation says of sockets,
  addresses and polling; \<open>demo_lib\<close> is an instance that the witnesses use. The spin lock is a flag.

  \<^bold>\<open>Bounds and fuel.\<close> No model is cut off by fuel. Loops with a limit in the code have that limit (200 polls, 1000
  register reads, 32 descriptors). Loops without one are \<open>partial_function\<close> or \<open>loop_until\<close>, and the theorems
  that they return name what they wait for. \<open>clock_serves\<close> allows 30000 readings of the clock before a wait
  starts; the most a call makes is 20001, a hundred polls of at most 200 readings and one more. Readings
  below \<open>2 ^ 59\<close> keep times in milliseconds below \<open>2 ^ 63\<close>.

  \<^bold>\<open>Not modelled.\<close>

  \<^item> \<^verbatim>\<open>elf.rs\<close>: the loader follows offsets and counts of the loaded file through raw pointers and ends in a jump
    in assembly; it is not modelled yet.
  \<^item> \<^verbatim>\<open>ext2.rs\<close> forwards to the C driver and hands it strings without the terminating zero that the driver
    reads up to, so its effect is not determined by the sources.
  \<^item> \<^verbatim>\<open>shell.rs\<close> is not declared as a module of the crate.
  \<^item> The remaining lines of \<^verbatim>\<open>lib.rs.template\<close>: the global allocator and re-exports, which forward, and the panic
    handler, which is \<open>None\<close> here.
  \<^item> The C and assembly sources, the scripts and the documentation.
  \<^item> Diagnostic serial lines of the stack and the shell, delays that only spin, and exhaustion of the heap
    inside \<^verbatim>\<open>String\<close>, \<^verbatim>\<open>Vec\<close> and \<^verbatim>\<open>BTreeMap\<close>.
  \<^item> Initialising a driver a second time is modelled, but the lemmas on the heap and on the ring indices are
    about a first initialisation.
\<close>

end
